(* ===== verification/Prelude.thy ===== *)
theory Prelude
  imports Complex_Main "HOL-Library.Word" "HOL-Library.AList" "HOL-Library.Char_ord"
    "HOL-Library.List_Lexorder" "HOL-Library.Sublist" "HOL-Library.Multiset"
begin

text \<open>
  What every component of the model shares: Python bytes and values, exceptions as values,
  the state-and-exception computations in which the stateful code is written, Python
  dictionaries as insertion-ordered association lists, and the library of external
  functions (aionetiface, ecdsa, the clock, the network) that the definitions take as a
  parameter because their code is not part of the repository.
\<close>

unbundle bit_operations_syntax

named_theorems py_simps \<open>unfolding rules of the computations\<close>
named_theorems dict_simps \<open>rules of the dictionary operations\<close>

section \<open>Bytes, values, exceptions\<close>

type_synonym byte = "8 word"
type_synonym bytes = "byte list"

text \<open>A message argument is dynamically typed in the code: \<open>None\<close>, a \<open>str\<close> or \<open>bytes\<close>.\<close>

datatype pyval = PyNone | PyStr string | PyBytes bytes

fun truthy :: "pyval \<Rightarrow> bool" where
  "truthy PyNone = False"
| "truthy (PyStr s) = (s \<noteq> [])"
| "truthy (PyBytes b) = (b \<noteq> [])"

text \<open>
  The exceptions the code raises or catches. Those raised with a message carry its
  constant part, because the two \<open>ValueError\<close>s of the varint decoder mean different things.
\<close>

datatype exn =
    ValueError string
  | KeyError
  | TypeError
  | IndexError
  | AssertionError
  | StructError
  | InvalidStateError
  | ConnectionError
  | OSError
  | TimeoutError
  | CancelledError
  | BadSignatureError
  | MalformedPointError
  | RuntimeError
  | AttributeError
  | OtherError

fun is_ValueError :: "exn \<Rightarrow> bool" where
  "is_ValueError (ValueError _) = True"
| "is_ValueError _ = False"

text \<open>\<open>ConnectionError\<close> is a subclass of \<open>OSError\<close>, so \<open>except OSError\<close> catches both.\<close>

fun is_OSError :: "exn \<Rightarrow> bool" where
  "is_OSError OSError = True"
| "is_OSError ConnectionError = True"
| "is_OSError _ = False"

type_synonym 'a res = "exn + 'a"

definition res_bind :: "'a res \<Rightarrow> ('a \<Rightarrow> 'b res) \<Rightarrow> 'b res" where
  "res_bind r f = (case r of Inl e \<Rightarrow> Inl e | Inr x \<Rightarrow> f x)"

lemma res_bind_simps [simp]:
  "res_bind (Inl e) f = Inl e"
  "res_bind (Inr x) f = f x"
  by (simp_all add: res_bind_def)

lemma res_bind_Inr_conv: "res_bind r f = Inr y \<longleftrightarrow> (\<exists>x. r = Inr x \<and> f x = Inr y)"
  by (cases r) auto

lemma res_bind_Inl_conv:
  "res_bind r f = Inl e \<longleftrightarrow> r = Inl e \<or> (\<exists>x. r = Inr x \<and> f x = Inl e)"
  by (cases r) auto

section \<open>Dictionaries\<close>

lemma key_iff: "i \<in> fst ` set al \<longleftrightarrow> map_of al i \<noteq> None"
  by (simp add: map_of_eq_None_iff)

lemma update_lookup [dict_simps]: "map_of (AList.update k v al) j = (if j = k then Some v else map_of al j)"
  by (simp add: update_conv')

lemma delete_lookup [dict_simps]: "map_of (AList.delete k al) j = (if j = k then None else map_of al j)"
  by (simp add: delete_conv')

section \<open>Computations with a state and exceptions\<close>

text \<open>
  A method of an object is a function from the object's state to its outcome and the new
  state. When it raises, the changes made before the exception stay, as they do in Python.
\<close>

type_synonym ('s, 'a) py = "'s \<Rightarrow> 'a res \<times> 's"

definition py_return :: "'a \<Rightarrow> ('s, 'a) py" where
  "py_return x = (\<lambda>s. (Inr x, s))"

definition py_raise :: "exn \<Rightarrow> ('s, 'a) py" where
  "py_raise e = (\<lambda>s. (Inl e, s))"

definition py_bind :: "('s, 'a) py \<Rightarrow> ('a \<Rightarrow> ('s, 'b) py) \<Rightarrow> ('s, 'b) py" where
  "py_bind m f = (\<lambda>s. case m s of (Inl e, s') \<Rightarrow> (Inl e, s') | (Inr x, s') \<Rightarrow> f x s')"

definition py_seq :: "('s, unit) py \<Rightarrow> ('s, 'b) py \<Rightarrow> ('s, 'b) py" where
  "py_seq m n = py_bind m (\<lambda>_. n)"

definition py_get :: "('s \<Rightarrow> 'a) \<Rightarrow> ('s, 'a) py" where
  "py_get f = (\<lambda>s. (Inr (f s), s))"

definition py_modify :: "('s \<Rightarrow> 's) \<Rightarrow> ('s, unit) py" where
  "py_modify f = (\<lambda>s. (Inr (), f s))"

definition py_lift :: "'a res \<Rightarrow> ('s, 'a) py" where
  "py_lift r = (\<lambda>s. (r, s))"

definition py_when :: "bool \<Rightarrow> ('s, unit) py \<Rightarrow> ('s, unit) py" where
  "py_when b m = (if b then m else py_return ())"

text \<open>\<open>try: m except (those): h\<close> and a check that raises when its condition fails.\<close>

definition py_except :: "('s, 'a) py \<Rightarrow> (exn \<Rightarrow> bool) \<Rightarrow> ('s, 'a) py \<Rightarrow> ('s, 'a) py" where
  "py_except m catches h =
     (\<lambda>s. case m s of (Inl e, s') \<Rightarrow> if catches e then h s' else (Inl e, s') | (Inr x, s') \<Rightarrow> (Inr x, s'))"

text \<open>\<open>try: m finally: h\<close>\<close>

definition py_finally :: "('s, 'a) py \<Rightarrow> ('s, unit) py \<Rightarrow> ('s, 'a) py" where
  "py_finally m h = (\<lambda>s. case m s of (x, s') \<Rightarrow> (case h s' of
     (Inl e, s'') \<Rightarrow> (Inl e, s'')
   | (Inr _, s'') \<Rightarrow> (x, s'')))"

definition py_check :: "bool \<Rightarrow> exn \<Rightarrow> ('s, unit) py" where
  "py_check b e = (if b then py_return () else py_raise e)"

fun py_for :: "'a list \<Rightarrow> ('a \<Rightarrow> ('s, unit) py) \<Rightarrow> ('s, unit) py" where
  "py_for [] f = py_return ()"
| "py_for (x # xs) f = py_seq (f x) (py_for xs f)"

lemma py_return_app [py_simps]: "py_return x s = (Inr x, s)"
  by (simp add: py_return_def)

lemma py_raise_app [py_simps]: "py_raise e s = (Inl e, s)"
  by (simp add: py_raise_def)

lemma py_bind_app [py_simps]:
  "py_bind m f s = (case m s of (Inl e, s') \<Rightarrow> (Inl e, s') | (Inr x, s') \<Rightarrow> f x s')"
  by (simp add: py_bind_def)

lemma py_seq_app [py_simps]:
  "py_seq m n s = (case m s of (Inl e, s') \<Rightarrow> (Inl e, s') | (Inr _, s') \<Rightarrow> n s')"
  by (simp add: py_seq_def py_bind_def)

lemma py_get_app [py_simps]: "py_get f s = (Inr (f s), s)"
  by (simp add: py_get_def)

lemma py_modify_app [py_simps]: "py_modify f s = (Inr (), f s)"
  by (simp add: py_modify_def)

lemma py_lift_app [py_simps]: "py_lift r s = (r, s)"
  by (simp add: py_lift_def)

lemma py_when_app [py_simps]: "py_when b m s = (if b then m s else (Inr (), s))"
  by (simp add: py_when_def py_return_def)

lemma py_except_app [py_simps]:
  "py_except m catches h s =
     (case m s of (Inl e, s') \<Rightarrow> if catches e then h s' else (Inl e, s') | (Inr x, s') \<Rightarrow> (Inr x, s'))"
  by (simp add: py_except_def)

lemma py_check_app [py_simps]: "py_check b e s = (if b then Inr () else Inl e, s)"
  by (simp add: py_check_def py_return_def py_raise_def)

section \<open>Triples\<close>

text \<open>
  \<open>valid P m Q E\<close>: started where \<open>P\<close> holds, the computation ends with \<open>Q\<close> of its result and
  state, or raises in a state where \<open>E\<close> holds. One rule per combinator; an invariant is kept by
  a computation when it is precondition, postcondition and exception condition.
\<close>

named_theorems valid_rules \<open>rules of the triples\<close>

definition valid :: "('s \<Rightarrow> bool) \<Rightarrow> ('s, 'a) py \<Rightarrow> ('a \<Rightarrow> 's \<Rightarrow> bool) \<Rightarrow> ('s \<Rightarrow> bool) \<Rightarrow> bool" where
  "valid P m Q E \<longleftrightarrow> (\<forall>s. P s \<longrightarrow> (case m s of (Inl e, s') \<Rightarrow> E s' | (Inr x, s') \<Rightarrow> Q x s'))"

abbreviation keeps :: "('s \<Rightarrow> bool) \<Rightarrow> ('s, 'a) py \<Rightarrow> bool" where
  "keeps P m \<equiv> valid P m (\<lambda>_. P) P"

lemma validI:
  "(\<And>s e s'. P s \<Longrightarrow> m s = (Inl e, s') \<Longrightarrow> E s') \<Longrightarrow> (\<And>s x s'. P s \<Longrightarrow> m s = (Inr x, s') \<Longrightarrow> Q x s') \<Longrightarrow>
   valid P m Q E"
  unfolding valid_def by (auto split: prod.split sum.split)

lemma valid_Inr: "valid P m Q E \<Longrightarrow> P s \<Longrightarrow> m s = (Inr x, s') \<Longrightarrow> Q x s'"
  unfolding valid_def by fastforce

lemma valid_Inl: "valid P m Q E \<Longrightarrow> P s \<Longrightarrow> m s = (Inl e, s') \<Longrightarrow> E s'"
  unfolding valid_def by fastforce

lemma keeps_snd: "keeps P m \<Longrightarrow> P s \<Longrightarrow> P (snd (m s))"
  unfolding valid_def by (cases "m s") (auto split: prod.splits sum.splits)

lemma keepsI: "(\<And>s. P s \<Longrightarrow> P (snd (m s))) \<Longrightarrow> keeps P m"
  by (rule validI) (metis snd_conv)+

lemma valid_weaken:
  "valid P m Q E \<Longrightarrow> (\<And>s. P' s \<Longrightarrow> P s) \<Longrightarrow> (\<And>x s. Q x s \<Longrightarrow> Q' x s) \<Longrightarrow> (\<And>s. E s \<Longrightarrow> E' s) \<Longrightarrow> valid P' m Q' E'"
  unfolding valid_def by (fastforce split: prod.splits sum.splits)

lemma valid_pre: "valid P m Q E \<Longrightarrow> (\<And>s. P' s \<Longrightarrow> P s) \<Longrightarrow> valid P' m Q E"
  by (rule valid_weaken)

lemma valid_return: "valid (Q x) (py_return x) Q E"
  by (simp add: valid_def py_simps)

lemma valid_raise: "valid E (py_raise e) Q E"
  by (simp add: valid_def py_simps)

lemma valid_get: "valid (\<lambda>s. Q (f s) s) (py_get f) Q E"
  by (simp add: valid_def py_simps)

lemma valid_modify: "valid (\<lambda>s. Q () (f s)) (py_modify f) Q E"
  by (simp add: valid_def py_simps)

lemma valid_lift: "valid (\<lambda>s. (\<forall>x. r = Inr x \<longrightarrow> Q x s) \<and> E s) (py_lift r) Q E"
  by (simp add: valid_def py_simps split: sum.split)

lemma valid_check: "valid (\<lambda>s. (b \<longrightarrow> Q () s) \<and> E s) (py_check b e) Q E"
  by (simp add: valid_def py_simps)

lemma valid_bind:
  "valid P m R E \<Longrightarrow> (\<And>x. valid (R x) (f x) Q E) \<Longrightarrow> valid P (py_bind m f) Q E"
  unfolding valid_def by (fastforce simp: py_simps split: prod.splits sum.splits)

lemma valid_seq: "valid P m (\<lambda>_. R) E \<Longrightarrow> valid R n Q E \<Longrightarrow> valid P (py_seq m n) Q E"
  unfolding py_seq_def by (rule valid_bind)

lemma valid_when: "valid P m (\<lambda>_. Q) E \<Longrightarrow> (\<And>s. P s \<Longrightarrow> \<not> b \<Longrightarrow> Q s) \<Longrightarrow> valid P (py_when b m) (\<lambda>_. Q) E"
  by (auto simp: valid_def py_simps)

lemma valid_except:
  "valid P m Q E' \<Longrightarrow> valid E' h Q E \<Longrightarrow> (\<And>s. E' s \<Longrightarrow> E s) \<Longrightarrow> valid P (py_except m c h) Q E"
  unfolding valid_def by (fastforce simp: py_simps split: prod.splits sum.splits if_splits)

lemma keeps_return [valid_rules]: "keeps P (py_return x)"
  and keeps_raise [valid_rules]: "keeps P (py_raise e)"
  and keeps_get [valid_rules]: "keeps P (py_get f)"
  and keeps_lift [valid_rules]: "keeps P (py_lift r)"
  and keeps_check [valid_rules]: "keeps P (py_check b e)"
  by (simp_all add: valid_def py_simps split: sum.split)

lemma keeps_modify [valid_rules]: "(\<And>s. P s \<Longrightarrow> P (f s)) \<Longrightarrow> keeps P (py_modify f)"
  by (simp add: valid_def py_simps)

lemma keeps_bind [valid_rules]: "keeps P m \<Longrightarrow> (\<And>x. keeps P (f x)) \<Longrightarrow> keeps P (py_bind m f)"
  by (rule valid_bind)

lemma keeps_seq [valid_rules]: "keeps P m \<Longrightarrow> keeps P n \<Longrightarrow> keeps P (py_seq m n)"
  by (rule valid_seq)

lemma keeps_when [valid_rules]: "(b \<Longrightarrow> keeps P m) \<Longrightarrow> keeps P (py_when b m)"
  by (auto simp: valid_def py_simps)

lemma keeps_except [valid_rules]: "keeps P m \<Longrightarrow> keeps P h \<Longrightarrow> keeps P (py_except m c h)"
  by (rule valid_except)

lemma keeps_finally [valid_rules]: "keeps P m \<Longrightarrow> keeps P h \<Longrightarrow> keeps P (py_finally m h)"
proof (rule keepsI)
  fix s assume "keeps P m" "keeps P h" "P s"
  then have "P (snd (h (snd (m s))))" by (blast intro: keeps_snd)
  then show "P (snd (py_finally m h s))" by (auto simp: py_finally_def split: prod.split sum.split)
qed

lemma keeps_if [valid_rules]: "(b \<Longrightarrow> keeps P m) \<Longrightarrow> (\<not> b \<Longrightarrow> keeps P n) \<Longrightarrow> keeps P (if b then m else n)"
  by simp

lemma keeps_for [valid_rules]: "(\<And>x. keeps P (f x)) \<Longrightarrow> keeps P (py_for xs f)"
  by (induction xs) (auto intro: valid_rules)

lemma keeps_case_prod [valid_rules]: "(\<And>a b. keeps P (f a b)) \<Longrightarrow> keeps P (case x of (a, b) \<Rightarrow> f a b)"
  by (simp split: prod.split)

lemma keeps_case_option [valid_rules]:
  "(x = None \<Longrightarrow> keeps P m) \<Longrightarrow> (\<And>a. x = Some a \<Longrightarrow> keeps P (f a)) \<Longrightarrow>
   keeps P (case x of None \<Rightarrow> m | Some a \<Rightarrow> f a)"
  by (simp split: option.split)

lemma valid_case_prod: "(\<And>a b. valid P (f a b) Q E) \<Longrightarrow> valid P (case x of (a, b) \<Rightarrow> f a b) Q E"
  by (simp split: prod.split)

lemma valid_assume: "(B \<Longrightarrow> valid P m Q E) \<Longrightarrow> valid (\<lambda>s. P s \<and> B) m Q E"
  by (auto simp: valid_def)

lemma keeps_conj: "keeps P m \<Longrightarrow> keeps Q m \<Longrightarrow> keeps (\<lambda>s. P s \<and> Q s) m"
  unfolding valid_def by (fastforce split: prod.splits sum.splits)

section \<open>Computations that leave a part of the state alone\<close>

text \<open>\<open>leaves f m\<close>: whatever \<open>m\<close> does, also when it raises, \<open>f\<close> of the state is what it was.\<close>

named_theorems leaves_rules \<open>computations that leave a part of the state alone\<close>

definition leaves :: "('s \<Rightarrow> 'b) \<Rightarrow> ('s, 'a) py \<Rightarrow> bool" where
  "leaves f m \<longleftrightarrow> (\<forall>k. keeps (\<lambda>s. f s = k) m)"

lemma leavesI: "(\<And>s. f (snd (m s)) = f s) \<Longrightarrow> leaves f m"
  unfolding leaves_def by (intro allI keepsI) simp

lemma leavesD: "leaves f m \<Longrightarrow> f (snd (m s)) = f s"
  unfolding leaves_def using keeps_snd [of "\<lambda>t. f t = f s" m s] by blast

lemma leaves_run: "leaves f m \<Longrightarrow> m s = (r, s') \<Longrightarrow> f s' = f s"
  using leavesD [of f m s] by simp

lemma leaves_return [leaves_rules]: "leaves f (py_return x)"
  and leaves_raise [leaves_rules]: "leaves f (py_raise e)"
  and leaves_get [leaves_rules]: "leaves f (py_get g)"
  and leaves_lift [leaves_rules]: "leaves f (py_lift r)"
  and leaves_check [leaves_rules]: "leaves f (py_check b e)"
  by (simp_all add: leaves_def valid_rules)

lemma leaves_modify: "(\<And>s. f (g s) = f s) \<Longrightarrow> leaves f (py_modify g)"
  by (rule leavesI) (simp add: py_simps)

lemma leaves_bind [leaves_rules]: "leaves f m \<Longrightarrow> (\<And>x. leaves f (g x)) \<Longrightarrow> leaves f (py_bind m g)"
  by (auto simp: leaves_def intro: valid_rules)

lemma leaves_seq [leaves_rules]: "leaves f m \<Longrightarrow> leaves f n \<Longrightarrow> leaves f (py_seq m n)"
  by (auto simp: leaves_def intro: valid_rules)

lemma leaves_when [leaves_rules]: "leaves f m \<Longrightarrow> leaves f (py_when b m)"
  by (auto simp: leaves_def intro: valid_rules)

lemma leaves_if [leaves_rules]: "leaves f m \<Longrightarrow> leaves f n \<Longrightarrow> leaves f (if b then m else n)"
  by simp

lemma leaves_except [leaves_rules]: "leaves f m \<Longrightarrow> leaves f n \<Longrightarrow> leaves f (py_except m ca n)"
  by (auto simp: leaves_def intro: valid_rules)

lemma leaves_for [leaves_rules]: "(\<And>y. leaves f (h y)) \<Longrightarrow> leaves f (py_for ys h)"
  by (auto simp: leaves_def intro: valid_rules)

lemma leaves_case_prod [leaves_rules]: "(\<And>a b. leaves f (g a b)) \<Longrightarrow> leaves f (case x of (a, b) \<Rightarrow> g a b)"
  by (simp split: prod.split)

lemma leaves_case_option [leaves_rules]:
  "leaves f m \<Longrightarrow> (\<And>a. leaves f (g a)) \<Longrightarrow> leaves f (case x of None \<Rightarrow> m | Some a \<Rightarrow> g a)"
  by (simp split: option.split)

text \<open>\<open>commutes g m\<close>: \<open>m\<close> neither reads nor writes what \<open>g\<close> replaces in the state.\<close>

named_theorems commutes_rules \<open>computations that do not depend on a part of the state\<close>

definition commutes :: "('s \<Rightarrow> 's) \<Rightarrow> ('s, 'a) py \<Rightarrow> bool" where
  "commutes g m \<longleftrightarrow> (\<forall>s. m (g s) = (fst (m s), g (snd (m s))))"

lemma commutesI: "(\<And>s. m (g s) = (fst (m s), g (snd (m s)))) \<Longrightarrow> commutes g m"
  by (simp add: commutes_def)

lemma commutesD: "commutes g m \<Longrightarrow> m s = (r, s') \<Longrightarrow> m (g s) = (r, g s')"
  by (simp add: commutes_def)

lemma commutes_return [commutes_rules]: "commutes g (py_return x)"
  and commutes_raise [commutes_rules]: "commutes g (py_raise e)"
  and commutes_lift [commutes_rules]: "commutes g (py_lift r)"
  and commutes_check [commutes_rules]: "commutes g (py_check b e)"
  by (simp_all add: commutes_def py_simps)

lemma commutes_get [commutes_rules]: "(\<And>s. f (g s) = f s) \<Longrightarrow> commutes g (py_get f)"
  by (simp add: commutes_def py_simps)

lemma commutes_modify [commutes_rules]: "(\<And>s. f (g s) = g (f s)) \<Longrightarrow> commutes g (py_modify f)"
  by (simp add: commutes_def py_simps)

lemma commutes_bind [commutes_rules]: "commutes g m \<Longrightarrow> (\<And>x. commutes g (f x)) \<Longrightarrow> commutes g (py_bind m f)"
  by (auto simp: commutes_def py_simps split: prod.splits sum.splits)

lemma commutes_seq [commutes_rules]: "commutes g m \<Longrightarrow> commutes g n \<Longrightarrow> commutes g (py_seq m n)"
  unfolding py_seq_def by (rule commutes_bind)

lemma commutes_when [commutes_rules]: "commutes g m \<Longrightarrow> commutes g (py_when b m)"
  by (simp add: commutes_def py_simps)

lemma commutes_if [commutes_rules]: "commutes g m \<Longrightarrow> commutes g n \<Longrightarrow> commutes g (if b then m else n)"
  by simp

lemma commutes_except [commutes_rules]: "commutes g m \<Longrightarrow> commutes g n \<Longrightarrow> commutes g (py_except m ca n)"
  by (simp add: commutes_def py_simps split: prod.splits sum.splits)

lemma commutes_for [commutes_rules]: "(\<And>y. commutes g (h y)) \<Longrightarrow> commutes g (py_for ys h)"
  by (induction ys) (auto intro: commutes_rules)

lemma commutes_case_prod [commutes_rules]: "(\<And>a b. commutes g (f a b)) \<Longrightarrow> commutes g (case x of (a, b) \<Rightarrow> f a b)"
  by (simp split: prod.split)

lemma commutes_case_option [commutes_rules]:
  "commutes g m \<Longrightarrow> (\<And>a. commutes g (f a)) \<Longrightarrow> commutes g (case x of None \<Rightarrow> m | Some a \<Rightarrow> f a)"
  by (simp split: option.split)

end
