(* ===== verification/Codec.thy ===== *)
theory Codec
  imports Prelude
begin

text \<open>
  Python's slices and the fixed-width big-endian formats of its \<open>struct\<close> module that the
  code uses: \<open>"!B"\<close>, \<open>"!H"\<close>, \<open>"!I"\<close> and \<open>"!Q"\<close> (1, 2, 4 and 8 bytes). \<open>struct.pack\<close>
  raises \<open>struct.error\<close> when the value does not fit the format, \<open>struct.unpack\<close> when the
  buffer has not the format's length. The locale states what a user of such a format
  relies on; the formats are its interpretations.
\<close>

section \<open>Slices\<close>

definition slice :: "nat \<Rightarrow> nat \<Rightarrow> 'a list \<Rightarrow> 'a list" where
  "slice a b xs = take (b - a) (drop a xs)"

lemma length_slice [simp]: "length (slice a b xs) = min (b - a) (length xs - a)"
  by (simp add: slice_def)

lemma slice_append:
  "length pre = a \<Longrightarrow> length xs = b - a \<Longrightarrow> slice a b (pre @ xs @ post) = xs"
  by (simp add: slice_def)

lemma take_slice: "a \<le> b \<Longrightarrow> take a xs @ slice a b xs = take b xs"
  by (metis le_add_diff_inverse slice_def take_add)

section \<open>The formats of struct\<close>

fun be_encode :: "nat \<Rightarrow> nat \<Rightarrow> bytes" where
  "be_encode 0 n = []"
| "be_encode (Suc k) n = be_encode k (n div 256) @ [word_of_nat n]"

definition be_decode :: "bytes \<Rightarrow> nat" where
  "be_decode bs = foldl (\<lambda>acc b. acc * 256 + unat b) 0 bs"

definition struct_pack :: "nat \<Rightarrow> int \<Rightarrow> bytes res" where
  "struct_pack k n = (if 0 \<le> n \<and> n < 256 ^ k then Inr (be_encode k (nat n)) else Inl StructError)"

definition struct_unpack :: "nat \<Rightarrow> bytes \<Rightarrow> int res" where
  "struct_unpack k bs = (if length bs = k then Inr (int (be_decode bs)) else Inl StructError)"

abbreviation "pack_B \<equiv> struct_pack 1"
abbreviation "pack_H \<equiv> struct_pack 2"
abbreviation "pack_I \<equiv> struct_pack 4"
abbreviation "pack_Q \<equiv> struct_pack 8"
abbreviation "unpack_B \<equiv> struct_unpack 1"
abbreviation "unpack_H \<equiv> struct_unpack 2"
abbreviation "unpack_I \<equiv> struct_unpack 4"
abbreviation "unpack_Q \<equiv> struct_unpack 8"

lemma length_be_encode [simp]: "length (be_encode k n) = k"
  by (induction k n rule: be_encode.induct) auto

text \<open>The formats unfolded at their widths, for evaluation.\<close>

lemma be_encode_widths:
  "be_encode 1 n = [word_of_nat n]"
  "be_encode (Suc 0) n = [word_of_nat n]"
  "be_encode 2 n = [word_of_nat (n div 256), word_of_nat n]"
  "be_encode 4 n =
     [word_of_nat (n div 256 div 256 div 256), word_of_nat (n div 256 div 256), word_of_nat (n div 256), word_of_nat n]"
  "be_encode 8 n =
     [word_of_nat (n div 256 div 256 div 256 div 256 div 256 div 256 div 256), word_of_nat (n div 256 div 256 div 256 div 256 div 256 div 256), word_of_nat (n div 256 div 256 div 256 div 256 div 256),
      word_of_nat (n div 256 div 256 div 256 div 256), word_of_nat (n div 256 div 256 div 256), word_of_nat (n div 256 div 256), word_of_nat (n div 256), word_of_nat n]"
proof -
  have widths: "(2 :: nat) = Suc (Suc 0)" "(4 :: nat) = Suc (Suc (Suc (Suc 0)))"
    "(8 :: nat) = Suc (Suc (Suc (Suc (Suc (Suc (Suc (Suc 0)))))))"
    by simp_all
  show "be_encode 1 n = [word_of_nat n]" "be_encode (Suc 0) n = [word_of_nat n]"
    by simp_all
  show "be_encode 2 n = [word_of_nat (n div 256), word_of_nat n]"
    and "be_encode 4 n =
     [word_of_nat (n div 256 div 256 div 256), word_of_nat (n div 256 div 256), word_of_nat (n div 256), word_of_nat n]"
    and "be_encode 8 n =
     [word_of_nat (n div 256 div 256 div 256 div 256 div 256 div 256 div 256), word_of_nat (n div 256 div 256 div 256 div 256 div 256 div 256), word_of_nat (n div 256 div 256 div 256 div 256 div 256),
      word_of_nat (n div 256 div 256 div 256 div 256), word_of_nat (n div 256 div 256 div 256), word_of_nat (n div 256 div 256), word_of_nat (n div 256), word_of_nat n]"
    by (simp_all only: widths be_encode.simps append.simps)
qed

lemma be_decode_snoc: "be_decode (bs @ [b]) = be_decode bs * 256 + unat b"
  by (simp add: be_decode_def)

lemma be_decode_encode: "n < 256 ^ k \<Longrightarrow> be_decode (be_encode k n) = n"
proof (induction k n rule: be_encode.induct)
  case (2 k n)
  then have "n div 256 < 256 ^ k" by (simp add: less_mult_imp_div_less mult.commute)
  with 2 show ?case by (simp add: be_decode_snoc unat_of_nat)
qed (simp add: be_decode_def)

lemma unat_byte: "unat (b :: byte) < 256"
  using unsigned_less [of b] by simp

lemma be_decode_bound: "be_decode bs < 256 ^ length bs"
proof (induction bs rule: rev_induct)
  case (snoc b bs)
  have "unat b < 256" by (rule unat_byte)
  with snoc show ?case by (simp add: be_decode_snoc)
qed (simp add: be_decode_def)

lemma be_encode_decode: "be_encode (length bs) (be_decode bs) = bs"
proof (induction bs rule: rev_induct)
  case (snoc b bs)
  have "unat b < 256" by (rule unat_byte)
  then have "(be_decode bs * 256 + unat b) div 256 = be_decode bs" by simp
  moreover have "word_of_nat (be_decode bs * 256 + unat b) = b"
  proof -
    have "(256 :: byte) = 0" by simp
    then have "word_of_nat (be_decode bs) * (256 :: byte) = 0" by (simp only: mult_zero_right)
    then show ?thesis by simp
  qed
  ultimately show ?case using snoc by (simp add: be_decode_snoc)
qed (simp add: be_decode_def)

section \<open>The interface of a fixed-width format\<close>

locale codec =
  fixes enc :: "'a \<Rightarrow> bytes res"
    and dec :: "bytes \<Rightarrow> 'a res"
    and width :: nat
  assumes enc_width: "enc x = Inr bs \<Longrightarrow> length bs = width"
    and dec_enc: "enc x = Inr bs \<Longrightarrow> dec bs = Inr x"
    and dec_total: "length bs = width \<Longrightarrow> \<exists>x. dec bs = Inr x \<and> enc x = Inr bs"
begin

lemma enc_inj: "enc x = Inr bs \<Longrightarrow> enc y = Inr bs \<Longrightarrow> x = y"
  by (metis dec_enc Inr_inject)

lemma enc_of_dec: "length bs = width \<Longrightarrow> dec bs = Inr x \<Longrightarrow> enc x = Inr bs"
  by (metis dec_total Inr_inject)

lemma dec_field:
  "enc x = Inr bs \<Longrightarrow> length pre = a \<Longrightarrow> b = a + width \<Longrightarrow> dec (slice a b (pre @ bs @ post)) = Inr x"
  by (simp add: enc_width slice_append dec_enc)

lemma dec_slice_total:
  "a + width \<le> length buf \<Longrightarrow> b = a + width \<Longrightarrow> \<exists>x. dec (slice a b buf) = Inr x \<and> enc x = Inr (slice a b buf)"
  by (rule dec_total) simp

end

lemma codec_struct: "codec (struct_pack k) (struct_unpack k) k"
proof
  show "length bs = k" if "struct_pack k x = Inr bs" for x bs
    using that by (auto simp: struct_pack_def split: if_splits)
  show "struct_unpack k bs = Inr x" if "struct_pack k x = Inr bs" for x bs
    using that by (auto simp: struct_pack_def struct_unpack_def be_decode_encode nat_less_iff split: if_splits)
  show "\<exists>x. struct_unpack k bs = Inr x \<and> struct_pack k x = Inr bs" if "length bs = k" for bs
  proof -
    have "int (be_decode bs) < 256 ^ k"
      using be_decode_bound [of bs] that by (metis of_nat_less_iff of_nat_power of_nat_numeral)
    with that show ?thesis
      using be_encode_decode [of bs] by (simp add: struct_unpack_def struct_pack_def)
  qed
qed

interpretation fmt_B: codec pack_B unpack_B 1 by (rule codec_struct)
interpretation fmt_H: codec pack_H unpack_H 2 by (rule codec_struct)
interpretation fmt_I: codec pack_I unpack_I 4 by (rule codec_struct)
interpretation fmt_Q: codec pack_Q unpack_Q 8 by (rule codec_struct)

lemma struct_pack_Inr_iff: "(\<exists>bs. struct_pack k n = Inr bs) \<longleftrightarrow> 0 \<le> n \<and> n < 256 ^ k"
  by (simp add: struct_pack_def)

lemma struct_pack_of_length: "n < 256 ^ k \<Longrightarrow> struct_pack k (int n) = Inr (be_encode k n)"
  by (simp add: struct_pack_def)

end
