(* ===== verification/Varint.thy ===== *)
theory Varint
  imports Codec
begin

text \<open>
  The variable-length integers of MQTT's fixed header, \<open>mqtt_encode_varint\<close> and
  \<open>mqtt_decode_varint\<close> of \<open>sidewire/mqtt/utils.py\<close>: seven bits per byte, least
  significant group first, the top bit set on every byte but the last. The encoder's loop
  has no bound; the decoder reads at most four bytes. The encoder is only ever given the
  length of a buffer, so its argument is a natural number.
\<close>

fun mqtt_encode_varint :: "nat \<Rightarrow> bytes" where
  "mqtt_encode_varint value =
     (let byte = value mod 128;
          value' = value div 128;
          byte' = (if value' > 0 then byte OR 0x80 else byte)
      in if value' = 0 then [word_of_nat byte'] else word_of_nat byte' # mqtt_encode_varint value')"

declare mqtt_encode_varint.simps [simp del]

text \<open>The loop \<open>for i in range(4)\<close> of the decoder, with its three local variables.\<close>

function dv_loop :: "bytes \<Rightarrow> nat \<Rightarrow> nat \<Rightarrow> nat \<Rightarrow> nat \<Rightarrow> nat \<Rightarrow> (nat \<times> nat) res" where
  "dv_loop buf offset i multiplier value consumed =
     (if i < 4 then
        if offset + i \<ge> length buf then Inl (ValueError ''buffer too short'')
        else
          let byte = unat (buf ! (offset + i));
              consumed' = consumed + 1;
              value' = value + (byte AND 0x7F) * multiplier
          in if byte AND 0x80 = 0 then Inr (value', consumed')
             else dv_loop buf offset (i + 1) (multiplier * 128) value' consumed'
      else Inl (ValueError ''malformed varint''))"
  by pat_completeness auto
termination
  by (relation "measure (\<lambda>(_, _, i, _, _, _). 4 - i)") auto

declare dv_loop.simps [simp del]

definition mqtt_decode_varint :: "bytes \<Rightarrow> nat \<Rightarrow> (nat \<times> nat) res" where
  "mqtt_decode_varint buf offset = dv_loop buf offset 0 1 0 0"

section \<open>Bits of a byte\<close>

lemma and_7F: "(b :: nat) AND 0x7F = b mod 128"
proof -
  have "mask 7 = (0x7F :: nat)" by (simp add: mask_eq_exp_minus_1)
  then have "b AND 0x7F = take_bit 7 b" by (simp only: take_bit_eq_mask)
  then show ?thesis by (simp add: take_bit_eq_mod)
qed

lemma and_80:
  assumes "(b :: nat) < 256"
  shows "b AND 0x80 = 0 \<longleftrightarrow> b < 128"
proof -
  have exp: "(2 :: nat) ^ 7 = 0x80" by simp
  have "b AND 0x80 = 0 \<longleftrightarrow> even (b div 0x80)"
    using and_exp_eq_0_iff_not_bit [of b 7] unfolding bit_iff_odd exp by (simp only: not_not)
  moreover have "b div 128 < 2" using assms by (simp add: div_less_iff_less_mult)
  then have "even (b div 128) \<longleftrightarrow> b div 128 = 0" by (cases "b div 128 = 1") auto
  ultimately show ?thesis by (simp add: div_eq_0_iff)
qed

lemma or_80: "(b :: nat) < 128 \<Longrightarrow> b OR 0x80 = b + 128"
  using and_80 [of b] disjunctive_add_eq_or [of b 128, symmetric] by linarith

section \<open>The encoder\<close>

lemma encode_small: "n < 128 \<Longrightarrow> mqtt_encode_varint n = [word_of_nat n]"
  by (subst mqtt_encode_varint.simps) (simp add: Let_def)

lemma encode_large:
  "128 \<le> n \<Longrightarrow> mqtt_encode_varint n = word_of_nat (n mod 128 + 128) # mqtt_encode_varint (n div 128)"
  by (subst mqtt_encode_varint.simps) (simp add: Let_def or_80 div_eq_0_iff)

lemma encode_nonempty [simp]: "mqtt_encode_varint n \<noteq> []"
  by (cases "n < 128") (simp_all add: encode_small encode_large)

text \<open>An encoding has \<open>k + 1\<close> bytes exactly for the values with \<open>k + 1\<close> groups of seven bits.\<close>

lemma encode_length: "length (mqtt_encode_varint n) \<le> k \<longleftrightarrow> n < 128 ^ k \<and> k \<noteq> 0"
proof (induction n arbitrary: k rule: less_induct)
  case (less n)
  show ?case
  proof (cases "n < 128")
    case True
    then have "k \<noteq> 0 \<Longrightarrow> n < 128 ^ k"
      by (meson less_le_trans self_le_power one_le_numeral bot_nat_0.not_eq_extremum order_trans)
    with True show ?thesis by (cases k) (auto simp: encode_small)
  next
    case False
    then have dec: "n div 128 < n" by simp
    show ?thesis
    proof (cases k)
      case (Suc j)
      have "n < 128 ^ Suc j \<longleftrightarrow> n div 128 < 128 ^ j"
        by (simp add: div_less_iff_less_mult mult.commute)
      with False Suc less.IH [OF dec, of j] show ?thesis
        by (cases j) (auto simp: encode_large)
    qed simp
  qed
qed

section \<open>The decoder\<close>

lemma dv_loop_step:
  assumes "i < 4" and "drop (offset + i) buf = b # bs"
  shows "dv_loop buf offset i m v c =
    (if unat b < 128 then Inr (v + unat b * m, c + 1)
     else dv_loop buf offset (i + 1) (m * 128) (v + (unat b mod 128) * m) (c + 1))"
proof -
  have len: "offset + i < length buf" and nth: "buf ! (offset + i) = b"
    using assms(2) by (metis drop_all list.distinct(1) not_le, metis assms(2) nth_via_drop)
  show ?thesis
    using assms(1) len nth
    by (subst dv_loop.simps) (simp add: Let_def and_7F and_80 unat_byte)
qed

lemma digits_mult: "n = r + q * 128 \<Longrightarrow> v + r * m + q * (m * 128) = v + n * (m :: nat)"
  by (simp add: algebra_simps)

lemma dv_loop_encode:
  "n < 128 ^ (4 - i) \<Longrightarrow> i < 4 \<Longrightarrow> drop (offset + i) buf = mqtt_encode_varint n @ rest \<Longrightarrow>
   dv_loop buf offset i m v c = Inr (v + n * m, c + length (mqtt_encode_varint n))"
proof (induction n arbitrary: i m v c rule: less_induct)
  case (less n)
  show ?case
  proof (cases "n < 128")
    case True
    with less.prems show ?thesis
      by (simp add: encode_small dv_loop_step [where bs = rest] unat_of_nat)
  next
    case False
    have enc: "mqtt_encode_varint n = word_of_nat (n mod 128 + 128) # mqtt_encode_varint (n div 128)"
      using False by (simp add: encode_large)
    have u: "unat (word_of_nat (n mod 128 + 128) :: byte) = n mod 128 + 128"
      by (simp only: unat_of_nat) (simp add: take_bit_eq_mod)
    have i: "i < 3"
    proof (rule ccontr)
      assume "\<not> i < 3"
      with less.prems(2) have "4 - i = 1" by simp
      with less.prems(1) False show False by simp
    qed
    have small: "n div 128 < 128 ^ (4 - (i + 1))"
    proof -
      have "4 - i = Suc (4 - (i + 1))" using i by simp
      with less.prems(1) show ?thesis by (simp add: div_less_iff_less_mult mult.commute)
    qed
    have rest: "drop (offset + (i + 1)) buf = mqtt_encode_varint (n div 128) @ rest"
    proof -
      have "drop (offset + (i + 1)) buf = drop 1 (drop (offset + i) buf)"
        by (simp add: add.commute add.left_commute)
      then show ?thesis by (simp only: less.prems(3) enc) simp
    qed
    have "dv_loop buf offset i m v c =
      dv_loop buf offset (i + 1) (m * 128) (v + (n mod 128) * m) (c + 1)"
      using less.prems enc u by (simp add: dv_loop_step)
    also have "\<dots> = Inr (v + (n mod 128) * m + n div 128 * (m * 128), c + 1 + length (mqtt_encode_varint (n div 128)))"
      using less.IH [OF _ small _ rest] False i by simp
    also have "v + (n mod 128) * m + n div 128 * (m * 128) = v + n * m"
      by (rule digits_mult) simp
    finally show ?thesis using enc by simp
  qed
qed

text \<open>
  The reference: the bytes at the offset with the top bit set are continuations; the value
  is the sum of the seven-bit groups up to the first byte without it.
\<close>

definition continuations :: "bytes \<Rightarrow> nat" where
  "continuations bs = length (takeWhile (\<lambda>b. 128 \<le> unat b) bs)"

fun groups_value :: "bytes \<Rightarrow> nat" where
  "groups_value [] = 0"
| "groups_value (b # bs) = unat b mod 128 + 128 * groups_value bs"

definition varint_spec :: "bytes \<Rightarrow> (nat \<times> nat) res" where
  "varint_spec bs =
     (let k = continuations bs in
      if 4 \<le> k then Inl (ValueError ''malformed varint'')
      else if length bs \<le> k then Inl (ValueError ''buffer too short'')
      else Inr (groups_value (take (k + 1) bs), k + 1))"

lemma continuations_simps [simp]:
  "continuations [] = 0"
  "continuations (b # bs) = (if 128 \<le> unat b then Suc (continuations bs) else 0)"
  by (simp_all add: continuations_def)

lemma continuations_append:
  "continuations (bs @ cs) =
    (if continuations bs < length bs then continuations bs else length bs + continuations cs)"
  by (induction bs) auto

lemma continuations_le: "continuations bs \<le> length bs"
  by (simp add: continuations_def length_takeWhile_le)

lemma dv_loop_spec:
  "i \<le> 4 \<Longrightarrow> drop (offset + i) buf = bs \<Longrightarrow>
   dv_loop buf offset i m v c =
    (let k = continuations bs in
     if 4 \<le> i + k then Inl (ValueError ''malformed varint'')
     else if length bs \<le> k then Inl (ValueError ''buffer too short'')
     else Inr (v + m * groups_value (take (k + 1) bs), c + k + 1))"
proof (induction bs arbitrary: i m v c)
  case Nil
  then show ?case by (subst dv_loop.simps) (auto simp: Let_def)
next
  case (Cons b bs)
  show ?case
  proof (cases "i < 4")
    case True
    have bs: "drop (offset + (i + 1)) buf = bs"
      using Cons.prems(2) by (metis add.assoc add.commute drop_drop drop_Suc_Cons drop0 One_nat_def)
    show ?thesis
      using True Cons.IH [OF _ bs]
      by (auto simp: dv_loop_step [OF True Cons.prems(2)] Let_def algebra_simps)
  next
    case False
    with Cons.prems(1) show ?thesis by (subst dv_loop.simps) (simp add: Let_def)
  qed
qed

lemma decode_varint_spec: "mqtt_decode_varint buf offset = varint_spec (drop offset buf)"
  using dv_loop_spec [of 0 offset buf "drop offset buf" 1 0 0]
  by (simp add: mqtt_decode_varint_def varint_spec_def Let_def)

lemma varint_spec_Inr_append: "varint_spec bs = Inr r \<Longrightarrow> varint_spec (bs @ cs) = Inr r"
  by (auto simp: varint_spec_def Let_def continuations_append split: if_splits)

lemma varint_spec_malformed_append:
  "varint_spec bs = Inl (ValueError ''malformed varint'') \<Longrightarrow>
   varint_spec (bs @ cs) = Inl (ValueError ''malformed varint'')"
  using continuations_le [of bs] by (auto simp: varint_spec_def Let_def continuations_append split: if_splits)

lemma decode_Inr_append:
  "offset \<le> length buf \<Longrightarrow> mqtt_decode_varint buf offset = Inr r \<Longrightarrow>
   mqtt_decode_varint (buf @ more) offset = Inr r"
  by (simp add: decode_varint_spec varint_spec_Inr_append)

lemma decode_malformed_append:
  "offset \<le> length buf \<Longrightarrow> mqtt_decode_varint buf offset = Inl (ValueError ''malformed varint'') \<Longrightarrow>
   mqtt_decode_varint (buf @ more) offset = Inl (ValueError ''malformed varint'')"
  by (simp add: decode_varint_spec varint_spec_malformed_append)

lemma varint_spec_consumed: "varint_spec bs = Inr (v, c) \<Longrightarrow> 1 \<le> c \<and> c \<le> 4 \<and> c \<le> length bs"
  by (auto simp: varint_spec_def Let_def split: if_splits)

lemma decode_consumed:
  "mqtt_decode_varint buf offset = Inr (v, c) \<Longrightarrow> 1 \<le> c \<and> c \<le> 4 \<and> offset + c \<le> length buf"
  using varint_spec_consumed [of "drop offset buf" v c] by (auto simp: decode_varint_spec)

lemma decode_encode:
  "n < 128 ^ 4 \<Longrightarrow> offset \<le> length buf \<Longrightarrow> drop offset buf = mqtt_encode_varint n @ rest \<Longrightarrow>
   mqtt_decode_varint buf offset = Inr (n, length (mqtt_encode_varint n))"
  using dv_loop_encode [of n 0 offset buf rest 1 0 0] by (simp add: mqtt_decode_varint_def)

lemma encode_continuations:
  "continuations (mqtt_encode_varint n @ rest) = length (mqtt_encode_varint n) - 1"
proof (induction n rule: less_induct)
  case (less n)
  show ?case
  proof (cases "n < 128")
    case True
    then show ?thesis by (simp add: encode_small unat_of_nat)
  next
    case False
    have "unat (word_of_nat (n mod 128 + 128) :: byte) = n mod 128 + 128"
      by (simp only: unat_of_nat) (simp add: take_bit_eq_mod)
    moreover have "length (mqtt_encode_varint (n div 128)) \<noteq> 0" by simp
    ultimately show ?thesis
      using False less.IH [of "n div 128"] by (simp add: encode_large)
  qed
qed

section \<open>Properties\<close>

text \<open>
  round trip. Every length that fits four groups of seven bits is read back by the
  decoder at the place it was written, whatever surrounds it, and the decoder consumes
  exactly the bytes the encoder wrote.
\<close>

theorem varint_roundtrip:
  assumes "n < 128 ^ 4"
  shows "mqtt_decode_varint (pre @ mqtt_encode_varint n @ rest) (length pre) =
    Inr (n, length (mqtt_encode_varint n))"
  by (rule decode_encode [OF assms]) simp_all

theorem varint_roundtrip_witness:
  "(300 :: nat) < 128 ^ 4 \<and> mqtt_decode_varint ([7] @ mqtt_encode_varint 300 @ [9]) (length [7 :: byte]) =
     Inr (300, length (mqtt_encode_varint 300))"
  using varint_roundtrip [of 300 "[7]" "[9]"] by simp

text \<open>
  C39: the decoder computes the reference on every buffer and offset: the sum of the
  seven-bit groups up to the first byte without a continuation bit, the error "buffer too
  short" when the buffer ends before that byte, the error "malformed varint" when four
  bytes in a row ask for a continuation.
\<close>

theorem varint_decode_reference: "mqtt_decode_varint buf offset = varint_spec (drop offset buf)"
  by (rule decode_varint_spec)

text \<open>
  the four-byte limit. The encoder does not enforce it: a length of \<open>128 ^ 4\<close> or more is
  encoded in at least five bytes, which the decoder refuses as malformed.
\<close>

theorem varint_over_limit:
  assumes "128 ^ 4 \<le> n"
  shows "5 \<le> length (mqtt_encode_varint n) \<and>
    mqtt_decode_varint (mqtt_encode_varint n @ rest) 0 = Inl (ValueError ''malformed varint'')"
proof -
  have "5 \<le> length (mqtt_encode_varint n)"
    using encode_length [of n 4] assms by simp
  then show ?thesis
    by (simp add: decode_varint_spec varint_spec_def encode_continuations Let_def)
qed

theorem varint_over_limit_witness:
  "(128 :: nat) ^ 4 \<le> 268435456 \<and> 5 \<le> length (mqtt_encode_varint 268435456) \<and>
   mqtt_decode_varint (mqtt_encode_varint 268435456 @ []) 0 = Inl (ValueError ''malformed varint'')"
  using varint_over_limit [of 268435456 "[]"] by simp

end
