(* ===== verification/External.thy ===== *)
theory External
  imports Codec
begin

text \<open>
  The code outside the repository, as one record of functions that every definition using
  it takes as its first argument \<open>L\<close>: the conversions, the ECDSA helpers and the random
  source of aionetiface, the ecdsa package, the clock handed in by the application, and
  the outcomes of the environment's actions (connecting, sending, receiving and closing on a
  pipe, calls of an application's handler). Nothing is assumed of them here; a lemma that needs a law of one of them
  states it as a hypothesis.
\<close>

text \<open>The time limit of \<open>MQTTClient.connect\<close>, the longer one of \<open>try_client\<close> around it, or the caller of both.\<close>

datatype canceller = Connect_Limit | Try_Limit | Caller

record lib =
  to_b :: "pyval \<Rightarrow> bytes res"          \<comment> \<open>\<open>str\<close> or \<open>bytes\<close> to bytes\<close>
  to_s :: "bytes \<Rightarrow> string res"         \<comment> \<open>bytes to \<open>str\<close>; may raise on undecodable bytes\<close>
  to_h :: "bytes \<Rightarrow> string"             \<comment> \<open>bytes to hex\<close>
  h_to_b :: "string \<Rightarrow> bytes res"       \<comment> \<open>hex to bytes; raises on a string that is not hex\<close>
  is_ascii :: "string \<Rightarrow> bool"
  sha256_hexdigest :: "bytes \<Rightarrow> string" \<comment> \<open>\<open>hashlib.sha256(b).hexdigest()\<close>\<close>
  sha256_hex_async :: "bytes \<Rightarrow> string"
  sign :: "nat \<Rightarrow> bytes \<Rightarrow> bytes \<Rightarrow> bytes res"  \<comment> \<open>random draw, private key, message: the signature string\<close>
  ecdsa_sign_async :: "nat \<Rightarrow> bytes \<Rightarrow> bytes \<Rightarrow> bytes res"
  vk_from_string :: "bytes \<Rightarrow> bytes res" \<comment> \<open>\<open>VerifyingKey.from_string\<close>: the key or an exception\<close>
  verify :: "bytes \<Rightarrow> bytes \<Rightarrow> bytes \<Rightarrow> unit res" \<comment> \<open>key, signature, message\<close>
  ecdsa_verify_async :: "bytes \<Rightarrow> bytes \<Rightarrow> bytes \<Rightarrow> unit res"
  rand_b :: "nat \<Rightarrow> nat \<Rightarrow> bytes"        \<comment> \<open>the \<open>i\<close>-th draw, of \<open>n\<close> bytes\<close>
  rand_plain :: "nat \<Rightarrow> nat \<Rightarrow> string"   \<comment> \<open>the \<open>i\<close>-th draw, of \<open>n\<close> characters\<close>
  uniform :: "nat \<Rightarrow> real \<Rightarrow> real \<Rightarrow> real"  \<comment> \<open>the \<open>i\<close>-th draw, between two bounds\<close>
  clock :: "nat \<Rightarrow> real"                 \<comment> \<open>the \<open>i\<close>-th reading of \<open>get_time()\<close>\<close>
  pipe_send_exn :: "nat \<Rightarrow> exn option"   \<comment> \<open>what the \<open>i\<close>-th action on the outside raises, if anything\<close>
  handler_exn :: "nat \<Rightarrow> exn option"
  af_supported :: "int \<Rightarrow> bool"          \<comment> \<open>the address families of the network interface\<close>
  tcp_connect :: "nat \<Rightarrow> bool res"       \<comment> \<open>the \<open>i\<close>-th attempt: a pipe, no pipe, or an exception\<close>
  recv_n :: "nat \<Rightarrow> nat \<Rightarrow> bytes res"    \<comment> \<open>first bytes received on the \<open>i\<close>-th pipe, or a timeout\<close>
  arrivals :: "nat \<Rightarrow> bytes list"       \<comment> \<open>chunks that arrive during the wait after the \<open>i\<close>-th action\<close>
  pipe_close_exn :: "nat \<Rightarrow> exn option"
  swallows :: "exn \<Rightarrow> bool"              \<comment> \<open>the exceptions \<open>async_wrap_errors\<close> catches and logs\<close>
  cancelled_by :: canceller             \<comment> \<open>who cancels a task that a wait answers with \<open>CancelledError\<close>\<close>
  cut_off :: "nat \<Rightarrow> bool"              \<comment> \<open>whether the dispatcher, cancelled after the \<open>i\<close>-th action, waits for its subscription\<close>

text \<open>
  Documented behaviour of the external code, as predicates a theorem may take as a hypothesis:
  decoding inverts encoding of a string, and the empty string is no bytes; hex conversions are inverse and hex has two digits
  a byte; a signature made with a private key verifies under the public key that belongs to
  it and has 64 bytes; the helpers that run on the thread pool compute what the synchronous
  calls compute.
\<close>

definition text_codec :: "lib \<Rightarrow> bool" where
  "text_codec L \<longleftrightarrow> to_b L (PyStr []) = Inr [] \<and>
     (\<forall>s b. to_b L (PyStr s) = Inr b \<longrightarrow> to_s L b = Inr s)"

definition hex_codec :: "lib \<Rightarrow> bool" where
  "hex_codec L \<longleftrightarrow> (\<forall>b. h_to_b L (to_h L b) = Inr b \<and> length (to_h L b) = 2 * length b)"

definition key_pair :: "lib \<Rightarrow> bytes \<Rightarrow> bytes \<Rightarrow> bool" where
  "key_pair L sk pk \<longleftrightarrow> length pk = 33 \<and>
     (\<exists>vk. vk_from_string L pk = Inr vk \<and>
        (\<forall>n m. \<exists>sig. sign L n sk m = Inr sig \<and> length sig = 64 \<and> verify L vk sig m = Inr ()))"

definition pool_same :: "lib \<Rightarrow> bool" where
  "pool_same L \<longleftrightarrow> ecdsa_sign_async L = sign L \<and> ecdsa_verify_async L = verify L"

text \<open>
  A concrete library on which the examples of the development run: \<open>str\<close> is encoded one
  byte a character, hex is the usual one, the hash is the hex text itself, a signature is a
  64-byte checksum of key and message, the clock ticks once a reading, nothing fails.
\<close>

definition hex_digit :: "nat \<Rightarrow> char" where
  "hex_digit n = ''0123456789abcdef'' ! (n mod 16)"

fun hex_of :: "bytes \<Rightarrow> string" where
  "hex_of [] = []"
| "hex_of (b # bs) = hex_digit (unat b div 16) # hex_digit (unat b mod 16) # hex_of bs"

fun digit_of :: "char \<Rightarrow> nat option" where
  "digit_of c = (let n = of_char c :: nat in
     if 48 \<le> n \<and> n < 58 then Some (n - 48) else if 97 \<le> n \<and> n < 103 then Some (n - 87) else None)"

fun hex_to_bytes :: "string \<Rightarrow> bytes res" where
  "hex_to_bytes [] = Inr []"
| "hex_to_bytes [c] = Inl (ValueError ''hex'')"
| "hex_to_bytes (c # d # cs) = (case (digit_of c, digit_of d) of
     (Some m, Some n) \<Rightarrow> res_bind (hex_to_bytes cs) (\<lambda>bs. Inr (word_of_nat (16 * m + n) # bs))
   | _ \<Rightarrow> Inl (ValueError ''hex''))"

definition demo_tag :: "bytes \<Rightarrow> bytes \<Rightarrow> bytes" where
  "demo_tag k m = replicate 63 (sum_list k) @ [sum_list m]"

definition demo_verify :: "bytes \<Rightarrow> bytes \<Rightarrow> bytes \<Rightarrow> unit res" where
  "demo_verify k t m = (if t = demo_tag k m then Inr () else Inl BadSignatureError)"

definition demo_lib :: lib where
  "demo_lib = \<lparr>
     to_b = (\<lambda>v. case v of PyNone \<Rightarrow> Inl TypeError | PyBytes b \<Rightarrow> Inr b | PyStr s \<Rightarrow> Inr (map of_char s)),
     to_s = (\<lambda>b. Inr (map (\<lambda>x. char_of (unat x)) b)),
     to_h = hex_of, h_to_b = hex_to_bytes,
     is_ascii = (\<lambda>s. list_all (\<lambda>c. (of_char c :: nat) < 128) s),
     sha256_hexdigest = hex_of, sha256_hex_async = hex_of,
     sign = (\<lambda>n k m. Inr (demo_tag k m)), ecdsa_sign_async = (\<lambda>n k m. Inr (demo_tag k m)),
     vk_from_string = (\<lambda>k. Inr k), verify = demo_verify, ecdsa_verify_async = demo_verify,
     rand_b = (\<lambda>i n. replicate n (word_of_nat i)), rand_plain = (\<lambda>i n. replicate n (CHR ''x'')),
     uniform = (\<lambda>i a b. a), clock = (\<lambda>i. real i),
     pipe_send_exn = (\<lambda>_. None), handler_exn = (\<lambda>_. None), af_supported = (\<lambda>_. True),
     tcp_connect = (\<lambda>_. Inr True), recv_n = (\<lambda>i n. Inr [0x20, 2, 0, 0]),
     arrivals = (\<lambda>_. [[0x90, 3, 0, 1, 1]]), pipe_close_exn = (\<lambda>_. None), swallows = (\<lambda>_. True),
     cancelled_by = Connect_Limit, cut_off = (\<lambda>_. False)\<rparr>"

lemma demo_sel [simp]:
  "to_b demo_lib (PyStr s) = Inr (map of_char s)" "to_b demo_lib (PyBytes b) = Inr b"
  "to_s demo_lib b = Inr (map (\<lambda>x. char_of (unat x)) b)"
  "to_h demo_lib = hex_of" "h_to_b demo_lib = hex_to_bytes"
  "is_ascii demo_lib s = list_all (\<lambda>c. (of_char c :: nat) < 128) s"
  "sha256_hexdigest demo_lib = hex_of" "sha256_hex_async demo_lib = hex_of"
  "sign demo_lib n k m = Inr (demo_tag k m)" "ecdsa_sign_async demo_lib n k m = Inr (demo_tag k m)"
  "vk_from_string demo_lib k = Inr k" "verify demo_lib = demo_verify"
  "ecdsa_verify_async demo_lib = demo_verify" "rand_b demo_lib i n = replicate n (word_of_nat i)"
  "clock demo_lib i = real i" "pipe_send_exn demo_lib i = None" "handler_exn demo_lib i = None"
  "rand_plain demo_lib i n = replicate n (CHR ''x'')" "uniform demo_lib i x y = x"
  "af_supported demo_lib a" "tcp_connect demo_lib i = Inr True" "recv_n demo_lib i n = Inr [0x20, 2, 0, 0]"
  "arrivals demo_lib i = [[0x90, 3, 0, 1, 1]]" "pipe_close_exn demo_lib i = None"
  "swallows demo_lib e" "cancelled_by demo_lib = Connect_Limit" "\<not> cut_off demo_lib i"
  by (simp_all add: demo_lib_def)

text \<open>The laws hold of the concrete library.\<close>

lemma hex_digits_inverse: "\<forall>n \<in> {0..<16}. digit_of (hex_digit n) = Some n"
  by code_simp

lemma demo_hex: "hex_to_bytes (hex_of b) = Inr b"
proof (induction b)
  case (Cons x b)
  have "unat x div 16 < 16" and "unat x mod 16 < 16"
    using unat_byte [of x] by (simp_all add: div_less_iff_less_mult)
  then have "digit_of (hex_digit (unat x div 16)) = Some (unat x div 16)"
    and "digit_of (hex_digit (unat x mod 16)) = Some (unat x mod 16)"
    using hex_digits_inverse by auto
  moreover have "word_of_nat (16 * (unat x div 16) + unat x mod 16) = x" by simp
  ultimately show ?case using Cons by simp
qed simp

lemma length_hex_of [simp]: "length (hex_of b) = 2 * length b"
  by (induction b) auto

lemma demo_hex_codec: "hex_codec demo_lib"
  by (simp add: hex_codec_def demo_lib_def demo_hex)

lemma demo_text_codec: "text_codec demo_lib"
proof -
  have "unat (of_char c :: byte) = of_char c" for c
  proof -
    have "(of_char c :: byte) = word_of_nat (of_char c)" by (simp add: of_nat_of_char)
    then show ?thesis
      using nat_of_char_less_256 [of c] by (simp only: unat_of_nat) (simp add: take_bit_nat_eq_self)
  qed
  then show ?thesis by (auto simp: text_codec_def demo_lib_def map_idI)
qed

lemma demo_key_pair: "length k = 33 \<Longrightarrow> key_pair demo_lib k k"
  by (simp add: key_pair_def demo_lib_def demo_tag_def demo_verify_def)

lemma demo_pool_same: "pool_same demo_lib"
  by (simp add: pool_same_def demo_lib_def)

end
