(* ===== verification/Mqtt_Packet.thy ===== *)
theory Mqtt_Packet
  imports Varint External
begin

text \<open>
  The MQTT control packets: the enumerations of \<open>mqtt_defs.py\<close>, the packet class, its
  serialisation and the two parsers of \<open>mqtt_packet.py\<close>, and the message builders of
  \<open>mqtt_msgs.py\<close>.
\<close>

section \<open>Enumerations\<close>

datatype msg_enum = MSG | MSGACK | PROBE

fun msg_val :: "msg_enum \<Rightarrow> int" where
  "msg_val MSG = 1"
| "msg_val MSGACK = 2"
| "msg_val PROBE = 3"

datatype mqtt_enum = CONNECT | CONNACK | PUBLISH | PUBACK | PUBREC | PUBREL | PUBCOMP
  | SUBSCRIBE | SUBACK | UNSUBSCRIBE | UNSUBACK | PINGREQ | PINGRESP | DISCONNECT

fun mqtt_val :: "mqtt_enum \<Rightarrow> int" where
  "mqtt_val CONNECT = 1"
| "mqtt_val CONNACK = 2"
| "mqtt_val PUBLISH = 3"
| "mqtt_val PUBACK = 4"
| "mqtt_val PUBREC = 5"
| "mqtt_val PUBREL = 6"
| "mqtt_val PUBCOMP = 7"
| "mqtt_val SUBSCRIBE = 8"
| "mqtt_val SUBACK = 9"
| "mqtt_val UNSUBSCRIBE = 10"
| "mqtt_val UNSUBACK = 11"
| "mqtt_val PINGREQ = 12"
| "mqtt_val PINGRESP = 13"
| "mqtt_val DISCONNECT = 14"

definition all_mqtt_enum :: "mqtt_enum list" where
  "all_mqtt_enum = [CONNECT, CONNACK, PUBLISH, PUBACK, PUBREC, PUBREL, PUBCOMP, SUBSCRIBE,
     SUBACK, UNSUBSCRIBE, UNSUBACK, PINGREQ, PINGRESP, DISCONNECT]"

text \<open>\<open>MQTTEnum(n)\<close> raises \<open>ValueError\<close> for a number that is no member's value.\<close>

definition MQTTEnum :: "int \<Rightarrow> mqtt_enum res" where
  "MQTTEnum n = (case find (\<lambda>t. mqtt_val t = n) all_mqtt_enum of
     Some t \<Rightarrow> Inr t | None \<Rightarrow> Inl (ValueError ''not a valid MQTTEnum''))"

lemma MQTTEnum_val [simp]: "MQTTEnum (mqtt_val t) = Inr t"
  by (cases t) (simp_all add: MQTTEnum_def all_mqtt_enum_def)

lemma mqtt_val_range: "1 \<le> mqtt_val t \<and> mqtt_val t \<le> 14"
  by (cases t) simp_all

section \<open>Packets\<close>

record mqtt_packet =
  p_type :: mqtt_enum
  p_flags :: int
  p_variable_header :: bytes
  p_payload :: bytes
  p_body :: bytes

definition MQTTPacket :: "int \<Rightarrow> int \<Rightarrow> mqtt_packet res" where
  "MQTTPacket packet_type flags = res_bind (MQTTEnum packet_type) (\<lambda>t.
     Inr \<lparr>p_type = t, p_flags = flags, p_variable_header = [], p_payload = [], p_body = []\<rparr>)"

definition set_variable_header :: "int + bytes \<Rightarrow> mqtt_packet \<Rightarrow> mqtt_packet res" where
  "set_variable_header data p = (case data of
     Inl n \<Rightarrow> res_bind (pack_H n) (\<lambda>b. Inr (p\<lparr>p_variable_header := b\<rparr>))
   | Inr b \<Rightarrow> Inr (p\<lparr>p_variable_header := b\<rparr>))"

definition set_payload :: "bytes \<Rightarrow> mqtt_packet \<Rightarrow> mqtt_packet" where
  "set_payload data p = p\<lparr>p_payload := data\<rparr>"

definition set_packet_id :: "int \<Rightarrow> mqtt_packet \<Rightarrow> mqtt_packet res" where
  "set_packet_id packet_id p = res_bind (pack_H packet_id) (\<lambda>b. Inr (p\<lparr>p_variable_header := b\<rparr>))"

definition mqtt_build_header :: "nat \<Rightarrow> mqtt_enum \<Rightarrow> int \<Rightarrow> bytes" where
  "mqtt_build_header remaining_length packet_type flags =
     (let packet_type_part = push_bit 4 (mqtt_val packet_type);
          flags_part = flags AND 0x0F;
          first_byte = packet_type_part OR flags_part
      in word_of_int first_byte # mqtt_encode_varint remaining_length)"

definition build :: "mqtt_packet \<Rightarrow> bytes" where
  "build p =
     (let body = p_variable_header p @ p_payload p;
          fixed = mqtt_build_header (length body) (p_type p) (p_flags p)
      in fixed @ body)"

definition mqtt_parse_packet :: "bytes \<Rightarrow> mqtt_packet res" where
  "mqtt_parse_packet raw =
     (if raw = [] then Inl IndexError
      else
        let offset = 1;
            first_byte = uint (raw ! 0);
            packet_type = drop_bit 4 first_byte;
            flags = first_byte AND 0x0F
        in res_bind (mqtt_decode_varint raw offset) (\<lambda>(remaining_length, consumed).
             let offset = offset + consumed;
                 body = slice offset (offset + remaining_length) raw
             in res_bind (MQTTPacket packet_type flags) (\<lambda>pkt. Inr (pkt\<lparr>p_body := body\<rparr>))))"

text \<open>\<open>None\<close> on a malformed body; the topic's decoding may raise.\<close>

definition mqtt_parse_publish :: "lib \<Rightarrow> mqtt_packet \<Rightarrow> (string \<times> bytes \<times> bytes option) option res" where
  "mqtt_parse_publish L packet =
     (let body = p_body packet in
      if length body < 2 then Inr None
      else res_bind (unpack_H (slice 0 2 body)) (\<lambda>n.
        let tlen = nat n; offset = 2 in
        if length body < offset + tlen then Inr None
        else res_bind (to_s L (slice offset (offset + tlen) body)) (\<lambda>topic.
          let offset = offset + tlen;
              qos = drop_bit 1 (p_flags packet) AND 0x03
          in if qos > 0 then
               (if length body < offset + 2 then Inr None
                else Inr (Some (topic, drop (offset + 2) body, Some (slice offset (offset + 2) body))))
             else Inr (Some (topic, drop offset body, None)))))"

section \<open>Message builders\<close>

definition mqtt_enc_str :: "lib \<Rightarrow> string \<Rightarrow> bytes res" where
  "mqtt_enc_str L s = res_bind (to_b L (PyStr s)) (\<lambda>b.
     res_bind (pack_H (int (length b))) (\<lambda>h. Inr (h @ b)))"

definition build_connect :: "lib \<Rightarrow> string \<Rightarrow> int \<Rightarrow> bytes res" where
  "build_connect L client_id keep_alive =
     res_bind (mqtt_enc_str L ''MQTT'') (\<lambda>proto.
     res_bind (pack_H keep_alive) (\<lambda>ka.
     let vh = proto @ [0x04] @ [0x02] @ ka in
     res_bind (mqtt_enc_str L client_id) (\<lambda>pl.
     Inr ([0x10] @ mqtt_encode_varint (length vh + length pl) @ vh @ pl))))"

definition build_subscribe :: "lib \<Rightarrow> string \<Rightarrow> bytes \<Rightarrow> bytes res" where
  "build_subscribe L topic packet_id =
     (let vh = packet_id in
      res_bind (mqtt_enc_str L topic) (\<lambda>t.
      let pl = t @ [0x01] in
      Inr ([0x82] @ mqtt_encode_varint (length vh + length pl) @ vh @ pl)))"

definition build_publish :: "lib \<Rightarrow> string \<Rightarrow> pyval \<Rightarrow> bytes \<Rightarrow> bool \<Rightarrow> bytes res" where
  "build_publish L topic payload packet_id dup =
     res_bind (mqtt_enc_str L topic) (\<lambda>topic_bytes.
     res_bind (to_b L payload) (\<lambda>payload_bytes.
     let pl = topic_bytes @ packet_id @ payload_bytes;
         header = 0x30 OR push_bit 1 (1 :: int);
         header = (if dup then header OR 0x08 else header)
     in Inr ([word_of_int header] @ mqtt_encode_varint (length pl) @ pl)))"

text \<open>\<open>get_time\<close> is the clock's reading \<open>now\<close>.\<close>

definition build_ping :: "real \<Rightarrow> real \<Rightarrow> real \<Rightarrow> real \<times> bytes option" where
  "build_ping last_ping keep_alive now =
     (if now - last_ping \<ge> keep_alive then
        (now, Some (build \<lparr>p_type = PINGREQ, p_flags = 0, p_variable_header = [], p_payload = [], p_body = []\<rparr>))
      else (last_ping, None))"

definition build_puback :: "bytes \<Rightarrow> bytes" where
  "build_puback packet_id = [0x40, 0x02] @ packet_id"

definition build_disconnect :: bytes where
  "build_disconnect = [0xE0, 0x00]"

section \<open>Frames\<close>

text \<open>
  What a frame of the protocol is: the header of \<open>mqtt_build_header\<close> for the body's length,
  then the body. The builders write some headers by hand; each builds a frame.
\<close>

definition frame :: "mqtt_enum \<Rightarrow> int \<Rightarrow> bytes \<Rightarrow> bytes" where
  "frame t f body = mqtt_build_header (length body) t f @ body"

definition parsed :: "mqtt_enum \<Rightarrow> int \<Rightarrow> bytes \<Rightarrow> mqtt_packet" where
  "parsed t f body =
     \<lparr>p_type = t, p_flags = f, p_variable_header = [], p_payload = [], p_body = body\<rparr>"

lemma parsed_sel [simp]:
  "p_type (parsed t f b) = t" "p_flags (parsed t f b) = f" "p_body (parsed t f b) = b"
  by (simp_all add: parsed_def)

lemma build_frame: "build p = frame (p_type p) (p_flags p) (p_variable_header p @ p_payload p)"
  by (simp add: build_def frame_def)

lemma and_0F: "(f :: int) AND 0x0F = f mod 16"
proof -
  have "mask 4 = (0x0F :: int)" by (simp add: mask_eq_exp_minus_1)
  then have "f AND 0x0F = take_bit 4 f" by (simp only: take_bit_eq_mask)
  then show ?thesis by (simp add: take_bit_eq_mod)
qed

lemma header_byte_val:
  "push_bit 4 (mqtt_val t) OR (f AND 0x0F) = 16 * mqtt_val t + f mod 16"
proof -
  have "push_bit 4 (mqtt_val t) AND take_bit 4 f = 0"
    by (rule bit_eqI) (auto simp: bit_simps)
  moreover have "f AND 0x0F = take_bit 4 f" by (simp add: and_0F take_bit_eq_mod)
  ultimately have "push_bit 4 (mqtt_val t) OR (f AND 0x0F) = push_bit 4 (mqtt_val t) + take_bit 4 f"
    by (simp only: disjunctive_add_eq_or)
  then show ?thesis by (simp add: push_bit_eq_mult take_bit_eq_mod mult.commute)
qed

lemma header_byte:
  fixes b :: byte
  assumes b: "b = word_of_int (push_bit 4 (mqtt_val t) OR (f AND 0x0F))"
  shows "drop_bit 4 (uint b) = mqtt_val t" and "uint b AND 0x0F = f mod 16"
proof -
  have r: "0 \<le> f mod 16" "f mod 16 < 16" by simp_all
  then have "0 \<le> 16 * mqtt_val t + f mod 16" and "16 * mqtt_val t + f mod 16 < 256"
    using mqtt_val_range [of t] by linarith+
  then have "uint b = 16 * mqtt_val t + f mod 16"
    unfolding b header_byte_val uint_word_of_int_eq by (intro take_bit_int_eq_self) simp_all
  with r show "drop_bit 4 (uint b) = mqtt_val t" and "uint b AND 0x0F = f mod 16"
    by (simp_all add: and_0F drop_bit_eq_div)
qed

lemma build_header_Cons:
  "mqtt_build_header n t f = word_of_int (push_bit 4 (mqtt_val t) OR (f AND 0x0F)) # mqtt_encode_varint n"
  by (simp add: mqtt_build_header_def Let_def)

text \<open>The first bytes of a buffer that starts with a frame, as the reader sees them.\<close>

lemma frame_decode:
  "length body < 128 ^ 4 \<Longrightarrow>
   mqtt_decode_varint (frame t f body @ rest) 1 =
     Inr (length body, length (mqtt_encode_varint (length body)))"
  by (rule decode_encode [where rest = "body @ rest"]) (simp_all add: frame_def build_header_Cons)

lemma length_frame:
  "length (frame t f body) = 1 + length (mqtt_encode_varint (length body)) + length body"
  by (simp add: frame_def build_header_Cons)

lemma parse_frame:
  assumes "length body < 128 ^ 4"
  shows "mqtt_parse_packet (frame t f body) = Inr (parsed t (f mod 16) body)"
proof -
  have cut: "slice (1 + length (mqtt_encode_varint (length body)))
      (1 + length (mqtt_encode_varint (length body)) + length body) (frame t f body) = body"
    by (simp add: slice_def frame_def build_header_Cons)
  have "frame t f body \<noteq> []" by (simp add: frame_def build_header_Cons)
  moreover have "frame t f body ! 0 = word_of_int (push_bit 4 (mqtt_val t) OR (f AND 0x0F))"
    by (simp add: frame_def build_header_Cons)
  ultimately show ?thesis
    using frame_decode [OF assms, of t f "[]"] cut
    by (simp add: mqtt_parse_packet_def Let_def MQTTPacket_def header_byte [OF refl] parsed_def)
qed

lemma hand_header:
  "n = 16 * mqtt_val t + f mod 16 \<Longrightarrow> [word_of_int n] @ mqtt_encode_varint k = mqtt_build_header k t f"
  by (simp add: build_header_Cons header_byte_val)

lemma publish_header:
  "(let header = 0x30 OR push_bit 1 (1 :: int) in if dup then header OR 0x08 else header) =
   16 * mqtt_val PUBLISH + (if dup then 10 else 2)"
  by (simp add: push_bit_eq_mult)

lemma build_publish_frame:
  "build_publish L topic payload pid dup =
    res_bind (mqtt_enc_str L topic) (\<lambda>t. res_bind (to_b L payload) (\<lambda>p.
      Inr (frame PUBLISH (if dup then 10 else 2) (t @ pid @ p))))"
proof -
  let ?f = "if dup then 10 else 2 :: int"
  have "[word_of_int (16 * mqtt_val PUBLISH + ?f)] @ mqtt_encode_varint k = mqtt_build_header k PUBLISH ?f" for k
    by (rule hand_header) simp
  then show ?thesis
    unfolding build_publish_def publish_header [unfolded Let_def] Let_def frame_def
    by (simp only: append_assoc [symmetric])
qed

lemma build_subscribe_frame:
  "build_subscribe L topic pid =
    res_bind (mqtt_enc_str L topic) (\<lambda>t. Inr (frame SUBSCRIBE 2 (pid @ t @ [0x01])))"
  using hand_header [where n = "0x82" and t = SUBSCRIBE and f = 2, symmetric]
  by (simp add: build_subscribe_def frame_def Let_def)

lemma build_connect_frame:
  "build_connect L client_id ka =
    res_bind (mqtt_enc_str L ''MQTT'') (\<lambda>proto. res_bind (pack_H ka) (\<lambda>k.
    res_bind (mqtt_enc_str L client_id) (\<lambda>pl.
      Inr (frame CONNECT 0 (proto @ [0x04, 0x02] @ k @ pl)))))"
  using hand_header [where n = "0x10" and t = CONNECT and f = 0, symmetric]
  by (simp add: build_connect_def frame_def Let_def add.assoc)

lemma build_puback_frame: "length pid = 2 \<Longrightarrow> build_puback pid = frame PUBACK 0 pid"
  using hand_header [where n = "0x40" and t = PUBACK and f = 0 and k = 2]
  by (simp add: build_puback_def frame_def encode_small)

lemma build_disconnect_frame: "build_disconnect = frame DISCONNECT 0 []"
  using hand_header [where n = "0xE0" and t = DISCONNECT and f = 0 and k = 0]
  by (simp add: build_disconnect_def frame_def encode_small)

lemma build_ping_frame:
  "build_ping l k now = (if now - l \<ge> k then (now, Some (frame PINGREQ 0 [])) else (l, None))"
  by (simp add: build_ping_def build_frame)

text \<open>A length-prefixed string is read back by the parser of a PUBLISH body.\<close>

lemma enc_str_Inr:
  "mqtt_enc_str L s = Inr bs \<longleftrightarrow>
    (\<exists>b h. to_b L (PyStr s) = Inr b \<and> pack_H (int (length b)) = Inr h \<and> bs = h @ b)"
  by (auto simp: mqtt_enc_str_def res_bind_Inr_conv)

lemma parse_publish_body:
  assumes "mqtt_enc_str L topic = Inr t" and "text_codec L" and "length pid = 2"
    and "drop_bit 1 f AND 0x03 > 0"
  shows "mqtt_parse_publish L (parsed PUBLISH f (t @ pid @ payload)) = Inr (Some (topic, payload, Some pid))"
proof -
  from assms(1) obtain b h where b: "to_b L (PyStr topic) = Inr b"
    and h: "pack_H (int (length b)) = Inr h" and t: "t = h @ b"
    by (auto simp: enc_str_Inr)
  have len: "length h = 2" using h by (rule fmt_H.enc_width)
  have dec: "unpack_H h = Inr (int (length b))" using h by (rule fmt_H.dec_enc)
  have "to_s L b = Inr topic" using assms(2) b by (simp add: text_codec_def)
  then show ?thesis
    using assms(3,4) len dec
    by (simp add: mqtt_parse_publish_def t slice_def Let_def)
qed

section \<open>Properties\<close>

text \<open>
  C33: round trip of a control packet. What \<open>build\<close> serialises, \<open>mqtt_parse_packet\<close> reads back:
  the type, the low four bits of the flags and the whole body (variable header and payload).
\<close>

theorem packet_roundtrip:
  assumes "length (p_variable_header p @ p_payload p) < 128 ^ 4"
  shows "mqtt_parse_packet (build p) =
    Inr (parsed (p_type p) (p_flags p mod 16) (p_variable_header p @ p_payload p))"
  unfolding build_frame by (rule parse_frame [OF assms])

theorem packet_roundtrip_witness:
  "length (p_variable_header (parsed SUBSCRIBE 2 []) @ p_payload (parsed SUBSCRIBE 2 [])) < 128 ^ 4 \<and>
   mqtt_parse_packet (build (parsed SUBSCRIBE 2 [])) = Inr (parsed SUBSCRIBE 2 [])"
  using packet_roundtrip [of "parsed SUBSCRIBE 2 []"] by (simp add: parsed_def)

text \<open>
  round trip of a PUBLISH. The bytes \<open>build_publish\<close> makes for a topic, a payload and a
  two-byte packet id are a PUBLISH packet whose parsed body is that topic, that payload and
  that packet id, with or without the DUP flag.
\<close>

theorem publish_roundtrip:
  assumes "build_publish L topic payload pid dup = Inr raw" and "to_b L payload = Inr pl"
    and "text_codec L" and "length pid = 2" and "length raw < 128 ^ 4"
  shows "\<exists>pkt. mqtt_parse_packet raw = Inr pkt \<and> p_type pkt = PUBLISH \<and>
    mqtt_parse_publish L pkt = Inr (Some (topic, pl, Some pid))"
proof -
  let ?f = "if dup then 10 else 2 :: int"
  from assms(1,2) obtain t where t: "mqtt_enc_str L topic = Inr t"
    and raw: "raw = frame PUBLISH ?f (t @ pid @ pl)"
    by (auto simp: build_publish_frame res_bind_Inr_conv)
  have "length (t @ pid @ pl) < 128 ^ 4"
    using assms(5) by (simp add: raw length_frame)
  then have "mqtt_parse_packet raw = Inr (parsed PUBLISH ?f (t @ pid @ pl))"
    using parse_frame [of "t @ pid @ pl" PUBLISH ?f] by (simp add: raw)
  moreover have "mqtt_parse_publish L (parsed PUBLISH ?f (t @ pid @ pl)) = Inr (Some (topic, pl, Some pid))"
    using t assms(3,4) by (intro parse_publish_body) auto
  ultimately show ?thesis by simp
qed

theorem publish_roundtrip_witness:
  "\<exists>raw pkt. build_publish demo_lib ''ab'' (PyBytes [1, 2, 3]) [0, 5] True = Inr raw \<and>
     mqtt_parse_packet raw = Inr pkt \<and> p_type pkt = PUBLISH \<and>
     mqtt_parse_publish demo_lib pkt = Inr (Some (''ab'', [1, 2, 3], Some [0, 5]))"
proof -
  have raw: "build_publish demo_lib ''ab'' (PyBytes [1, 2, 3]) [0, 5] True =
      Inr (frame PUBLISH 10 ([0, 2, 97, 98] @ [0, 5] @ [1, 2, 3]))"
    by (simp add: build_publish_frame mqtt_enc_str_def demo_lib_def struct_pack_def be_encode_widths)
  show ?thesis
    using publish_roundtrip [OF raw, of "[1, 2, 3]"] raw demo_text_codec
    by (simp add: demo_lib_def length_frame encode_small)
qed

end
