(* ===== verification/Client_State.thy ===== *)
theory Client_State
  imports Mqtt_Packet
begin

text \<open>
  The state of an \<open>MQTTClient\<close> (\<open>mqtt_client.py\<close>) and the helpers of \<open>mqtt/utils.py\<close> that
  read and write it. Python objects that are shared by reference are kept in stores: a
  future is a number into \<open>futs\<close>, a pipe a number whose \<open>on_close\<close> event is
  \<open>pipe_closed\<close>. What leaves the client (bytes handed to a pipe, calls of an application's
  handler) is recorded in \<open>trace\<close>, in order. Dictionaries are association lists in insertion
  order: \<open>map_of\<close> looks a key up, \<open>AList.update\<close> assigns and \<open>AList.delete\<close> deletes.
\<close>

section \<open>Futures\<close>

datatype fut_val = FTrue | FBytes bytes

datatype fut = Pending | Result fut_val | Cancelled

definition fut_done :: "fut list \<Rightarrow> nat \<Rightarrow> bool" where
  "fut_done fs i \<longleftrightarrow> i < length fs \<and> fs ! i \<noteq> Pending"

definition fut_settle :: "nat \<Rightarrow> fut \<Rightarrow> fut list \<Rightarrow> fut list" where
  "fut_settle i v fs = (if fut_done fs i then fs else fs[i := v])"

text \<open>
  The contract of a store of futures: a new future is pending and unlike every other, and a
  settled one keeps its value, whatever happens to the store afterwards.
\<close>

locale future_store =
  fixes new :: "'s \<Rightarrow> nat \<times> 's"
    and peek :: "'s \<Rightarrow> nat \<Rightarrow> fut option"
    and settle :: "nat \<Rightarrow> fut \<Rightarrow> 's \<Rightarrow> 's"
  assumes new_pending: "new s = (i, s') \<Longrightarrow> peek s i = None \<and> peek s' i = Some Pending"
    and new_other: "new s = (i, s') \<Longrightarrow> j \<noteq> i \<Longrightarrow> peek s' j = peek s j"
    and settle_here: "peek s i = Some Pending \<Longrightarrow> peek (settle i v s) i = Some v"
    and settle_done: "peek s i = Some w \<Longrightarrow> w \<noteq> Pending \<Longrightarrow> peek (settle i v s) i = Some w"
    and settle_other: "j \<noteq> i \<Longrightarrow> peek (settle i v s) j = peek s j"
begin

lemma settle_stable: "peek s j = Some w \<Longrightarrow> w \<noteq> Pending \<Longrightarrow> peek (settle i v s) j = Some w"
  by (cases "j = i") (auto simp: settle_done settle_other)

lemma new_stable: "peek s j = Some w \<Longrightarrow> new s = (i, s') \<Longrightarrow> peek s' j = Some w"
  by (metis new_pending new_other option.distinct(1))

lemma settle_all_stable:
  "peek s j = Some w \<Longrightarrow> w \<noteq> Pending \<Longrightarrow> peek (fold (\<lambda>i. settle i v) is s) j = Some w"
  by (induction "is" arbitrary: s) (auto simp: settle_stable)

lemma settle_all_done:
  "v \<noteq> Pending \<Longrightarrow> j \<in> set is \<Longrightarrow> peek s j \<noteq> None \<Longrightarrow>
   \<exists>w. w \<noteq> Pending \<and> peek (fold (\<lambda>i. settle i v) is s) j = Some w"
proof (induction "is" arbitrary: s)
  case (Cons i "is")
  show ?case
  proof (cases "j = i")
    case True
    from Cons.prems(3) True obtain w where "peek s i = Some w" by auto
    then have "\<exists>w. w \<noteq> Pending \<and> peek (settle i v s) j = Some w"
      using Cons.prems(1) True by (cases "w = Pending") (auto simp: settle_here settle_done)
    with True show ?thesis by (auto dest: settle_all_stable)
  next
    case False
    with Cons show ?thesis by (simp add: settle_other)
  qed
qed simp

lemma settle_all_other: "j \<notin> set is \<Longrightarrow> peek (fold (\<lambda>i. settle i v) is s) j = peek s j"
  by (induction "is" arbitrary: s) (auto simp: settle_other)

end

definition fut_new :: "fut list \<Rightarrow> nat \<times> fut list" where
  "fut_new fs = (length fs, fs @ [Pending])"

definition fut_peek :: "fut list \<Rightarrow> nat \<Rightarrow> fut option" where
  "fut_peek fs i = (if i < length fs then Some (fs ! i) else None)"

interpretation futures: future_store fut_new fut_peek fut_settle
  by unfold_locales (auto simp: fut_new_def fut_peek_def fut_settle_def fut_done_def nth_append split: if_splits)

lemma length_fut_settle [simp]: "length (fut_settle i v fs) = length fs"
  by (simp add: fut_settle_def)

lemma fut_done_peek: "fut_done fs i \<longleftrightarrow> (\<exists>w. fut_peek fs i = Some w \<and> w \<noteq> Pending)"
  by (auto simp: fut_done_def fut_peek_def)

section \<open>The client\<close>

text \<open>
  The entry of a message queue. The keys \<open>attempts\<close> and \<open>probe_one_shot\<close> are absent until
  set and then read with \<open>meta.get\<close>; their absence is the default the code reads.
\<close>

record meta =
  m_app_ack :: nat
  m_dest_pk_hex :: string
  m_seq_no :: int
  m_out :: bytes
  m_updated :: real
  m_created :: real
  m_attempts :: nat
  m_probe_one_shot :: bool

type_synonym queue = "(int \<times> meta) list"

record keypair =
  compact_public_key :: bytes
  private_key :: bytes
  public_key_hex :: string

datatype event =
    Sent nat bytes
  | SendFailed nat bytes exn
  | Handled nat pyval string string
  | PipeOpened nat
  | PipeShut nat

datatype task = Running | Finished

record client =
  kp :: keypair
  af :: int
  host :: string
  port :: int
  msg_handlers :: "nat list"
  msg_queues :: "msg_enum \<Rightarrow> (string \<times> queue) list"
  sent_msg_ids :: "(string \<times> real) list"
  recv_msg_ids :: "(string \<times> real) list"
  packet_ids :: "mqtt_enum \<Rightarrow> (bytes \<times> nat) list"
  packet_id :: int
  client_id :: "string option"
  is_closed :: bool
  pipe :: "nat option"
  buf :: bytes
  dispatcher_task :: "task option"
  republish_duration :: int
  last_send :: "real option"
  last_connect :: "real option"
  futs :: "fut list"
  pipe_closed :: "nat \<Rightarrow> bool"
  next_pipe :: nat
  ticks :: nat
  draws :: nat
  trace :: "event list"

text \<open>
  The constructor. It refuses a missing clock; \<open>last_connect\<close> is the attribute that
  \<open>Router.ensure_client\<close> adds.
\<close>

definition new_client :: "int \<Rightarrow> string \<times> int \<Rightarrow> keypair \<Rightarrow> client" where
  "new_client a dest k =
     \<lparr>kp = k, af = a, host = fst dest, port = snd dest, msg_handlers = [],
      msg_queues = (\<lambda>_. []), sent_msg_ids = [], recv_msg_ids = [], packet_ids = (\<lambda>_. []),
      packet_id = 0, client_id = None, is_closed = False, pipe = None, buf = [],
      dispatcher_task = None, republish_duration = 0, last_send = None, last_connect = None,
      futs = [], pipe_closed = (\<lambda>_. False), next_pipe = 0, ticks = 0, draws = 0, trace = []\<rparr>"

definition MQTTClient :: "int \<Rightarrow> string \<times> int \<Rightarrow> keypair \<Rightarrow> bool \<Rightarrow> client res" where
  "MQTTClient a dest k has_clock =
     (if \<not> has_clock then Inl (ValueError ''MQTTClient: get_time is required'')
      else Inr (new_client a dest k))"

text \<open>A client of the concrete library, for examples.\<close>

definition demo_client :: client where
  "demo_client = new_client 2 (''broker'', 1883)
     \<lparr>compact_public_key = replicate 33 2, private_key = replicate 33 2, public_key_hex = hex_of (replicate 33 2)\<rparr>"

definition add_msg_handler :: "nat \<Rightarrow> client \<Rightarrow> client" where
  "add_msg_handler h c = c\<lparr>msg_handlers := List.insert h (msg_handlers c)\<rparr>"

section \<open>Access to the outside\<close>

definition get_time :: "lib \<Rightarrow> (client, real) py" where
  "get_time L = (\<lambda>c. (Inr (clock L (ticks c)), c\<lparr>ticks := ticks c + 1\<rparr>))"

definition draw :: "lib \<Rightarrow> nat \<Rightarrow> (client, bytes) py" where
  "draw L n = (\<lambda>c. (Inr (rand_b L (draws c) n), c\<lparr>draws := draws c + 1\<rparr>))"

text \<open>
  \<open>await client.pipe.send(b)\<close>: an attribute error without a pipe; otherwise the environment
  decides whether the send raises.
\<close>

definition pipe_send :: "lib \<Rightarrow> bytes \<Rightarrow> (client, unit) py" where
  "pipe_send L b = (\<lambda>c. case pipe c of
     None \<Rightarrow> (Inl OtherError, c)
   | Some p \<Rightarrow> (case pipe_send_exn L (length (trace c)) of
        None \<Rightarrow> (Inr (), c\<lparr>trace := trace c @ [Sent p b]\<rparr>)
      | Some e \<Rightarrow> (Inl e, c\<lparr>trace := trace c @ [SendFailed p b e]\<rparr>)))"

definition pipe_open :: "client \<Rightarrow> bool" where
  "pipe_open c \<longleftrightarrow> (case pipe c of None \<Rightarrow> False | Some p \<Rightarrow> \<not> pipe_closed c p)"

definition async_wrap_errors :: "lib \<Rightarrow> (client, unit) py \<Rightarrow> (client, unit) py" where
  "async_wrap_errors L m = py_except m (swallows L) (py_return ())"

definition new_future :: "(client, nat) py" where
  "new_future = (\<lambda>c. (Inr (length (futs c)), c\<lparr>futs := futs c @ [Pending]\<rparr>))"

definition future_done :: "nat \<Rightarrow> client \<Rightarrow> bool" where
  "future_done i c = fut_done (futs c) i"

text \<open>\<open>fut.set_result(v)\<close> raises on a future that is already done.\<close>

definition set_result :: "nat \<Rightarrow> fut_val \<Rightarrow> (client, unit) py" where
  "set_result i v = (\<lambda>c. if future_done i c then (Inl InvalidStateError, c)
     else (Inr (), c\<lparr>futs := fut_settle i (Result v) (futs c)\<rparr>))"

section \<open>Packet ids\<close>

text \<open>The table \<open>packet_ids\<close> has these two keys.\<close>

definition ack_types :: "mqtt_enum list" where
  "ack_types = [SUBACK, PUBACK]"

definition in_flight :: "client \<Rightarrow> bytes \<Rightarrow> bool" where
  "in_flight c pid = list_ex (\<lambda>pt. map_of (packet_ids c pt) pid \<noteq> None) ack_types"

text \<open>The loop \<open>for _ in range(65535)\<close> of \<open>get_packet_id\<close>.\<close>

function gpid_loop :: "nat \<Rightarrow> (client, bytes) py" where
  "gpid_loop i c =
     (if i < 65535 then
        let c' = c\<lparr>packet_id := packet_id c mod 65535 + 1\<rparr>
        in case pack_H (packet_id c') of
             Inl e \<Rightarrow> (Inl e, c')
           | Inr pid \<Rightarrow> if \<not> in_flight c' pid then (Inr pid, c') else gpid_loop (i + 1) c'
      else (Inl AssertionError, c))"
  by pat_completeness auto
termination
  by (relation "measure (\<lambda>(i, _). 65535 - i)") auto

declare gpid_loop.simps [simp del]

definition get_packet_id :: "(client, bytes) py" where
  "get_packet_id = gpid_loop 0"

definition packet_ack_future :: "mqtt_enum \<Rightarrow> (client, bytes \<times> nat) py" where
  "packet_ack_future packet_type =
     py_bind get_packet_id (\<lambda>pid.
     py_bind new_future (\<lambda>packet_ack.
     py_seq (py_modify (\<lambda>c. c\<lparr>packet_ids := (packet_ids c)
               (packet_type := AList.update pid packet_ack (packet_ids c packet_type))\<rparr>))
     (py_return (pid, packet_ack))))"

text \<open>
  \<open>reset_session_state\<close> of \<open>mqtt/utils.py\<close>: the stream buffer, the futures of the packet
  ids, the ids and their counter.
\<close>

definition cancel_futures :: "nat list \<Rightarrow> fut list \<Rightarrow> fut list" where
  "cancel_futures is fs = fold (\<lambda>i. fut_settle i Cancelled) is fs"

definition reset_packet_type :: "mqtt_enum \<Rightarrow> client \<Rightarrow> client" where
  "reset_packet_type pt c =
     c\<lparr>futs := cancel_futures (map snd (packet_ids c pt)) (futs c),
       packet_ids := (packet_ids c)(pt := [])\<rparr>"

definition reset_session_state :: "client \<Rightarrow> client" where
  "reset_session_state c =
     (fold reset_packet_type ack_types (c\<lparr>buf := []\<rparr>))\<lparr>packet_id := 0\<rparr>"

section \<open>Message ids and queues\<close>

text \<open>The loop over \<open>list(id_table.items())\<close> that deletes the expired ids.\<close>

fun prune_loop :: "real \<Rightarrow> real \<Rightarrow> (string \<times> real) list \<Rightarrow> (string \<times> real) list \<Rightarrow> (string \<times> real) list" where
  "prune_loop now ttl [] table = table"
| "prune_loop now ttl ((msg_id, created) # items) table =
     prune_loop now ttl items (if now - created > ttl then AList.delete msg_id table else table)"

definition prune_msg_ids :: "real \<Rightarrow> client \<Rightarrow> client" where
  "prune_msg_ids now c =
     (let ttl = real_of_int (republish_duration c * 2)
      in c\<lparr>recv_msg_ids := prune_loop now ttl (recv_msg_ids c) (recv_msg_ids c),
           sent_msg_ids := prune_loop now ttl (sent_msg_ids c) (sent_msg_ids c)\<rparr>)"

definition get_msg_from_queue :: "client \<Rightarrow> string \<Rightarrow> int \<Rightarrow> msg_enum \<Rightarrow> meta option" where
  "get_msg_from_queue c queue_id_hex seq_no queue_type =
     (case map_of (msg_queues c queue_type) queue_id_hex of
        None \<Rightarrow> None
      | Some sub_queue \<Rightarrow> map_of sub_queue seq_no)"

text \<open>The generator \<open>iter_all_messages\<close>, consumed without a change of the queues in between.\<close>

definition msg_types :: "msg_enum list" where
  "msg_types = [MSG, MSGACK, PROBE]"

definition iter_queue :: "queue \<Rightarrow> meta list" where
  "iter_queue queue = concat (map (\<lambda>seq_no. case map_of queue seq_no of None \<Rightarrow> [] | Some meta \<Rightarrow> [meta])
     (sort (map fst queue)))"

definition iter_all_messages :: "(msg_enum \<Rightarrow> (string \<times> queue) list) \<Rightarrow> meta list" where
  "iter_all_messages queues =
     concat (map (\<lambda>t. concat (map (\<lambda>(_, queue). iter_queue queue) (queues t))) msg_types)"

section \<open>Facts about the packet ids\<close>

text \<open>The number \<open>n\<close> as the two bytes of a packet id.\<close>

definition pid_bytes :: "int \<Rightarrow> bytes" where
  "pid_bytes n = be_encode 2 (nat n)"

lemma pack_H_pid: "0 \<le> n \<Longrightarrow> n \<le> 65535 \<Longrightarrow> pack_H n = Inr (pid_bytes n)"
  by (simp add: struct_pack_def pid_bytes_def)

lemma length_pid_bytes [simp]: "length (pid_bytes n) = 2"
  by (simp add: pid_bytes_def)

lemma pid_bytes_inj: "inj_on pid_bytes {0..65535}"
proof (rule inj_onI)
  fix m n :: int
  assume mn: "m \<in> {0..65535}" "n \<in> {0..65535}" and eq: "pid_bytes m = pid_bytes n"
  have "be_decode (pid_bytes m) = nat m" "be_decode (pid_bytes n) = nat n"
    using mn by (auto simp: pid_bytes_def intro!: be_decode_encode)
  with eq mn show "m = n" by auto
qed

lemma in_flight_packet_id [simp]: "in_flight (c\<lparr>packet_id := n\<rparr>) = in_flight c"
  by (simp add: in_flight_def fun_eq_iff)

definition next_pid :: "int \<Rightarrow> int" where
  "next_pid n = n mod 65535 + 1"

lemma next_pid_range: "1 \<le> next_pid n" "next_pid n \<le> 65535"
  using pos_mod_bound [of 65535 n] pos_mod_sign [of 65535 n] unfolding next_pid_def by linarith+

lemma next_pid_add: "next_pid (next_pid n + k) = next_pid (n + (k + 1))"
  using mod_add_left_eq [of n 65535 "k + 1"] by (simp add: next_pid_def ac_simps)

lemma next_pid_reaches:
  assumes "1 \<le> n" "n \<le> 65535"
  shows "next_pid (p + (n - 1 - p) mod 65535) = n"
proof -
  have "(p + (n - 1 - p) mod 65535) mod 65535 = (n - 1) mod 65535"
    by (simp add: mod_add_right_eq)
  with assms show ?thesis by (simp add: next_pid_def)
qed

lemma gpid_step:
  assumes "i < 65535"
  shows "gpid_loop i c =
    (let n = next_pid (packet_id c) in
     if \<not> in_flight c (pid_bytes n) then (Inr (pid_bytes n), c\<lparr>packet_id := n\<rparr>)
     else gpid_loop (i + 1) (c\<lparr>packet_id := n\<rparr>))"
proof -
  have "pack_H (next_pid (packet_id c)) = Inr (pid_bytes (next_pid (packet_id c)))"
    using next_pid_range [of "packet_id c"] by (intro pack_H_pid) linarith+
  with assms show ?thesis
    by (subst gpid_loop.simps) (simp add: Let_def next_pid_def [symmetric])
qed

lemma gpid_stop: "\<not> i < 65535 \<Longrightarrow> gpid_loop i c = (Inl AssertionError, c)"
  by (subst gpid_loop.simps) simp

lemma gpid_loop_Inr:
  "gpid_loop i c = (Inr pid, c') \<Longrightarrow>
   \<exists>n. 1 \<le> n \<and> n \<le> 65535 \<and> pid = pid_bytes n \<and> \<not> in_flight c pid \<and> c' = c\<lparr>packet_id := n\<rparr>"
proof (induction "65535 - i" arbitrary: i c)
  case 0
  then show ?case by (simp add: gpid_stop)
next
  case (Suc k)
  show ?case
  proof (cases "in_flight c (pid_bytes (next_pid (packet_id c)))")
    case True
    with Suc.prems Suc.hyps(2) have "gpid_loop (i + 1) (c\<lparr>packet_id := next_pid (packet_id c)\<rparr>) = (Inr pid, c')"
      by (simp add: gpid_step Let_def)
    from Suc.hyps(1) [OF _ this] Suc.hyps(2) show ?thesis by auto
  next
    case False
    with Suc.prems Suc.hyps(2) have "pid = pid_bytes (next_pid (packet_id c))"
      and "c' = c\<lparr>packet_id := next_pid (packet_id c)\<rparr>"
      by (auto simp: gpid_step Let_def)
    with False next_pid_range [of "packet_id c"] show ?thesis by blast
  qed
qed

lemma gpid_loop_Inl:
  "gpid_loop i c = (Inl e, c') \<Longrightarrow> e = AssertionError \<and>
   (\<forall>j \<in> {0..<65535 - int i}. in_flight c (pid_bytes (next_pid (packet_id c + j))))"
proof (induction "65535 - i" arbitrary: i c)
  case 0
  then show ?case by (simp add: gpid_stop)
next
  case (Suc k)
  let ?c = "c\<lparr>packet_id := next_pid (packet_id c)\<rparr>"
  from Suc.prems Suc.hyps(2) have here: "in_flight c (pid_bytes (next_pid (packet_id c)))"
    and rec: "gpid_loop (i + 1) ?c = (Inl e, c')"
    by (auto simp: gpid_step Let_def split: if_splits)
  from Suc.hyps(1) [OF _ rec] Suc.hyps(2) have e: "e = AssertionError"
    and tl: "j \<in> {0..<65535 - int (i + 1)} \<Longrightarrow> in_flight c (pid_bytes (next_pid (packet_id c + (j + 1))))" for j
    by (auto simp: next_pid_add)
  have "in_flight c (pid_bytes (next_pid (packet_id c + j)))" if "j \<in> {0..<65535 - int i}" for j
    using here tl [of "j - 1"] that by (cases "j = 0") auto
  with e show ?case by blast
qed

lemma gpid_loop_snd: "\<exists>n. snd (gpid_loop i c) = c\<lparr>packet_id := n\<rparr> \<and> (n = packet_id c \<or> 1 \<le> n \<and> n \<le> 65535)"
proof (induction "65535 - i" arbitrary: i c)
  case 0
  then show ?case by (auto simp: gpid_stop intro!: exI [of _ "packet_id c"])
next
  case (Suc k)
  then have "i < 65535" and "k = 65535 - (i + 1)" by simp_all
  from Suc.hyps(1) [OF this(2), of "c\<lparr>packet_id := next_pid (packet_id c)\<rparr>"] this(1)
  show ?case using next_pid_range [of "packet_id c"] by (auto simp: gpid_step Let_def)
qed

lemma get_packet_id_Inr:
  "get_packet_id c = (Inr pid, c') \<Longrightarrow>
   \<exists>n. 1 \<le> n \<and> n \<le> 65535 \<and> pid = pid_bytes n \<and> \<not> in_flight c pid \<and> c' = c\<lparr>packet_id := n\<rparr>"
  unfolding get_packet_id_def by (rule gpid_loop_Inr)

lemma get_packet_id_Inl:
  assumes "get_packet_id c = (Inl e, c')"
  shows "e = AssertionError" and "1 \<le> n \<Longrightarrow> n \<le> 65535 \<Longrightarrow> in_flight c (pid_bytes n)"
proof -
  note loop = gpid_loop_Inl [OF assms [unfolded get_packet_id_def]]
  from loop show "e = AssertionError" by simp
  assume n: "1 \<le> n" "n \<le> 65535"
  let ?j = "(n - 1 - packet_id c) mod 65535"
  have "?j \<in> {0..<65535 - int 0}" by simp
  with loop have "in_flight c (pid_bytes (next_pid (packet_id c + ?j)))" by blast
  with next_pid_reaches [OF n] show "in_flight c (pid_bytes n)" by simp
qed

lemma in_flight_iff:
  "in_flight c pid \<longleftrightarrow> pid \<in> fst ` set (packet_ids c SUBACK) \<union> fst ` set (packet_ids c PUBACK)"
  by (auto simp: in_flight_def ack_types_def map_of_eq_None_iff)

lemma get_packet_id_total:
  assumes "length (packet_ids c SUBACK) + length (packet_ids c PUBACK) < 65535"
  shows "\<exists>pid c'. get_packet_id c = (Inr pid, c')"
proof (rule ccontr)
  assume "\<not> ?thesis"
  then obtain e c' where "get_packet_id c = (Inl e, c')"
    by (metis obj_sumE surj_pair)
  from get_packet_id_Inl(2) [OF this]
  have "pid_bytes ` {1..65535} \<subseteq> fst ` set (packet_ids c SUBACK) \<union> fst ` set (packet_ids c PUBACK)"
    unfolding in_flight_iff by (meson atLeastAtMost_iff image_subsetI)
  then have "card (pid_bytes ` {1..65535}) \<le>
      card (fst ` set (packet_ids c SUBACK) \<union> fst ` set (packet_ids c PUBACK))"
    by (intro card_mono) auto
  also have "\<dots> \<le> card (fst ` set (packet_ids c SUBACK)) + card (fst ` set (packet_ids c PUBACK))"
    by (rule card_Un_le)
  also have "\<dots> \<le> length (packet_ids c SUBACK) + length (packet_ids c PUBACK)"
    by (intro add_mono order_trans [OF card_image_le] card_length) auto
  finally have "card (pid_bytes ` {1..65535}) < 65535" using assms by simp
  moreover have "card (pid_bytes ` {1..65535}) = 65535"
    by (subst card_image) (auto intro: inj_on_subset [OF pid_bytes_inj])
  ultimately show False by simp
qed

section \<open>Facts about sessions, message ids and queues\<close>

lemma futs_reset:
  "futs (reset_session_state c) =
   cancel_futures (map snd (packet_ids c SUBACK) @ map snd (packet_ids c PUBACK)) (futs c)"
  by (simp add: reset_session_state_def ack_types_def reset_packet_type_def cancel_futures_def)

lemma reset_session_fields:
  "buf (reset_session_state c) = []" "packet_id (reset_session_state c) = 0"
  "packet_ids (reset_session_state c) SUBACK = []" "packet_ids (reset_session_state c) PUBACK = []"
  "msg_queues (reset_session_state c) = msg_queues c" "pipe (reset_session_state c) = pipe c"
  "sent_msg_ids (reset_session_state c) = sent_msg_ids c"
  "recv_msg_ids (reset_session_state c) = recv_msg_ids c"
  "trace (reset_session_state c) = trace c"
  by (simp_all add: reset_session_state_def ack_types_def reset_packet_type_def)

lemma cancel_futures_done:
  "i \<in> set is \<Longrightarrow> i < length fs \<Longrightarrow> fut_done (cancel_futures is fs) i"
  using futures.settle_all_done [of Cancelled i "is" fs]
  by (auto simp: cancel_futures_def fut_done_peek fut_peek_def split: if_splits)

lemma cancel_futures_stable:
  "fut_peek fs i = Some w \<Longrightarrow> w \<noteq> Pending \<or> i \<notin> set is \<Longrightarrow> fut_peek (cancel_futures is fs) i = Some w"
  unfolding cancel_futures_def using futures.settle_all_stable futures.settle_all_other by metis

lemma prune_loop_filter:
  "prune_loop now ttl items table =
   filter (\<lambda>p. \<not> (\<exists>t. (fst p, t) \<in> set items \<and> now - t > ttl)) table"
proof (induction now ttl items table rule: prune_loop.induct)
  case (2 now ttl msg_id created items table)
  then show ?case
    by (auto simp: AList.delete_eq filter_filter intro!: filter_cong)
qed simp

lemma prune_loop_self:
  assumes "distinct (map fst table)"
  shows "prune_loop now ttl table table = filter (\<lambda>(_, t). now - t \<le> ttl) table"
  unfolding prune_loop_filter using assms
  by (intro filter_cong) (force dest: eq_key_imp_eq_value)+

lemma map_of_filter_value:
  "distinct (map fst al) \<Longrightarrow>
   map_of (filter (\<lambda>(_, v). P v) al) k = (case map_of al k of Some v \<Rightarrow> if P v then Some v else None | None \<Rightarrow> None)"
  by (induction al) (auto split: option.splits simp: map_of_eq_None_iff image_iff)

lemma iter_queue_sorted:
  assumes "distinct (map fst q)"
  shows "iter_queue q = map snd (sort_key fst q)"
proof -
  have "map fst (sort_key fst q) = sort (map fst q)"
    by (rule properties_for_sort [symmetric]) simp_all
  then have "iter_queue q = concat (map (\<lambda>p. case map_of q (fst p) of None \<Rightarrow> [] | Some m \<Rightarrow> [m]) (sort_key fst q))"
    unfolding iter_queue_def by (metis (mono_tags, lifting) comp_def map_map list.map_cong)
  also have "\<dots> = concat (map (\<lambda>p. [snd p]) (sort_key fst q))"
    using assms by (intro arg_cong [where f = concat] map_cong) auto
  finally show ?thesis by (simp add: concat_map_singleton)
qed

end
