(* ===== verification/App_Packet.thy ===== *)
theory App_Packet
  imports Client_State
begin

text \<open>
  The signed application packet of \<open>mqtt/app_packet.py\<close>: its wire layout, \<open>pack\<close> and
  \<open>pack_async\<close> that sign and serialise it with the client's key, \<open>unpack\<close> and
  \<open>unpack_async\<close> that check the signature before they read a field.
\<close>

section \<open>The wire layout\<close>

definition SRC_PK_LEN :: nat where "SRC_PK_LEN = 33"
definition SIG_LEN :: nat where "SIG_LEN = 64"
definition QUEUE_ID_LEN :: nat where "QUEUE_ID_LEN = 32"
definition SEQ_NO_LEN :: nat where "SEQ_NO_LEN = 4"
definition TIMESTAMP_LEN :: nat where "TIMESTAMP_LEN = 8"
definition MSG_TYPE_LEN :: nat where "MSG_TYPE_LEN = 1"

definition SIG_OFFSET :: nat where "SIG_OFFSET = SRC_PK_LEN"
definition SIGNED_MSG_OFFSET :: nat where "SIGNED_MSG_OFFSET = SRC_PK_LEN + SIG_LEN"
definition QUEUE_ID_OFFSET :: nat where "QUEUE_ID_OFFSET = 0"
definition SEQ_NO_OFFSET :: nat where "SEQ_NO_OFFSET = QUEUE_ID_OFFSET + QUEUE_ID_LEN"
definition TIMESTAMP_OFFSET :: nat where "TIMESTAMP_OFFSET = SEQ_NO_OFFSET + SEQ_NO_LEN"
definition MSG_TYPE_OFFSET :: nat where "MSG_TYPE_OFFSET = TIMESTAMP_OFFSET + TIMESTAMP_LEN"
definition MSG_OFFSET :: nat where "MSG_OFFSET = MSG_TYPE_OFFSET + MSG_TYPE_LEN"
definition MIN_PACKET_LEN :: nat where "MIN_PACKET_LEN = SIGNED_MSG_OFFSET + MSG_OFFSET"

lemmas wire_layout = SRC_PK_LEN_def SIG_LEN_def QUEUE_ID_LEN_def SEQ_NO_LEN_def
  TIMESTAMP_LEN_def MSG_TYPE_LEN_def SIG_OFFSET_def SIGNED_MSG_OFFSET_def QUEUE_ID_OFFSET_def
  SEQ_NO_OFFSET_def TIMESTAMP_OFFSET_def MSG_TYPE_OFFSET_def MSG_OFFSET_def MIN_PACKET_LEN_def

section \<open>The packet\<close>

text \<open>
  The source key and the signature are empty until \<open>pack\<close> sets them (\<open>None\<close> in the code);
  nothing reads them before.
\<close>

record app_packet =
  a_src_pk_hex :: string
  a_sig_hex :: string
  a_queue_id_hex :: string
  a_seq_no :: int
  a_timestamp :: "int option"
  a_msg_type :: int
  a_msg :: pyval

definition AppPacket :: "string \<Rightarrow> int \<Rightarrow> int \<Rightarrow> pyval \<Rightarrow> app_packet" where
  "AppPacket queue_id_hex seq_no msg_type msg =
     \<lparr>a_src_pk_hex = [], a_sig_hex = [], a_queue_id_hex = queue_id_hex, a_seq_no = seq_no,
      a_timestamp = None, a_msg_type = msg_type, a_msg = msg\<rparr>"

text \<open>\<open>int(x)\<close> of a float truncates towards zero.\<close>

definition py_int :: "real \<Rightarrow> int" where
  "py_int x = (if 0 \<le> x then \<lfloor>x\<rfloor> else \<lceil>x\<rceil>)"

text \<open>\<open>"\{:0wx\}".format(n)\<close>: hex, padded with zeros to the width, a minus sign counting.\<close>

fun hex_digits :: "nat \<Rightarrow> string" where
  "hex_digits n = (if n < 16 then [hex_digit n] else hex_digits (n div 16) @ [hex_digit (n mod 16)])"

declare hex_digits.simps [simp del]

definition format_hex :: "nat \<Rightarrow> int \<Rightarrow> string" where
  "format_hex w n =
     (let ds = hex_digits (nat \<bar>n\<bar>); sgn = (if n < 0 then ''-'' else [])
      in sgn @ replicate (w - length sgn - length ds) (CHR ''0'') @ ds)"

definition seq_no_hex :: "app_packet \<Rightarrow> string option" where
  "seq_no_hex p = Some (format_hex 8 (a_seq_no p))"

definition timestamp_hex :: "app_packet \<Rightarrow> string option" where
  "timestamp_hex p = map_option (format_hex 16) (a_timestamp p)"

section \<open>Packing\<close>

text \<open>The signed section: queue id, sequence number, timestamp, message type, message.\<close>

definition signed_section :: "bytes \<Rightarrow> int \<Rightarrow> int \<Rightarrow> int \<Rightarrow> bytes \<Rightarrow> bytes res" where
  "signed_section queue_id_bytes seq_no timestamp msg_type msg_bytes =
     res_bind (pack_I seq_no) (\<lambda>s.
     res_bind (pack_Q timestamp) (\<lambda>t.
     res_bind (pack_B msg_type) (\<lambda>m.
     Inr (queue_id_bytes @ s @ t @ m @ msg_bytes))))"

text \<open>The creation time is stamped once; a packet that has one keeps it.\<close>

definition stamp :: "lib \<Rightarrow> app_packet \<Rightarrow> (client, int) py" where
  "stamp L p = (case a_timestamp p of
     Some t \<Rightarrow> py_return t
   | None \<Rightarrow> py_bind (get_time L) (\<lambda>t. py_return (py_int t)))"

definition sign_with :: "(nat \<Rightarrow> bytes \<Rightarrow> bytes \<Rightarrow> bytes res) \<Rightarrow> bytes \<Rightarrow> (client, bytes) py" where
  "sign_with f signed_msg = (\<lambda>c. (f (draws c) (private_key (kp c)) signed_msg, c\<lparr>draws := draws c + 1\<rparr>))"

definition pack :: "lib \<Rightarrow> app_packet \<Rightarrow> (client, bytes \<times> app_packet) py" where
  "pack L p =
     py_seq (py_check (length (a_queue_id_hex p) = 64) (ValueError ''queue_id_hex must be 64 hex chars''))
     (py_bind (stamp L p) (\<lambda>timestamp.
      py_bind (py_lift (h_to_b L (a_queue_id_hex p))) (\<lambda>queue_id_bytes.
      py_bind (py_lift (if truthy (a_msg p) then to_b L (a_msg p) else Inr [])) (\<lambda>msg_bytes.
      py_bind (py_lift (signed_section queue_id_bytes (a_seq_no p) timestamp (a_msg_type p) msg_bytes)) (\<lambda>signed_msg.
      py_bind (sign_with (sign L) signed_msg) (\<lambda>sig.
      py_bind (py_get (\<lambda>c. compact_public_key (kp c))) (\<lambda>compact_pk.
      py_return (compact_pk @ sig @ signed_msg,
        p\<lparr>a_timestamp := Some timestamp, a_sig_hex := to_h L sig, a_src_pk_hex := to_h L compact_pk\<rparr>))))))))"

definition pack_async :: "lib \<Rightarrow> app_packet \<Rightarrow> (client, bytes \<times> app_packet) py" where
  "pack_async L p =
     py_seq (py_check (length (a_queue_id_hex p) = 64) (ValueError ''queue_id_hex must be 64 hex chars''))
     (py_bind (stamp L p) (\<lambda>timestamp.
      let p = (if a_msg p = PyNone then p\<lparr>a_msg := PyBytes []\<rparr> else p) in
      py_bind (py_lift (to_b L (a_msg p))) (\<lambda>msg_bytes.
      py_bind (py_lift (h_to_b L (a_queue_id_hex p))) (\<lambda>queue_id_bytes.
      py_bind (py_lift (signed_section queue_id_bytes (a_seq_no p) timestamp (a_msg_type p) msg_bytes)) (\<lambda>signed_msg.
      py_bind (sign_with (ecdsa_sign_async L) signed_msg) (\<lambda>sig.
      py_bind (py_get (\<lambda>c. compact_public_key (kp c))) (\<lambda>compact_pk.
      py_return (compact_pk @ sig @ signed_msg,
        p\<lparr>a_timestamp := Some timestamp, a_sig_hex := to_h L sig, a_src_pk_hex := to_h L compact_pk\<rparr>))))))))"

section \<open>Unpacking\<close>

text \<open>The fields of the signed section, read after the signature has been checked.\<close>

definition parse_signed :: "lib \<Rightarrow> bytes \<Rightarrow> bytes \<Rightarrow> bytes \<Rightarrow> app_packet res" where
  "parse_signed L src_pk_bytes sig_bytes signed_msg =
     (let queue_id_bytes = slice QUEUE_ID_OFFSET (QUEUE_ID_OFFSET + QUEUE_ID_LEN) signed_msg;
          seq_no_bytes = slice SEQ_NO_OFFSET (SEQ_NO_OFFSET + SEQ_NO_LEN) signed_msg;
          timestamp_bytes = slice TIMESTAMP_OFFSET (TIMESTAMP_OFFSET + TIMESTAMP_LEN) signed_msg;
          msg_type_byte = slice MSG_TYPE_OFFSET (MSG_TYPE_OFFSET + MSG_TYPE_LEN) signed_msg;
          msg_bytes = drop MSG_OFFSET signed_msg
      in res_bind (unpack_I seq_no_bytes) (\<lambda>seq_no.
         res_bind (unpack_Q timestamp_bytes) (\<lambda>timestamp.
         res_bind (unpack_B msg_type_byte) (\<lambda>msg_type.
         res_bind (to_s L msg_bytes) (\<lambda>msg.
         Inr \<lparr>a_src_pk_hex = to_h L src_pk_bytes, a_sig_hex = to_h L sig_bytes,
              a_queue_id_hex = to_h L queue_id_bytes, a_seq_no = seq_no,
              a_timestamp = Some timestamp, a_msg_type = msg_type, a_msg = PyStr msg\<rparr>)))))"

text \<open>The exceptions of the signature check that mean a bad packet; others propagate.\<close>

definition bad_packet_exn :: "exn \<Rightarrow> bool" where
  "bad_packet_exn e \<longleftrightarrow> e = BadSignatureError \<or> e = MalformedPointError \<or> is_ValueError e"

definition unpack_with :: "(bytes \<Rightarrow> bytes \<Rightarrow> bytes \<Rightarrow> unit res) \<Rightarrow> lib \<Rightarrow> bytes \<Rightarrow> app_packet option res" where
  "unpack_with check L payload =
     (if length payload < MIN_PACKET_LEN then Inr None
      else
        let src_pk_bytes = slice 0 SRC_PK_LEN payload;
            sig_bytes = slice SIG_OFFSET SIGNED_MSG_OFFSET payload;
            signed_msg = drop SIGNED_MSG_OFFSET payload
        in case res_bind (vk_from_string L src_pk_bytes) (\<lambda>vk. check vk sig_bytes signed_msg) of
             Inl e \<Rightarrow> if bad_packet_exn e then Inr None else Inl e
           | Inr _ \<Rightarrow> res_bind (parse_signed L src_pk_bytes sig_bytes signed_msg) (\<lambda>p. Inr (Some p)))"

definition unpack :: "lib \<Rightarrow> bytes \<Rightarrow> app_packet option res" where
  "unpack L payload = unpack_with (verify L) L payload"

definition unpack_async :: "lib \<Rightarrow> bytes \<Rightarrow> app_packet option res" where
  "unpack_async L payload = unpack_with (ecdsa_verify_async L) L payload"

section \<open>Facts\<close>

lemma signed_section_Inr:
  "signed_section q s t m b = Inr bs \<longleftrightarrow>
    (\<exists>x y z. pack_I s = Inr x \<and> pack_Q t = Inr y \<and> pack_B m = Inr z \<and> bs = q @ x @ y @ z @ b)"
  by (auto simp: signed_section_def res_bind_Inr_conv)

text \<open>Reading a signed section gives back what it was made of.\<close>

lemma parse_signed_section:
  assumes "signed_section q s t m b = Inr bs" and "length q = 32" and "to_s L b = Inr msg"
  shows "parse_signed L pk sig bs =
    Inr \<lparr>a_src_pk_hex = to_h L pk, a_sig_hex = to_h L sig, a_queue_id_hex = to_h L q,
         a_seq_no = s, a_timestamp = Some t, a_msg_type = m, a_msg = PyStr msg\<rparr>"
proof -
  from assms(1) obtain x y z where x: "pack_I s = Inr x" and y: "pack_Q t = Inr y"
    and z: "pack_B m = Inr z" and bs: "bs = q @ x @ y @ z @ b"
    by (auto simp: signed_section_Inr)
  have len: "length x = 4" "length y = 8" "length z = 1"
    using fmt_I.enc_width [OF x] fmt_Q.enc_width [OF y] fmt_B.enc_width [OF z] by auto
  have "unpack_I (slice 32 36 bs) = Inr s"
    using fmt_I.dec_field [OF x, of q 32 36] assms(2) by (simp add: bs)
  moreover have "unpack_Q (slice 36 44 bs) = Inr t"
    using fmt_Q.dec_field [OF y, of "q @ x" 36 44] assms(2) len by (simp add: bs)
  moreover have "unpack_B (slice 44 45 bs) = Inr m"
    using fmt_B.dec_field [OF z, of "q @ x @ y" 44 45] assms(2) len by (simp add: bs)
  moreover have "slice 0 32 bs = q" "drop 45 bs = b"
    using assms(2) len by (simp_all add: bs slice_def)
  ultimately show ?thesis
    using assms(3) by (simp add: parse_signed_def wire_layout)
qed

text \<open>Every section long enough is read, and the fields read are the ones signed.\<close>

lemma parse_signed_Inr:
  assumes "parse_signed L pk sig bs = Inr p" and "45 \<le> length bs"
  shows "\<exists>t msg. a_timestamp p = Some t \<and> a_msg p = PyStr msg \<and> to_s L (drop 45 bs) = Inr msg \<and>
    signed_section (take 32 bs) (a_seq_no p) t (a_msg_type p) (drop 45 bs) = Inr bs \<and>
    a_queue_id_hex p = to_h L (take 32 bs) \<and> a_src_pk_hex p = to_h L pk \<and> a_sig_hex p = to_h L sig"
proof -
  have "\<exists>x. unpack_I (slice 32 36 bs) = Inr x \<and> pack_I x = Inr (slice 32 36 bs)"
    by (rule fmt_I.dec_slice_total) (use assms(2) in simp_all)
  then obtain s where s: "unpack_I (slice 32 36 bs) = Inr s" "pack_I s = Inr (slice 32 36 bs)" by blast
  have "\<exists>x. unpack_Q (slice 36 44 bs) = Inr x \<and> pack_Q x = Inr (slice 36 44 bs)"
    by (rule fmt_Q.dec_slice_total) (use assms(2) in simp_all)
  then obtain t where t: "unpack_Q (slice 36 44 bs) = Inr t" "pack_Q t = Inr (slice 36 44 bs)" by blast
  have "\<exists>x. unpack_B (slice 44 45 bs) = Inr x \<and> pack_B x = Inr (slice 44 45 bs)"
    by (rule fmt_B.dec_slice_total) (use assms(2) in simp_all)
  then obtain m where m: "unpack_B (slice 44 45 bs) = Inr m" "pack_B m = Inr (slice 44 45 bs)" by blast
  have "(((take 32 bs @ slice 32 36 bs) @ slice 36 44 bs) @ slice 44 45 bs) @ drop 45 bs = bs"
    by (simp add: take_slice del: append_assoc)
  then have "take 32 bs @ slice 32 36 bs @ slice 36 44 bs @ slice 44 45 bs @ drop 45 bs = bs"
    by (simp only: append_assoc)
  then have sec: "signed_section (take 32 bs) s t m (drop 45 bs) = Inr bs"
    using s t m by (simp add: signed_section_def)
  from assms(1) s t m obtain msg where "to_s L (drop 45 bs) = Inr msg"
    and "p = \<lparr>a_src_pk_hex = to_h L pk, a_sig_hex = to_h L sig, a_queue_id_hex = to_h L (take 32 bs),
         a_seq_no = s, a_timestamp = Some t, a_msg_type = m, a_msg = PyStr msg\<rparr>"
    by (auto simp: parse_signed_def wire_layout res_bind_Inr_conv slice_def)
  with sec show ?thesis by simp
qed

definition stamp_value :: "lib \<Rightarrow> app_packet \<Rightarrow> client \<Rightarrow> int" where
  "stamp_value L p c = (case a_timestamp p of Some t \<Rightarrow> t | None \<Rightarrow> py_int (clock L (ticks c)))"

definition stamped :: "app_packet \<Rightarrow> client \<Rightarrow> client" where
  "stamped p c = (if a_timestamp p = None then c\<lparr>ticks := ticks c + 1\<rparr> else c)"

lemma stamp_app: "stamp L p c = (Inr (stamp_value L p c), stamped p c)"
  by (cases "a_timestamp p") (simp_all add: stamp_def stamp_value_def stamped_def get_time_def py_simps)

lemma stamped_sel [simp]:
  "draws (stamped p c) = draws c" "kp (stamped p c) = kp c" "msg_queues (stamped p c) = msg_queues c"
  "futs (stamped p c) = futs c" "trace (stamped p c) = trace c"
  by (simp_all add: stamped_def)

text \<open>What packing does, in one equation: a result or an exception, and a client whose clock and random source have moved.\<close>

lemma pack_app:
  "pack L p c =
    (if length (a_queue_id_hex p) \<noteq> 64 then (Inl (ValueError ''queue_id_hex must be 64 hex chars''), c)
     else case res_bind (h_to_b L (a_queue_id_hex p)) (\<lambda>q.
            res_bind (if truthy (a_msg p) then to_b L (a_msg p) else Inr []) (\<lambda>m.
            signed_section q (a_seq_no p) (stamp_value L p c) (a_msg_type p) m)) of
       Inl e \<Rightarrow> (Inl e, stamped p c)
     | Inr signed_msg \<Rightarrow>
         (res_bind (sign L (draws c) (private_key (kp c)) signed_msg) (\<lambda>sig.
            Inr (compact_public_key (kp c) @ sig @ signed_msg,
              p\<lparr>a_timestamp := Some (stamp_value L p c), a_sig_hex := to_h L sig,
                a_src_pk_hex := to_h L (compact_public_key (kp c))\<rparr>)),
          (stamped p c)\<lparr>draws := draws c + 1\<rparr>))"
  by (auto simp: pack_def py_simps stamp_app sign_with_def res_bind_def split: sum.splits)

lemma pack_Inr:
  assumes "pack L p c = (Inr (raw, p'), c')"
  shows "\<exists>q m s sig. h_to_b L (a_queue_id_hex p) = Inr q \<and>
    (if truthy (a_msg p) then to_b L (a_msg p) else Inr []) = Inr m \<and>
    signed_section q (a_seq_no p) (stamp_value L p c) (a_msg_type p) m = Inr s \<and>
    sign L (draws c) (private_key (kp c)) s = Inr sig \<and>
    raw = compact_public_key (kp c) @ sig @ s \<and>
    p' = p\<lparr>a_timestamp := Some (stamp_value L p c), a_sig_hex := to_h L sig,
      a_src_pk_hex := to_h L (compact_public_key (kp c))\<rparr>"
  using assms by (auto simp: pack_app res_bind_Inr_conv split: if_splits sum.splits)

lemma unpack_with_parts:
  assumes "length pk = 33" and "length sig = 64" and "45 \<le> length s"
  shows "unpack_with check L (pk @ sig @ s) =
    (case res_bind (vk_from_string L pk) (\<lambda>vk. check vk sig s) of
       Inl e \<Rightarrow> if bad_packet_exn e then Inr None else Inl e
     | Inr _ \<Rightarrow> res_bind (parse_signed L pk sig s) (\<lambda>p. Inr (Some p)))"
  using assms by (simp add: unpack_with_def wire_layout slice_def Let_def)

lemma unpack_with_Some:
  assumes "unpack_with check L raw = Inr (Some p)"
  shows "\<exists>pk sig s vk. raw = pk @ sig @ s \<and> length pk = 33 \<and> length sig = 64 \<and> 45 \<le> length s \<and>
    vk_from_string L pk = Inr vk \<and> check vk sig s = Inr () \<and> parse_signed L pk sig s = Inr p"
proof -
  from assms have len: "142 \<le> length raw"
    by (simp add: unpack_with_def wire_layout split: if_splits)
  have "take 33 raw @ slice 33 97 raw = take 97 raw" by (rule take_slice) simp
  then have raw: "raw = take 33 raw @ slice 33 97 raw @ drop 97 raw"
    by (metis append_assoc append_take_drop_id)
  then have "unpack_with check L (take 33 raw @ slice 33 97 raw @ drop 97 raw) = Inr (Some p)"
    using assms by metis
  then have "case res_bind (vk_from_string L (take 33 raw)) (\<lambda>vk. check vk (slice 33 97 raw) (drop 97 raw)) of
       Inl e \<Rightarrow> (if bad_packet_exn e then Inr None else Inl e) = Inr (Some p)
     | Inr _ \<Rightarrow> res_bind (parse_signed L (take 33 raw) (slice 33 97 raw) (drop 97 raw)) (\<lambda>p. Inr (Some p)) = Inr (Some p)"
    using len by (subst (asm) unpack_with_parts) (auto split: sum.splits if_splits)
  then obtain vk where "vk_from_string L (take 33 raw) = Inr vk"
    and "check vk (slice 33 97 raw) (drop 97 raw) = Inr ()"
    and "parse_signed L (take 33 raw) (slice 33 97 raw) (drop 97 raw) = Inr p"
    by (auto simp: res_bind_Inr_conv split: sum.splits if_splits)
  with raw len show ?thesis by (intro exI) (auto simp: min_def)
qed

text \<open>Packing what unpacking reads back.\<close>

lemma pack_unpack:
  assumes "key_pair L (private_key (kp c)) (compact_public_key (kp c))"
    and "hex_codec L" and "text_codec L"
    and "a_queue_id_hex p = to_h L q" and "length q = 32"
    and "a_msg p = PyStr s" and "to_b L (PyStr s) = Inr b"
    and "0 \<le> a_seq_no p" "a_seq_no p < 2 ^ 32"
    and "0 \<le> stamp_value L p c" "stamp_value L p c < 2 ^ 64"
    and "0 \<le> a_msg_type p" "a_msg_type p < 256"
  shows "\<exists>raw p' c'. pack L p c = (Inr (raw, p'), c') \<and> unpack L raw = Inr (Some p') \<and>
    a_queue_id_hex p' = a_queue_id_hex p \<and> a_seq_no p' = a_seq_no p \<and> a_msg_type p' = a_msg_type p \<and>
    a_msg p' = a_msg p \<and> a_timestamp p' = Some (stamp_value L p c) \<and>
    a_src_pk_hex p' = to_h L (compact_public_key (kp c))"
proof -
  let ?pk = "compact_public_key (kp c)"
  from assms(1) obtain vk where pk: "length ?pk = 33" "vk_from_string L ?pk = Inr vk"
    and sign: "\<And>m. \<exists>sig. sign L (draws c) (private_key (kp c)) m = Inr sig \<and> length sig = 64 \<and> verify L vk sig m = Inr ()"
    by (auto simp: key_pair_def)
  have hex: "h_to_b L (to_h L q) = Inr q" "length (to_h L q) = 64"
    using assms(2,5) by (auto simp: hex_codec_def)
  have msg: "(if truthy (a_msg p) then to_b L (a_msg p) else Inr []) = Inr b" and decd: "to_s L b = Inr s"
    using assms(3,6,7) by (auto simp: text_codec_def)
  obtain x y z where xyz: "pack_I (a_seq_no p) = Inr x" "pack_Q (stamp_value L p c) = Inr y" "pack_B (a_msg_type p) = Inr z"
    using assms(8-13) by (auto simp: struct_pack_def)
  define sm where "sm = q @ x @ y @ z @ b"
  have sec: "signed_section q (a_seq_no p) (stamp_value L p c) (a_msg_type p) b = Inr sm"
    using xyz by (auto simp: signed_section_Inr sm_def)
  have len: "45 \<le> length sm"
    using assms(5) fmt_I.enc_width [OF xyz(1)] fmt_Q.enc_width [OF xyz(2)] fmt_B.enc_width [OF xyz(3)]
    by (simp add: sm_def)
  obtain sig where sig: "sign L (draws c) (private_key (kp c)) sm = Inr sig" "length sig = 64" "verify L vk sig sm = Inr ()"
    using sign by blast
  let ?p' = "p\<lparr>a_timestamp := Some (stamp_value L p c), a_sig_hex := to_h L sig, a_src_pk_hex := to_h L ?pk\<rparr>"
  have "pack L p c = (Inr (?pk @ sig @ sm, ?p'), (stamped p c)\<lparr>draws := draws c + 1\<rparr>)"
    using assms(4) hex msg sec sig(1) by (simp add: pack_app)
  moreover have "unpack L (?pk @ sig @ sm) = Inr (Some ?p')"
    using pk sig len parse_signed_section [OF sec assms(5) decd] assms(4,6)
    by (simp add: unpack_def unpack_with_parts)
  ultimately show ?thesis by simp
qed

text \<open>A packet of the concrete library: what it is packed to, and by whom.\<close>

definition demo_packet :: app_packet where
  "demo_packet = AppPacket (hex_of (replicate 32 1)) 5 1 (PyStr ''hi'')"

lemma demo_facts:
  "key_pair demo_lib (private_key (kp demo_client)) (compact_public_key (kp demo_client))"
  "hex_codec demo_lib" "text_codec demo_lib" "pool_same demo_lib"
  "a_queue_id_hex demo_packet = to_h demo_lib (replicate 32 1)" "length (replicate 32 1 :: bytes) = 32"
  "a_msg demo_packet = PyStr ''hi''" "to_b demo_lib (PyStr ''hi'') = Inr [104, 105]"
  "0 \<le> a_seq_no demo_packet" "a_seq_no demo_packet < 2 ^ 32"
  "stamp_value demo_lib demo_packet c = int (ticks c)"
  "0 \<le> a_msg_type demo_packet" "a_msg_type demo_packet < 256"
  by (simp_all add: demo_client_def new_client_def demo_key_pair demo_hex_codec demo_text_codec
      demo_pool_same demo_packet_def AppPacket_def stamp_value_def py_int_def)

lemma demo_ticks: "ticks demo_client = 0"
  by (simp add: demo_client_def new_client_def)

lemma demo_pack_unpack:
  "\<exists>raw p c. pack demo_lib demo_packet demo_client = (Inr (raw, p), c) \<and> unpack demo_lib raw = Inr (Some p)"
  using pack_unpack [OF demo_facts(1-3,5-10) _ _ demo_facts(12,13)]
  by (auto simp: demo_facts(11) demo_ticks)

section \<open>Properties\<close>

text \<open>
  C19: a signed packet arrives as it was sent. A packet whose queue id is the hex of 32 bytes,
  whose numbers fit their fields and whose message is an encodable string is packed without
  an exception, and unpacking the bytes gives back exactly the packet that was packed: the
  sender's key, the signature, the queue id, the sequence number, the timestamp, the type
  and the message.
\<close>

theorem app_packet_roundtrip:
  assumes "key_pair L (private_key (kp c)) (compact_public_key (kp c))"
    and "hex_codec L" and "text_codec L"
    and "a_queue_id_hex p = to_h L q" and "length q = 32"
    and "a_msg p = PyStr s" and "to_b L (PyStr s) = Inr b"
    and "0 \<le> a_seq_no p" "a_seq_no p < 2 ^ 32"
    and "0 \<le> stamp_value L p c" "stamp_value L p c < 2 ^ 64"
    and "0 \<le> a_msg_type p" "a_msg_type p < 256"
  shows "\<exists>raw p' c'. pack L p c = (Inr (raw, p'), c') \<and> unpack L raw = Inr (Some p') \<and>
    a_queue_id_hex p' = a_queue_id_hex p \<and> a_seq_no p' = a_seq_no p \<and> a_msg_type p' = a_msg_type p \<and>
    a_msg p' = a_msg p \<and> a_timestamp p' = Some (stamp_value L p c) \<and>
    a_src_pk_hex p' = to_h L (compact_public_key (kp c))"
  using assms by (rule pack_unpack)

theorem app_packet_roundtrip_witness:
  "\<exists>raw p c. pack demo_lib demo_packet demo_client = (Inr (raw, p), c) \<and>
     unpack demo_lib raw = Inr (Some p) \<and> a_seq_no p = a_seq_no demo_packet"
  using app_packet_roundtrip [OF demo_facts(1-3,5-10) _ _ demo_facts(12,13)]
  by (auto simp: demo_facts(11) demo_ticks)

text \<open>
  C20: authenticity. Whatever bytes arrive, a packet comes out of \<open>unpack\<close> only if they are a
  33-byte key, a 64-byte signature and a section that this key's signature covers, and every
  field of the packet is the one signed: re-encoding the fields gives the signed section.
\<close>

theorem unpack_authentic:
  assumes "unpack L raw = Inr (Some p)"
  shows "\<exists>pk sig s vk t m. raw = pk @ sig @ s \<and> length pk = 33 \<and> length sig = 64 \<and>
    vk_from_string L pk = Inr vk \<and> verify L vk sig s = Inr () \<and>
    a_src_pk_hex p = to_h L pk \<and> a_sig_hex p = to_h L sig \<and> a_queue_id_hex p = to_h L (take 32 s) \<and>
    a_timestamp p = Some t \<and> a_msg p = PyStr m \<and> to_s L (drop 45 s) = Inr m \<and>
    signed_section (take 32 s) (a_seq_no p) t (a_msg_type p) (drop 45 s) = Inr s"
proof -
  from unpack_with_Some [OF assms [unfolded unpack_def]] obtain pk sig s vk
    where parts: "raw = pk @ sig @ s" "length pk = 33" "length sig = 64" "45 \<le> length s"
      "vk_from_string L pk = Inr vk" "verify L vk sig s = Inr ()"
    and parse: "parse_signed L pk sig s = Inr p" by blast
  from parse_signed_Inr [OF parse parts(4)] parts show ?thesis by blast
qed

theorem unpack_authentic_witness:
  "\<exists>raw p pk sig s. unpack demo_lib raw = Inr (Some p) \<and> raw = pk @ sig @ s \<and> length pk = 33 \<and>
     verify demo_lib pk sig s = Inr () \<and> a_src_pk_hex p = to_h demo_lib pk"
proof -
  obtain raw p c where "unpack demo_lib raw = Inr (Some p)" using demo_pack_unpack by blast
  moreover from unpack_authentic [OF this] have "\<exists>pk sig s. raw = pk @ sig @ s \<and> length pk = 33 \<and>
     verify demo_lib pk sig s = Inr () \<and> a_src_pk_hex p = to_h demo_lib pk"
    by auto
  ultimately show ?thesis by blast
qed

text \<open>
  the asynchronous variants do what the synchronous ones do. With thread-pool helpers that
  compute what the direct calls compute, \<open>unpack_async\<close> is \<open>unpack\<close> and, for an encodable
  string, \<open>pack_async\<close> is \<open>pack\<close>: the same bytes, the same packet, the same exceptions, the
  same effect on the client.
\<close>

theorem async_variants_agree:
  assumes "pool_same L" and "text_codec L" and "a_msg p = PyStr s" and "to_b L (PyStr s) = Inr b"
  shows "pack_async L p = pack L p \<and> unpack_async L = unpack L"
proof -
  have m: "(if truthy (a_msg p) then to_b L (a_msg p) else Inr []) = Inr b"
    using assms(2-4) by (auto simp: text_codec_def)
  have "pack_async L p c = pack L p c" for c
    unfolding pack_def pack_async_def using assms(1,3,4) m
    by (simp add: py_simps pool_same_def Let_def split: sum.splits prod.splits)
  moreover have "unpack_async L raw = unpack L raw" for raw
    using assms(1) by (simp add: unpack_async_def unpack_def pool_same_def)
  ultimately show ?thesis by (simp add: fun_eq_iff)
qed

theorem async_variants_agree_witness:
  "pack_async demo_lib demo_packet = pack demo_lib demo_packet \<and> unpack_async demo_lib = unpack demo_lib"
  by (rule async_variants_agree [OF demo_facts(4,3,7,8)])

text \<open>
  the creation time is stamped once. A packet packed again later, by a client at any other
  time, carries the same timestamp and the same signed section; only the signature is new.
\<close>

theorem repack_same_section:
  assumes "pack L p c1 = (Inr (raw1, p1), c1')" and "pack L p1 c2 = (Inr (raw2, p2), c2')"
  shows "a_timestamp p2 = a_timestamp p1 \<and>
    (\<exists>s sig1 sig2. raw1 = compact_public_key (kp c1) @ sig1 @ s \<and> raw2 = compact_public_key (kp c2) @ sig2 @ s)"
proof -
  from pack_Inr [OF assms(1)] obtain q m s sig where 1: "h_to_b L (a_queue_id_hex p) = Inr q"
    "(if truthy (a_msg p) then to_b L (a_msg p) else Inr []) = Inr m"
    "signed_section q (a_seq_no p) (stamp_value L p c1) (a_msg_type p) m = Inr s"
    "raw1 = compact_public_key (kp c1) @ sig @ s"
    "p1 = p\<lparr>a_timestamp := Some (stamp_value L p c1), a_sig_hex := to_h L sig,
      a_src_pk_hex := to_h L (compact_public_key (kp c1))\<rparr>" by blast
  have ts: "stamp_value L p1 c2 = stamp_value L p c1" by (simp add: 1(5) stamp_value_def)
  from pack_Inr [OF assms(2)] show ?thesis
    using 1 ts by auto
qed

theorem repack_same_section_witness:
  "\<exists>raw1 p1 c1 raw2 p2 c2. pack demo_lib demo_packet demo_client = (Inr (raw1, p1), c1) \<and>
     pack demo_lib p1 (c1\<lparr>ticks := 99\<rparr>) = (Inr (raw2, p2), c2) \<and> a_timestamp p2 = a_timestamp p1"
proof -
  let ?sm = "replicate 32 1 @ [0, 0, 0, 5, 0, 0, 0, 0, 0, 0, 0, 0, 1, 104, 105] :: bytes"
  have sec: "signed_section (replicate 32 1) 5 0 1 [104, 105] = Inr ?sm"
    by (simp add: signed_section_def struct_pack_def be_encode_widths)
  obtain raw1 p1 c1 where 1: "pack demo_lib demo_packet demo_client = (Inr (raw1, p1), c1)"
    using demo_pack_unpack by blast
  from pack_Inr [OF 1] have p1: "\<exists>sig pk. p1 = demo_packet\<lparr>a_timestamp := Some 0, a_sig_hex := sig, a_src_pk_hex := pk\<rparr>"
    by (auto simp: demo_facts demo_ticks)
  have "\<exists>raw2 p2 c2. pack demo_lib p1 (c1\<lparr>ticks := 99\<rparr>) = (Inr (raw2, p2), c2)"
    using p1 sec by (auto simp: pack_app demo_packet_def AppPacket_def demo_hex stamp_value_def)
  with 1 repack_same_section [OF 1] show ?thesis by blast
qed

end
