(* ===== verification/Client_Ops.thy ===== *)
theory Client_Ops
  imports App_Packet
begin

text \<open>
  The sending side of the client: the ordered queues of \<open>mqtt_ordered_send.py\<close> and the
  public operations of \<open>mqtt_client.py\<close> that queue, publish, probe and dequeue.
\<close>

section \<open>The message queues\<close>

definition set_queue :: "msg_enum \<Rightarrow> string \<Rightarrow> queue \<Rightarrow> client \<Rightarrow> client" where
  "set_queue t qid q c = c\<lparr>msg_queues := (msg_queues c)(t := AList.update qid q (msg_queues c t))\<rparr>"

definition del_queue :: "msg_enum \<Rightarrow> string \<Rightarrow> client \<Rightarrow> client" where
  "del_queue t qid c = c\<lparr>msg_queues := (msg_queues c)(t := AList.delete qid (msg_queues c t))\<rparr>"

text \<open>\<open>if qid not in client.msg_queues[t]: client.msg_queues[t][qid] = {}\<close>\<close>

definition ensure_queue :: "msg_enum \<Rightarrow> string \<Rightarrow> client \<Rightarrow> client" where
  "ensure_queue t qid c = (if map_of (msg_queues c t) qid = None then set_queue t qid [] c else c)"

text \<open>\<open>client.msg_queues[t][qid]\<close>, and an assignment below it; both raise on an unknown queue.\<close>

definition get_queue :: "msg_enum \<Rightarrow> string \<Rightarrow> (client, queue) py" where
  "get_queue t qid = (\<lambda>c. case map_of (msg_queues c t) qid of
     None \<Rightarrow> (Inl KeyError, c) | Some q \<Rightarrow> (Inr q, c))"

definition put_meta :: "msg_enum \<Rightarrow> string \<Rightarrow> int \<Rightarrow> meta \<Rightarrow> (client, unit) py" where
  "put_meta t qid seq_no meta = (\<lambda>c. case map_of (msg_queues c t) qid of
     None \<Rightarrow> (Inl KeyError, c)
   | Some q \<Rightarrow> (Inr (), set_queue t qid (AList.update seq_no meta q) c))"

definition del_entry :: "msg_enum \<Rightarrow> string \<Rightarrow> int \<Rightarrow> client \<Rightarrow> client" where
  "del_entry t qid seq_no c = (case map_of (msg_queues c t) qid of
     None \<Rightarrow> c | Some q \<Rightarrow> set_queue t qid (AList.delete seq_no q) c)"

definition next_seq_no :: "queue \<Rightarrow> int" where
  "next_seq_no existing = (if existing = [] then 0 else Max (fst ` set existing) + 1)"

definition find_meta :: "client \<Rightarrow> msg_enum \<times> string \<Rightarrow> int \<Rightarrow> meta option" where
  "find_meta c k seq_no = get_msg_from_queue c (snd k) seq_no (fst k)"

section \<open>Ordered sending\<close>

text \<open>The note of a message's hash: a duplicate is only logged.\<close>

definition note_sent :: "lib \<Rightarrow> pyval \<Rightarrow> (client, unit) py" where
  "note_sent L msg =
     py_bind (py_lift (to_b L msg)) (\<lambda>b.
     let sent_msg_id = sha256_hexdigest L b in
     py_bind (py_get (\<lambda>c. map_of (sent_msg_ids c) sent_msg_id)) (\<lambda>known.
     if known \<noteq> None then py_return ()
     else py_bind (get_time L) (\<lambda>t.
       py_modify (\<lambda>c. c\<lparr>sent_msg_ids := AList.update sent_msg_id t (sent_msg_ids c)\<rparr>))))"

text \<open>
  Up to the packing: the checks, the note, the queue, the sequence number. No other task
  runs in between.
\<close>

definition oas_prepare :: "lib \<Rightarrow> pyval \<Rightarrow> string \<Rightarrow> string \<Rightarrow> msg_enum \<Rightarrow> int option \<Rightarrow> (client, int) py" where
  "oas_prepare L msg dest_pk_hex queue_id_hex msg_type seq_no =
     py_seq (py_check (length queue_id_hex = 64) (ValueError ''queue_id_hex must be 64 hex chars''))
     (py_seq (py_check (length dest_pk_hex = 66) (ValueError ''dest_pk_hex must be 66 hex chars''))
     (py_seq (py_when (msg_type = MSG) (note_sent L msg))
     (py_seq (py_modify (ensure_queue msg_type queue_id_hex))
     (case seq_no of
        Some i \<Rightarrow> py_return i
      | None \<Rightarrow> py_bind (get_queue msg_type queue_id_hex) (\<lambda>existing. py_return (next_seq_no existing))))))"

text \<open>
  After the packing: an entry under the key keeps its future, otherwise the message is
  queued with a new one. In the asynchronous variant other tasks have run since the first
  part, so the queue may be gone, which the lookup turns into a \<open>KeyError\<close>.
\<close>

definition oas_commit ::
  "lib \<Rightarrow> string \<Rightarrow> string \<Rightarrow> msg_enum \<Rightarrow> int \<Rightarrow> bytes \<Rightarrow> (client, (string \<times> int) \<times> nat) py" where
  "oas_commit L dest_pk_hex queue_id_hex msg_type seq_no out =
     py_bind (get_queue msg_type queue_id_hex) (\<lambda>q.
     case map_of q seq_no of
       Some existing \<Rightarrow> py_return ((queue_id_hex, seq_no), m_app_ack existing)
     | None \<Rightarrow>
         py_bind new_future (\<lambda>app_ack.
         py_bind (get_time L) (\<lambda>now.
         py_seq (put_meta msg_type queue_id_hex seq_no
           \<lparr>m_app_ack = app_ack, m_dest_pk_hex = dest_pk_hex, m_seq_no = seq_no, m_out = out,
            m_updated = 0, m_created = now, m_attempts = 0, m_probe_one_shot = False\<rparr>)
         (py_return ((queue_id_hex, seq_no), app_ack)))))"

definition ordered_ack_send ::
  "lib \<Rightarrow> pyval \<Rightarrow> string \<Rightarrow> string \<Rightarrow> msg_enum \<Rightarrow> int option \<Rightarrow> (client, (string \<times> int) \<times> nat) py" where
  "ordered_ack_send L msg dest_pk_hex queue_id_hex msg_type seq_no =
     py_bind (oas_prepare L msg dest_pk_hex queue_id_hex msg_type seq_no) (\<lambda>i.
     py_bind (pack L (AppPacket queue_id_hex i (msg_val msg_type) msg)) (\<lambda>(out, _).
     oas_commit L dest_pk_hex queue_id_hex msg_type i out))"

definition ordered_ack_send_async ::
  "lib \<Rightarrow> pyval \<Rightarrow> string \<Rightarrow> string \<Rightarrow> msg_enum \<Rightarrow> int option \<Rightarrow> (client, (string \<times> int) \<times> nat) py" where
  "ordered_ack_send_async L msg dest_pk_hex queue_id_hex msg_type seq_no =
     py_bind (oas_prepare L msg dest_pk_hex queue_id_hex msg_type seq_no) (\<lambda>i.
     py_bind (pack_async L (AppPacket queue_id_hex i (msg_val msg_type) msg)) (\<lambda>(out, _).
     oas_commit L dest_pk_hex queue_id_hex msg_type i out))"

section \<open>The operations of the client\<close>

text \<open>\<open>queue_id_hex or to_h(rand_b(32))\<close>: \<open>None\<close> and the empty string draw a random id.\<close>

definition queue_id_or_random :: "lib \<Rightarrow> string option \<Rightarrow> (client, string) py" where
  "queue_id_or_random L queue_id_hex = (case queue_id_hex of
     Some (x # xs) \<Rightarrow> py_return (x # xs)
   | _ \<Rightarrow> py_bind (draw L 32) (\<lambda>b. py_return (to_h L b)))"

definition touch_last_send :: "lib \<Rightarrow> (client, unit) py" where
  "touch_last_send L = py_bind (get_time L) (\<lambda>t. py_modify (\<lambda>c. c\<lparr>last_send := Some t\<rparr>))"

definition queue_msg ::
  "lib \<Rightarrow> pyval \<Rightarrow> string \<Rightarrow> string option \<Rightarrow> msg_enum \<Rightarrow> int option \<Rightarrow> (client, (string \<times> int) \<times> nat) py" where
  "queue_msg L msg dest_pk_hex queue_id_hex msg_type seq_no =
     py_bind (queue_id_or_random L queue_id_hex) (\<lambda>qid.
     py_seq (touch_last_send L)
     (ordered_ack_send L msg dest_pk_hex qid msg_type seq_no))"

definition queue_msg_async ::
  "lib \<Rightarrow> pyval \<Rightarrow> string \<Rightarrow> string option \<Rightarrow> msg_enum \<Rightarrow> int option \<Rightarrow> (client, (string \<times> int) \<times> nat) py" where
  "queue_msg_async L msg dest_pk_hex queue_id_hex msg_type seq_no =
     py_bind (queue_id_or_random L queue_id_hex) (\<lambda>qid.
     py_seq (touch_last_send L)
     (ordered_ack_send_async L msg dest_pk_hex qid msg_type seq_no))"

definition subscribe :: "lib \<Rightarrow> string \<Rightarrow> (client, bytes \<times> nat) py" where
  "subscribe L topic =
     py_bind (packet_ack_future SUBACK) (\<lambda>(packet_id, packet_ack).
     py_bind (py_lift (build_subscribe L topic packet_id)) (\<lambda>b.
     py_return (b, packet_ack)))"

definition publish :: "lib \<Rightarrow> string \<Rightarrow> pyval \<Rightarrow> bool \<Rightarrow> (client, bytes \<times> nat) py" where
  "publish L topic payload dup =
     py_seq (py_check (is_ascii L topic) (ValueError ''topic must be ASCII''))
     (py_seq (py_check (case payload of PyBytes _ \<Rightarrow> True | _ \<Rightarrow> False) TypeError)
     (py_bind (packet_ack_future PUBACK) (\<lambda>(packet_id, packet_ack).
      py_bind (py_lift (build_publish L topic payload packet_id dup)) (\<lambda>b.
      py_return (b, packet_ack)))))"

text \<open>\<open>if self.pipe and not self.pipe.on_close.is_set(): await self.pipe.send(buf)\<close>\<close>

definition send_if_open :: "lib \<Rightarrow> bytes \<Rightarrow> (client, unit) py" where
  "send_if_open L b = py_bind (py_get pipe_open) (\<lambda>ok. py_when ok (pipe_send L b))"

definition one_shot_meta :: "lib \<Rightarrow> string \<Rightarrow> int \<Rightarrow> bytes \<Rightarrow> (client, meta) py" where
  "one_shot_meta L dest_pk_hex seq_no out =
     py_bind new_future (\<lambda>app_ack.
     py_bind (get_time L) (\<lambda>now.
     py_return \<lparr>m_app_ack = app_ack, m_dest_pk_hex = dest_pk_hex, m_seq_no = seq_no, m_out = out,
       m_updated = 0, m_created = now, m_attempts = 0, m_probe_one_shot = True\<rparr>))"

definition send_probe :: "lib \<Rightarrow> string \<Rightarrow> string option \<Rightarrow> (client, (string \<times> int) \<times> nat) py" where
  "send_probe L dest_pk_hex queue_id_hex =
     py_bind (queue_id_or_random L queue_id_hex) (\<lambda>qid.
     py_seq (py_check (length qid = 64) (ValueError ''queue_id_hex must be 64 hex chars''))
     (py_seq (py_check (length dest_pk_hex = 66) (ValueError ''dest_pk_hex must be 66 hex chars''))
     (py_seq (touch_last_send L)
     (py_seq (py_modify (ensure_queue PROBE qid))
     (py_bind (get_queue PROBE qid) (\<lambda>q.
      let seq_no = int (length q) in
      py_bind (pack L (AppPacket qid seq_no (msg_val PROBE) (PyStr []))) (\<lambda>(out, _).
      py_bind (one_shot_meta L dest_pk_hex seq_no out) (\<lambda>meta.
      py_seq (put_meta PROBE qid seq_no meta)
      (py_bind (publish L dest_pk_hex (PyBytes out) False) (\<lambda>(b, _).
       py_seq (send_if_open L b)
       (py_return ((qid, seq_no), m_app_ack meta))))))))))))"

definition send_probe_ack :: "lib \<Rightarrow> string \<Rightarrow> string \<Rightarrow> int \<Rightarrow> (client, unit) py" where
  "send_probe_ack L dest_pk_hex queue_id_hex seq_no =
     py_seq (touch_last_send L)
     (py_seq (py_modify (ensure_queue MSGACK queue_id_hex))
     (py_bind (get_queue MSGACK queue_id_hex) (\<lambda>q.
      if map_of q seq_no \<noteq> None then py_return ()
      else
        py_bind (pack L (AppPacket queue_id_hex seq_no (msg_val MSGACK) (PyStr ''ack''))) (\<lambda>(out, _).
        py_bind (one_shot_meta L dest_pk_hex seq_no out) (\<lambda>meta.
        py_seq (put_meta MSGACK queue_id_hex seq_no meta)
        (py_bind (publish L dest_pk_hex (PyBytes out) False) (\<lambda>(b, _).
         send_if_open L b)))))))"

definition dequeue_msg :: "string \<Rightarrow> int option \<Rightarrow> msg_enum \<Rightarrow> (client, unit) py" where
  "dequeue_msg queue_id_hex seq_no msg_type = (\<lambda>c.
     case map_of (msg_queues c msg_type) queue_id_hex of
       None \<Rightarrow> (Inr (), c)
     | Some q \<Rightarrow> (case seq_no of
         None \<Rightarrow> (Inr (), del_queue msg_type queue_id_hex c)
       | Some i \<Rightarrow> (case map_of q i of
           None \<Rightarrow> (Inr (), c)
         | Some meta \<Rightarrow> if future_done (m_app_ack meta) c then (Inr (), c)
             else set_result (m_app_ack meta) FTrue c)))"

text \<open>The method \<open>MQTTClient.reset_session_state\<close>, not to be confused with the helper of \<open>utils.py\<close>.\<close>

definition client_reset_session_state :: "client \<Rightarrow> client" where
  "client_reset_session_state c =
     c\<lparr>futs := cancel_futures (concat (map (\<lambda>pt. map snd (packet_ids c pt)) ack_types)) (futs c),
       packet_ids := (\<lambda>_. []), sent_msg_ids := []\<rparr>"

end
