(* ===== verification/Client_Inv.thy ===== *)
theory Client_Inv
  imports Client_Ops
begin

text \<open>
  The contract of the message queues as a locale, its interpretation on the client's
  queues, and the invariant of the client that every operation of \<open>Client_Ops\<close> keeps:
  the dictionaries have distinct keys, an entry is stored under its own sequence number in
  a queue with a 64-digit id, packet ids are two-byte numbers from 1 to 65535 that are
  in flight for one purpose only, and no future belongs to two of them.
\<close>

section \<open>The contract of the queues\<close>

locale seq_store =
  fixes find :: "'s \<Rightarrow> 'k \<Rightarrow> int \<Rightarrow> 'm option"
    and seqs :: "'s \<Rightarrow> 'k \<Rightarrow> int set option"
    and put :: "'k \<Rightarrow> int \<Rightarrow> 'm \<Rightarrow> 's \<Rightarrow> 's"
    and drop_seq :: "'k \<Rightarrow> int \<Rightarrow> 's \<Rightarrow> 's"
    and drop_all :: "'k \<Rightarrow> 's \<Rightarrow> 's"
  assumes seqs_None: "seqs s k = None \<Longrightarrow> find s k i = None"
    and seqs_Some: "seqs s k = Some I \<Longrightarrow> finite I \<and> (i \<in> I \<longleftrightarrow> find s k i \<noteq> None)"
    and find_put: "seqs s k \<noteq> None \<Longrightarrow> find (put k i m s) k' j = (if k' = k \<and> j = i then Some m else find s k' j)"
    and seqs_put: "seqs s k = Some I \<Longrightarrow> seqs (put k i m s) k = Some (insert i I)"
    and find_drop_seq: "find (drop_seq k i s) k' j = (if k' = k \<and> j = i then None else find s k' j)"
    and find_drop_all: "find (drop_all k s) k' j = (if k' = k then None else find s k' j)"
begin

lemma next_fresh: "seqs s k = Some I \<Longrightarrow> find s k (if I = {} then 0 else Max I + 1) = None"
  using seqs_Some [of s k I] Max_ge [of I] by (smt (verit) empty_iff)

lemma put_same: "seqs s k \<noteq> None \<Longrightarrow> find (put k i m s) k i = Some m"
  by (simp add: find_put)

lemma drop_put: "seqs s k \<noteq> None \<Longrightarrow> find (drop_seq k i (put k i m s)) k' j = find (drop_seq k i s) k' j"
  by (simp add: find_put find_drop_seq)

text \<open>Entries put one after another under the next free number are numbered from 0 without a gap.\<close>

lemma put_dense:
  assumes "seqs s k = Some {0..<int n}"
  shows "seqs (put k (if {0..<int n} = {} then 0 else Max {0..<int n} + 1) m s) k = Some {0..<int (Suc n)}"
proof (cases n)
  case 0
  moreover have "{0 :: int} = {0..<1}" by auto
  ultimately show ?thesis using seqs_put [OF assms] by simp
next
  case (Suc j)
  have "Max {0..<int n} = int j"
    by (rule Max_eqI) (auto simp: Suc)
  moreover have "insert (int n) {0..<int n} = {0..<int (Suc n)}" by auto
  ultimately show ?thesis using seqs_put [OF assms, of "int n" m] Suc by (simp add: add.commute)
qed

end

definition queue_seqs :: "client \<Rightarrow> msg_enum \<times> string \<Rightarrow> int set option" where
  "queue_seqs c k = map_option (\<lambda>q. fst ` set q) (map_of (msg_queues c (fst k)) (snd k))"

definition queue_put :: "msg_enum \<times> string \<Rightarrow> int \<Rightarrow> meta \<Rightarrow> client \<Rightarrow> client" where
  "queue_put k i m c = snd (put_meta (fst k) (snd k) i m c)"

definition queue_drop :: "msg_enum \<times> string \<Rightarrow> client \<Rightarrow> client" where
  "queue_drop k c = del_queue (fst k) (snd k) c"

definition entry_drop :: "msg_enum \<times> string \<Rightarrow> int \<Rightarrow> client \<Rightarrow> client" where
  "entry_drop k i c = del_entry (fst k) (snd k) i c"

lemma find_meta_alt:
  "find_meta c k i = (case map_of (msg_queues c (fst k)) (snd k) of None \<Rightarrow> None | Some q \<Rightarrow> map_of q i)"
  by (simp add: find_meta_def get_msg_from_queue_def)

lemma find_meta_set_queue [dict_simps]:
  "find_meta (set_queue t qid q c) k i = (if k = (t, qid) then map_of q i else find_meta c k i)"
  by (cases k) (auto simp: find_meta_alt set_queue_def update_conv')

lemma find_meta_del_queue [dict_simps]:
  "find_meta (del_queue t qid c) k i = (if k = (t, qid) then None else find_meta c k i)"
  by (cases k) (auto simp: find_meta_alt del_queue_def delete_conv')

lemma put_meta_Inr: "put_meta t qid i m c = (Inr (), c') \<Longrightarrow> c' = queue_put (t, qid) i m c"
  by (simp add: queue_put_def)

lemma find_meta_put [dict_simps]:
  assumes "queue_seqs c k \<noteq> None"
  shows "find_meta (queue_put k i m c) k' j = (if k' = k \<and> j = i then Some m else find_meta c k' j)"
proof -
  from assms obtain q where q: "map_of (msg_queues c (fst k)) (snd k) = Some q"
    by (auto simp: queue_seqs_def)
  then have "find_meta c k j = map_of q j" by (simp add: find_meta_alt)
  with q show ?thesis by (cases k) (auto simp: queue_put_def put_meta_def dict_simps)
qed

lemma find_meta_entry_drop [dict_simps]:
  "find_meta (entry_drop k i c) k' j = (if k' = k \<and> j = i then None else find_meta c k' j)"
proof (cases "map_of (msg_queues c (fst k)) (snd k)")
  case None
  then show ?thesis by (auto simp: entry_drop_def del_entry_def find_meta_alt)
next
  case (Some q)
  then have "find_meta c k j = map_of q j" by (simp add: find_meta_alt)
  with Some show ?thesis by (cases k) (auto simp: entry_drop_def del_entry_def dict_simps)
qed

interpretation queues: seq_store find_meta queue_seqs queue_put entry_drop queue_drop
proof
  show "find_meta s k i = None" if "queue_seqs s k = None" for s k i
    using that by (auto simp: queue_seqs_def find_meta_alt split: option.splits)
  show "finite I \<and> (i \<in> I \<longleftrightarrow> find_meta s k i \<noteq> None)" if "queue_seqs s k = Some I" for s k i I
  proof -
    from that obtain q where q: "map_of (msg_queues s (fst k)) (snd k) = Some q" and I: "I = fst ` set q"
      by (auto simp: queue_seqs_def)
    then have "find_meta s k i = map_of q i" by (simp add: find_meta_alt)
    then show ?thesis unfolding I by (simp only: key_iff) simp
  qed
  show "find_meta (queue_put k i m s) k' j = (if k' = k \<and> j = i then Some m else find_meta s k' j)"
    if "queue_seqs s k \<noteq> None" for s k i m k' j
    using that by (rule find_meta_put)
  show "queue_seqs (queue_put k i m s) k = Some (insert i I)" if "queue_seqs s k = Some I" for s k i m I
    using that by (cases k) (auto simp: queue_seqs_def queue_put_def put_meta_def set_queue_def
        update_conv' dom_update split: option.splits)
  show "find_meta (entry_drop k i s) k' j = (if k' = k \<and> j = i then None else find_meta s k' j)" for s k i k' j
    by (rule find_meta_entry_drop)
  show "find_meta (queue_drop k s) k' j = (if k' = k then None else find_meta s k' j)" for s k k' j
    by (cases k) (simp add: queue_drop_def dict_simps)
qed

section \<open>The invariant\<close>

text \<open>Who holds a future: a queued message or an in-flight packet id.\<close>

datatype owner = Entry "msg_enum \<times> string" int | Pid mqtt_enum bytes

fun owned :: "client \<Rightarrow> owner \<Rightarrow> nat option" where
  "owned c (Entry k i) = map_option m_app_ack (find_meta c k i)"
| "owned c (Pid pt pid) = map_of (packet_ids c pt) pid"

declare owned.simps [simp del]

definition queues_ok :: "client \<Rightarrow> bool" where
  "queues_ok c \<longleftrightarrow> (\<forall>t. distinct (map fst (msg_queues c t)) \<and>
     (\<forall>qid q. map_of (msg_queues c t) qid = Some q \<longrightarrow> distinct (map fst q)))"

definition entries_ok :: "client \<Rightarrow> bool" where
  "entries_ok c \<longleftrightarrow> (\<forall>k i m. find_meta c k i = Some m \<longrightarrow> m_seq_no m = i \<and> length (snd k) = 64)"

definition pids_ok :: "client \<Rightarrow> bool" where
  "pids_ok c \<longleftrightarrow> 0 \<le> packet_id c \<and> packet_id c \<le> 65535 \<and>
     (\<forall>pt. distinct (map fst (packet_ids c pt))) \<and>
     (\<forall>pt pid f. map_of (packet_ids c pt) pid = Some f \<longrightarrow>
        pt \<in> set ack_types \<and> pid \<in> pid_bytes ` {1..65535}) \<and>
     (\<forall>pid. map_of (packet_ids c SUBACK) pid = None \<or> map_of (packet_ids c PUBACK) pid = None)"

definition owners_ok :: "client \<Rightarrow> bool" where
  "owners_ok c \<longleftrightarrow> (\<forall>w f. owned c w = Some f \<longrightarrow> f < length (futs c)) \<and>
     (\<forall>w w' f. owned c w = Some f \<longrightarrow> owned c w' = Some f \<longrightarrow> w = w')"

definition client_inv :: "client \<Rightarrow> bool" where
  "client_inv c \<longleftrightarrow> queues_ok c \<and> entries_ok c \<and> pids_ok c \<and> owners_ok c"

text \<open>The same while a future \<open>f\<close> has been made and not yet stored.\<close>

definition inv_with :: "nat \<Rightarrow> client \<Rightarrow> bool" where
  "inv_with f c \<longleftrightarrow> client_inv c \<and> f < length (futs c) \<and> (\<forall>w. owned c w \<noteq> Some f)"

lemmas inv_defs = client_inv_def queues_ok_def entries_ok_def pids_ok_def owners_ok_def

lemma inv_withD: "inv_with f c \<Longrightarrow> client_inv c"
  by (simp add: inv_with_def)

section \<open>Computations that do not touch it\<close>

text \<open>The part of the state the invariant reads; a computation that leaves it alone is \<open>local\<close>.\<close>

definition core :: "client \<Rightarrow> (msg_enum \<Rightarrow> (string \<times> queue) list) \<times> (mqtt_enum \<Rightarrow> (bytes \<times> nat) list) \<times> int \<times> nat" where
  "core c = (msg_queues c, packet_ids c, packet_id c, length (futs c))"

abbreviation local :: "(client, 'a) py \<Rightarrow> bool" where
  "local \<equiv> leaves core"

lemma find_meta_core: "core c = core c' \<Longrightarrow> find_meta c = find_meta c'"
  by (simp add: core_def find_meta_alt fun_eq_iff)

lemma owned_core:
  assumes "core c = core c'"
  shows "owned c = owned c'"
proof
  fix w show "owned c w = owned c' w"
    using assms find_meta_core [OF assms] by (cases w) (simp_all add: core_def owned.simps)
qed

lemma client_inv_core:
  assumes eq: "core c = core c'"
  shows "client_inv c = client_inv c'"
proof -
  have "msg_queues c = msg_queues c'" "packet_ids c = packet_ids c'" "packet_id c = packet_id c'"
    "length (futs c) = length (futs c')"
    using eq by (simp_all add: core_def)
  then show ?thesis
    by (simp only: inv_defs find_meta_core [OF eq] owned_core [OF eq])
qed

lemma inv_with_core:
  assumes eq: "core c = core c'"
  shows "inv_with f c = inv_with f c'"
proof -
  have "length (futs c) = length (futs c')" using eq by (simp add: core_def)
  then show ?thesis by (simp only: inv_with_def client_inv_core [OF eq] owned_core [OF eq])
qed

lemma keeps_local:
  assumes "local m" and "\<And>c c'. core c = core c' \<Longrightarrow> P c = P c'"
  shows "keeps P m"
proof (rule keepsI)
  fix c assume "P c"
  moreover have "core (snd (m c)) = core c"
    using assms(1) keeps_snd [of "\<lambda>s. core s = core c" m c] unfolding leaves_def by blast
  ultimately show "P (snd (m c))" using assms(2) by blast
qed

lemma local_keeps: "local m \<Longrightarrow> keeps client_inv m"
  by (erule keeps_local) (rule client_inv_core)

lemma local_keeps_with: "local m \<Longrightarrow> keeps (inv_with f) m"
  by (erule keeps_local) (rule inv_with_core)

lemmas local_return = leaves_return [of core] and local_raise = leaves_raise [of core]
  and local_get = leaves_get [of core] and local_lift = leaves_lift [of core] and local_check = leaves_check [of core]

lemma local_get_time [leaves_rules]: "local (get_time L)"
  and local_draw [leaves_rules]: "local (draw L n)"
  and local_pipe_send [leaves_rules]: "local (pipe_send L b)"
  and local_set_result [leaves_rules]: "local (set_result i v)"
  and local_sign_with [leaves_rules]: "local (sign_with sg s)"
  and local_get_queue [leaves_rules]: "local (get_queue t qid)"
  by (rule leavesI, simp add: get_time_def draw_def pipe_send_def set_result_def sign_with_def
      get_queue_def core_def split: option.split)+

lemma local_sent [leaves_rules]: "local (py_modify (\<lambda>c. c\<lparr>sent_msg_ids := h c\<rparr>))"
  and local_recv [leaves_rules]: "local (py_modify (\<lambda>c. c\<lparr>recv_msg_ids := h c\<rparr>))"
  and local_last_send [leaves_rules]: "local (py_modify (\<lambda>c. c\<lparr>last_send := u\<rparr>))"
  by (rule leavesI, simp add: py_simps core_def)+

lemma local_note_sent [leaves_rules]: "local (note_sent L msg)"
  unfolding note_sent_def Let_def by (intro leaves_rules)

lemma local_stamp [leaves_rules]: "local (stamp L p)"
  unfolding stamp_def by (cases "a_timestamp p") (auto intro: leaves_rules)

lemma local_pack [leaves_rules]: "local (pack L p)"
  unfolding pack_def by (intro leaves_rules)

lemma local_pack_async [leaves_rules]: "local (pack_async L p)"
  unfolding pack_async_def Let_def by (intro leaves_rules)

lemma local_queue_id [leaves_rules]: "local (queue_id_or_random L q)"
  unfolding queue_id_or_random_def by (cases q rule: option.exhaust) (auto intro: leaves_rules split: list.split)

lemma local_touch [leaves_rules]: "local (touch_last_send L)"
  unfolding touch_last_send_def by (intro leaves_rules)

lemma local_send_if_open [leaves_rules]: "local (send_if_open L b)"
  unfolding send_if_open_def by (intro leaves_rules)

section \<open>Every operation keeps the invariant\<close>

named_theorems inv_rules \<open>computations that keep the invariant\<close>

lemmas local_inv [inv_rules] = local_keeps [OF local_return] local_keeps [OF local_raise]
  local_keeps [OF local_get] local_keeps [OF local_lift] local_keeps [OF local_check]
  local_keeps [OF local_get_time] local_keeps [OF local_draw] local_keeps [OF local_pipe_send]
  local_keeps [OF local_set_result] local_keeps [OF local_get_queue] local_keeps [OF local_note_sent]
  local_keeps [OF local_queue_id] local_keeps [OF local_touch] local_keeps [OF local_send_if_open]
  local_keeps [OF local_recv]

lemmas compose_inv [inv_rules] = keeps_bind [of client_inv] keeps_seq [of client_inv]
  keeps_when [of _ client_inv] keeps_if [of _ client_inv] keeps_except [of client_inv]
  keeps_for [of client_inv] keeps_case_prod [of client_inv] keeps_case_option [of _ client_inv]

lemma find_meta_futs [simp]:
  "find_meta (c\<lparr>futs := fs\<rparr>) = find_meta c" "find_meta (c\<lparr>packet_ids := ps\<rparr>) = find_meta c"
  "find_meta (c\<lparr>packet_id := n\<rparr>) = find_meta c"
  by (simp_all add: find_meta_alt fun_eq_iff)

lemma new_future_inv: "valid client_inv new_future inv_with client_inv"
proof (rule validI)
  fix c x c' assume inv: "client_inv c" and run: "new_future c = (Inr x, c')"
  have own: "owned (c\<lparr>futs := futs c @ [Pending]\<rparr>) w = owned c w" for w by (cases w) (simp_all add: owned.simps)
  from run have x: "x = length (futs c)" and c': "c' = c\<lparr>futs := futs c @ [Pending]\<rparr>"
    by (auto simp: new_future_def)
  from inv have "queues_ok c'" "entries_ok c'" "pids_ok c'" "owners_ok c'"
    by (auto simp: inv_defs c' own less_Suc_eq)
  moreover have "owned c' w \<noteq> Some x" for w
    using inv by (auto simp: inv_defs c' own x)
  ultimately show "inv_with x c'"
    by (simp add: inv_with_def client_inv_def x c')
qed (simp add: new_future_def)

lemma find_meta_ensure [simp]: "find_meta (ensure_queue t qid c) = find_meta c"
proof -
  have "find_meta c (t, qid) i = None" if "map_of (msg_queues c t) qid = None" for i
    using that by (simp add: find_meta_alt)
  then show ?thesis by (auto simp: ensure_queue_def fun_eq_iff dict_simps)
qed

lemma set_queue_sel [simp]:
  "futs (set_queue t qid q c) = futs c" "packet_ids (set_queue t qid q c) = packet_ids c"
  "packet_id (set_queue t qid q c) = packet_id c"
  by (simp_all add: set_queue_def)

lemma set_queue_lookup [dict_simps]:
  "map_of (msg_queues (set_queue t qid q c) t') qid' =
    (if t' = t \<and> qid' = qid then Some q else map_of (msg_queues c t') qid')"
  by (simp add: set_queue_def update_lookup)

lemma queues_ok_set:
  assumes "queues_ok c" and "distinct (map fst q)"
  shows "queues_ok (set_queue t qid q c)"
  unfolding queues_ok_def
proof (intro allI conjI impI)
  fix t' qid' q'
  show "distinct (map fst (msg_queues (set_queue t qid q c) t'))"
    using assms by (simp add: queues_ok_def set_queue_def distinct_update)
  assume "map_of (msg_queues (set_queue t qid q c) t') qid' = Some q'"
  then have "q' = q \<or> map_of (msg_queues c t') qid' = Some q'"
    by (simp only: set_queue_lookup split: if_splits) simp_all
  then show "distinct (map fst q')" using assms unfolding queues_ok_def by blast
qed

lemma inv_set_queue:
  assumes inv: "client_inv c" and q: "distinct (map fst q)"
    and ent: "\<And>i m. map_of q i = Some m \<Longrightarrow> m_seq_no m = i \<and> length qid = 64 \<and> m_app_ack m < length (futs c)"
    and own: "\<And>i m w. map_of q i = Some m \<Longrightarrow> owned c w = Some (m_app_ack m) \<Longrightarrow> w = Entry (t, qid) i"
    and inj: "\<And>i j m n. map_of q i = Some m \<Longrightarrow> map_of q j = Some n \<Longrightarrow> m_app_ack m = m_app_ack n \<Longrightarrow> i = j"
  shows "client_inv (set_queue t qid q c)"
proof -
  let ?c = "set_queue t qid q c"
  have o: "(\<exists>i m. w = Entry (t, qid) i \<and> map_of q i = Some m \<and> m_app_ack m = f) \<or> owned c w = Some f"
    if "owned ?c w = Some f" for w f
    using that by (cases w) (auto simp: dict_simps owned.simps split: if_splits)
  have "queues_ok ?c" using inv q by (simp add: client_inv_def queues_ok_set)
  moreover have "entries_ok ?c"
    using inv ent by (auto simp: inv_defs dict_simps)
  moreover have "pids_ok ?c" using inv by (simp add: inv_defs)
  moreover have "owners_ok ?c"
    unfolding owners_ok_def
  proof (intro conjI allI impI)
    have lt: "f < length (futs c)" if "owned c w = Some f" for w f
      using inv that unfolding inv_defs by blast
    have eq: "w = w'" if "owned c w = Some f" "owned c w' = Some f" for w w' f
      using inv that unfolding inv_defs by blast
    fix w w' f
    assume w: "owned ?c w = Some f"
    then show "f < length (futs ?c)" using o [OF w] lt ent by auto
    assume w': "owned ?c w' = Some f"
    from o [OF w] o [OF w'] eq own inj show "w = w'" by metis
  qed
  ultimately show ?thesis by (simp add: client_inv_def)
qed

lemma put_meta_inv:
  assumes "m_seq_no m = i" and "length qid = 64"
  shows "valid (inv_with (m_app_ack m)) (put_meta t qid i m) (\<lambda>_. client_inv) client_inv"
proof (rule validI)
  fix c x c' assume inv: "inv_with (m_app_ack m) c" and run: "put_meta t qid i m c = (Inr x, c')"
  then obtain q where q: "map_of (msg_queues c t) qid = Some q"
    and c': "c' = set_queue t qid (AList.update i m q) c"
    by (auto simp: put_meta_def split: option.splits)
  have old: "find_meta c (t, qid) j = map_of q j" for j using q by (simp add: find_meta_alt)
  have ci: "client_inv c" and own: "\<And>w. owned c w \<noteq> Some (m_app_ack m)" and lt: "m_app_ack m < length (futs c)"
    using inv by (auto simp: inv_with_def)
  have ent: "m_seq_no n = j \<and> m_app_ack n < length (futs c) \<and> owned c (Entry (t, qid) j) = Some (m_app_ack n)"
    if "map_of q j = Some n" for j n
  proof -
    have f: "find_meta c (t, qid) j = Some n" using old that by simp
    then have o: "owned c (Entry (t, qid) j) = Some (m_app_ack n)" by (simp add: owned.simps)
    have "m_seq_no n = j" using ci f unfolding client_inv_def entries_ok_def by blast
    moreover have "m_app_ack n < length (futs c)" using ci o unfolding client_inv_def owners_ok_def by blast
    ultimately show ?thesis using o by blast
  qed
  have inj: "w = w'" if "owned c w = Some f" "owned c w' = Some f" for w w' f
    using ci that unfolding inv_defs by blast
  show "client_inv c'"
    unfolding c'
  proof (rule inv_set_queue [OF ci])
    show "distinct (map fst (AList.update i m q))"
      using ci q unfolding inv_defs by (simp add: distinct_update)
    show "m_seq_no n = j \<and> length qid = 64 \<and> m_app_ack n < length (futs c)"
      if "map_of (AList.update i m q) j = Some n" for j n
      using that ent assms lt by (auto simp: dict_simps split: if_splits)
    have entry: "owned c (Entry (t, qid) j) = Some (m_app_ack n)" if "map_of q j = Some n" for j n
      using ent [OF that] by blast
    show "w = Entry (t, qid) j"
      if n: "map_of (AList.update i m q) j = Some n" and w: "owned c w = Some (m_app_ack n)" for j n w
    proof (cases "j = i")
      case True
      with n w own show ?thesis by (simp add: update_lookup)
    next
      case False
      with n have "map_of q j = Some n" by (simp add: update_lookup)
      from inj [OF w entry [OF this]] show ?thesis .
    qed
    show "j = k" if n: "map_of (AList.update i m q) j = Some n" and l: "map_of (AList.update i m q) k = Some l"
      and same: "m_app_ack n = m_app_ack l" for j k n l
    proof (rule ccontr)
      assume ne: "j \<noteq> k"
      have "j \<noteq> i" and "k \<noteq> i"
        using n l same ne own entry by (auto simp: update_lookup split: if_splits) metis
      with n l have "map_of q j = Some n" "map_of q k = Some l" by (simp_all add: update_lookup)
      with inj [OF entry [of j n] entry [of k l, folded same]] ne show False by simp
    qed
  qed
qed (auto simp: put_meta_def inv_with_def split: option.splits)

lemma ensure_queue_inv: "client_inv c \<Longrightarrow> client_inv (ensure_queue t qid c)"
  by (auto simp: ensure_queue_def intro: inv_set_queue)

text \<open>Dropping: an owner less.\<close>

lemma inv_less_owners:
  assumes "client_inv c" and "queues_ok c'" and "pids_ok c'" and "length (futs c') = length (futs c)"
    and "\<And>k i m. find_meta c' k i = Some m \<Longrightarrow> find_meta c k i = Some m"
    and "\<And>w f. owned c' w = Some f \<Longrightarrow> owned c w = Some f"
  shows "client_inv c'"
  using assms unfolding client_inv_def entries_ok_def owners_ok_def by metis

lemma del_queue_sel [simp]:
  "futs (del_queue t qid c) = futs c" "packet_ids (del_queue t qid c) = packet_ids c"
  "packet_id (del_queue t qid c) = packet_id c"
  by (simp_all add: del_queue_def)

lemma queues_ok_del: "queues_ok c \<Longrightarrow> queues_ok (del_queue t qid c)"
  unfolding queues_ok_def del_queue_def
  by (auto simp: distinct_delete delete_lookup simp del: map_of_eq_Some_iff split: if_splits)

lemma del_queue_inv:
  assumes "client_inv c"
  shows "client_inv (del_queue t qid c)"
proof (rule inv_less_owners [OF assms])
  show "queues_ok (del_queue t qid c)" using assms by (simp add: client_inv_def queues_ok_del)
  show "pids_ok (del_queue t qid c)" using assms by (simp add: client_inv_def pids_ok_def)
  show "owned c w = Some f" if "owned (del_queue t qid c) w = Some f" for w f
    using that by (cases w) (auto simp: owned.simps dict_simps split: if_splits)
qed (auto simp: dict_simps split: if_splits)

lemma del_entry_inv:
  assumes "client_inv c"
  shows "client_inv (del_entry t qid i c)"
proof (cases "map_of (msg_queues c t) qid")
  case (Some q)
  have f: "find_meta (del_entry t qid i c) k j = (if k = (t, qid) \<and> j = i then None else find_meta c k j)" for k j
    using find_meta_entry_drop [of "(t, qid)" i c k j] by (simp add: entry_drop_def)
  show ?thesis
  proof (rule inv_less_owners [OF assms])
    have "distinct (map fst (AList.delete i q))"
      using assms Some unfolding inv_defs by (simp add: distinct_delete)
    then show "queues_ok (del_entry t qid i c)"
      using assms Some by (simp add: del_entry_def client_inv_def queues_ok_set)
    show "pids_ok (del_entry t qid i c)"
      using assms Some by (simp add: del_entry_def client_inv_def pids_ok_def)
    show "owned c w = Some g" if "owned (del_entry t qid i c) w = Some g" for w g
      using that f Some by (cases w) (auto simp: owned.simps split: if_splits, simp add: del_entry_def)
  qed (use f Some in \<open>auto simp: del_entry_def split: if_splits\<close>)
qed (simp add: del_entry_def assms)

lemma get_packet_id_inv: "client_inv c \<Longrightarrow> client_inv (snd (get_packet_id c))"
proof -
  assume inv: "client_inv c"
  obtain n where n: "snd (get_packet_id c) = c\<lparr>packet_id := n\<rparr>" "n = packet_id c \<or> 1 \<le> n \<and> n \<le> 65535"
    using gpid_loop_snd [of 0 c] by (auto simp: get_packet_id_def)
  show ?thesis
  proof (rule inv_less_owners [OF inv])
    show "owned c w = Some f" if "owned (snd (get_packet_id c)) w = Some f" for w f
      using that by (cases w) (simp_all add: owned.simps n)
  qed (use inv n in \<open>auto simp: inv_defs\<close>)
qed

lemma packet_ack_future_inv:
  assumes pt: "pt \<in> set ack_types"
  shows "keeps client_inv (packet_ack_future pt)"
proof (rule validI)
  fix c e c' assume "client_inv c" and "packet_ack_future pt c = (Inl e, c')"
  then show "client_inv c'"
    using get_packet_id_inv [of c]
    by (auto simp: packet_ack_future_def py_simps new_future_def split: prod.splits sum.splits)
next
  fix c x c' assume inv: "client_inv c" and run: "packet_ack_future pt c = (Inr x, c')"
  then obtain pid c1 where g: "get_packet_id c = (Inr pid, c1)"
    and c': "c' = c1\<lparr>futs := futs c1 @ [Pending],
        packet_ids := (packet_ids c1)(pt := AList.update pid (length (futs c1)) (packet_ids c1 pt))\<rparr>"
    by (auto simp: packet_ack_future_def py_simps new_future_def split: prod.splits sum.splits)
  from get_packet_id_Inr [OF g] obtain n where n: "n \<in> {1..65535}" "pid = pid_bytes n"
    and free: "\<not> in_flight c pid" and c1: "c1 = c\<lparr>packet_id := n\<rparr>" by auto
  have inv1: "client_inv c1" using get_packet_id_inv [OF inv] g by simp
  have none: "map_of (packet_ids c1 SUBACK) pid = None" "map_of (packet_ids c1 PUBACK) pid = None"
    using free by (auto simp: in_flight_def ack_types_def c1)
  have own: "owned c' w = (if w = Pid pt pid then Some (length (futs c1)) else owned c1 w)" for w
    by (cases w) (auto simp: c' owned.simps dict_simps)
  have "queues_ok c'" "entries_ok c'" using inv1 by (auto simp: inv_defs c')
  moreover have "pids_ok c'"
  proof -
    have ids: "map_of (packet_ids c' pt') pid' =
        (if pt' = pt \<and> pid' = pid then Some (length (futs c1)) else map_of (packet_ids c1 pt') pid')" for pt' pid'
      by (simp add: c' update_lookup)
    have old: "pids_ok c1" using inv1 by (simp add: client_inv_def)
    have pid: "pid \<in> pid_bytes ` {1..65535}" using n by blast
    have "distinct (map fst (packet_ids c' pt'))" for pt'
      using old by (simp add: c' pids_ok_def distinct_update)
    moreover have "packet_id c' = packet_id c1" by (simp add: c')
    moreover have "pt' \<in> set ack_types \<and> pid' \<in> pid_bytes ` {1..65535}"
      if "map_of (packet_ids c' pt') pid' = Some f" for pt' pid' f
    proof (cases "pt' = pt \<and> pid' = pid")
      case True
      with pt pid show ?thesis by simp
    next
      case False
      with that ids have "map_of (packet_ids c1 pt') pid' = Some f" by simp
      with old show ?thesis unfolding pids_ok_def by blast
    qed
    moreover have "map_of (packet_ids c' SUBACK) pid' = None \<or> map_of (packet_ids c' PUBACK) pid' = None" for pid'
      using old none unfolding pids_ok_def ids by (cases "pid' = pid") auto
    ultimately show ?thesis using old unfolding pids_ok_def by simp
  qed
  moreover have "owners_ok c'"
  proof -
    have lt: "f < length (futs c1)" if "owned c1 w = Some f" for w f
      using inv1 that unfolding inv_defs by blast
    have eq: "w = w'" if "owned c1 w = Some f" "owned c1 w' = Some f" for w w' f
      using inv1 that unfolding inv_defs by blast
    have len: "length (futs c') = Suc (length (futs c1))" by (simp add: c')
    show ?thesis
      unfolding owners_ok_def own len
      using lt eq by (metis less_Suc_eq nat_neq_iff option.inject)
  qed
  ultimately show "client_inv c'" by (simp add: client_inv_def)
qed

lemma pack_checks: "valid client_inv (pack L p) (\<lambda>_ c. client_inv c \<and> length (a_queue_id_hex p) = 64) client_inv"
proof (rule validI)
  show "client_inv c'" if "client_inv c" "pack L p c = (Inl e, c')" for c e c'
    using keeps_snd [OF local_keeps [OF local_pack] that(1), of L p] that(2) by simp
  show "client_inv c' \<and> length (a_queue_id_hex p) = 64" if "client_inv c" "pack L p c = (Inr x, c')" for c x c'
    using keeps_snd [OF local_keeps [OF local_pack] that(1), of L p] that(2) by (auto simp: pack_app split: if_splits)
qed

lemma pack_async_checks:
  "valid client_inv (pack_async L p) (\<lambda>_ c. client_inv c \<and> length (a_queue_id_hex p) = 64) client_inv"
proof (rule validI)
  show "client_inv c'" if "client_inv c" "pack_async L p c = (Inl e, c')" for c e c'
    using keeps_snd [OF local_keeps [OF local_pack_async] that(1), of L p] that(2) by simp
  show "client_inv c' \<and> length (a_queue_id_hex p) = 64" if "client_inv c" "pack_async L p c = (Inr x, c')" for c x c'
    using keeps_snd [OF local_keeps [OF local_pack_async] that(1), of L p] that(2)
    by (auto simp: pack_async_def py_simps split: if_splits)
qed

lemma keeps_ensure [inv_rules]: "keeps client_inv (py_modify (ensure_queue t qid))"
  by (rule keeps_modify) (rule ensure_queue_inv)

lemma oas_prepare_inv [inv_rules]: "keeps client_inv (oas_prepare L msg dest qid t seq)"
  unfolding oas_prepare_def by (intro inv_rules)

lemma future_then_put:
  assumes "\<And>f now. m_app_ack (m f now) = f \<and> m_seq_no (m f now) = i" and "length qid = 64"
    and "\<And>f now. keeps client_inv (k f now)"
  shows "keeps client_inv (py_bind new_future (\<lambda>f. py_bind (get_time L) (\<lambda>now.
    py_seq (put_meta t qid i (m f now)) (k f now))))"
proof (rule valid_bind [OF new_future_inv], rule valid_bind)
  fix f now
  show "valid (inv_with f) (get_time L) (\<lambda>_. inv_with f) client_inv"
    by (rule valid_weaken [OF local_keeps_with [OF local_get_time]]) (auto dest: inv_withD)
  show "valid (inv_with f) (py_seq (put_meta t qid i (m f now)) (k f now)) (\<lambda>_. client_inv) client_inv"
    using put_meta_inv [of "m f now" i qid t] assms by (intro valid_seq [OF _ assms(3)]) simp
qed

lemma oas_commit_inv: "length qid = 64 \<Longrightarrow> keeps client_inv (oas_commit L dest qid t seq out)"
  unfolding oas_commit_def by (intro inv_rules future_then_put) simp_all

lemma pack_then:
  assumes "\<And>out p'. length (a_queue_id_hex p) = 64 \<Longrightarrow> keeps client_inv (k out p')"
  shows "keeps client_inv (py_bind (pack L p) (\<lambda>(out, p'). k out p'))"
    and "keeps client_inv (py_bind (pack_async L p) (\<lambda>(out, p'). k out p'))"
  by (rule valid_bind [OF pack_checks] valid_bind [OF pack_async_checks], rule valid_case_prod,
      rule valid_assume, erule assms)+

lemma ordered_ack_send_inv [inv_rules]: "keeps client_inv (ordered_ack_send L msg dest qid t seq)"
  unfolding ordered_ack_send_def
  by (intro inv_rules pack_then oas_commit_inv) (simp add: AppPacket_def)

lemma ordered_ack_send_async_inv [inv_rules]: "keeps client_inv (ordered_ack_send_async L msg dest qid t seq)"
  unfolding ordered_ack_send_async_def
  by (intro inv_rules pack_then oas_commit_inv) (simp add: AppPacket_def)

lemma queue_msg_inv [inv_rules]: "keeps client_inv (queue_msg L msg dest qid t seq)"
  unfolding queue_msg_def by (intro inv_rules)

lemma queue_msg_async_inv [inv_rules]: "keeps client_inv (queue_msg_async L msg dest qid t seq)"
  unfolding queue_msg_async_def by (intro inv_rules)

lemma subscribe_inv [inv_rules]: "keeps client_inv (subscribe L topic)"
  unfolding subscribe_def by (intro inv_rules packet_ack_future_inv) (simp add: ack_types_def)

lemma publish_inv [inv_rules]: "keeps client_inv (publish L topic payload dup)"
  unfolding publish_def by (intro inv_rules packet_ack_future_inv) (simp add: ack_types_def)

lemma one_shot_then:
  assumes "\<And>m. keeps client_inv (k m)" and "length qid = 64"
  shows "keeps client_inv (py_bind (one_shot_meta L dest i out) (\<lambda>m. py_seq (put_meta t qid i m) (k m)))"
proof (rule valid_bind)
  show "valid client_inv (one_shot_meta L dest i out) (\<lambda>m c. inv_with (m_app_ack m) c \<and> m_seq_no m = i) client_inv"
    unfolding one_shot_meta_def
  proof (rule valid_bind [OF new_future_inv], rule valid_bind)
    fix f now
    show "valid (inv_with f) (get_time L) (\<lambda>_. inv_with f) client_inv"
      by (rule valid_weaken [OF local_keeps_with [OF local_get_time]]) (auto dest: inv_withD)
  qed (rule valid_pre [OF valid_return], simp)
  show "valid (\<lambda>c. inv_with (m_app_ack m) c \<and> m_seq_no m = i) (py_seq (put_meta t qid i m) (k m))
      (\<lambda>_. client_inv) client_inv" for m
    using put_meta_inv [of m i qid t] assms(2) by (intro valid_assume valid_seq [OF _ assms(1)]) simp
qed

lemma send_probe_inv [inv_rules]: "keeps client_inv (send_probe L dest qid)"
  unfolding send_probe_def Let_def
  by (intro inv_rules pack_then one_shot_then) (simp add: AppPacket_def)

lemma send_probe_ack_inv [inv_rules]: "keeps client_inv (send_probe_ack L dest qid seq)"
  unfolding send_probe_ack_def
  by (intro inv_rules pack_then one_shot_then) (simp add: AppPacket_def)

lemma dequeue_msg_inv [inv_rules]: "keeps client_inv (dequeue_msg qid seq t)"
proof (rule keepsI)
  fix c assume inv: "client_inv c"
  then have "client_inv (snd (set_result i FTrue c))" for i
    using keeps_snd [OF local_keeps [OF local_set_result]] by blast
  with inv show "client_inv (snd (dequeue_msg qid seq t c))"
    by (auto simp: dequeue_msg_def del_queue_inv split: option.split)
qed

lemma new_client_inv: "client_inv (new_client a d k)"
proof -
  have "owned (new_client a d k) w = None" for w
    by (cases w) (simp_all add: owned.simps find_meta_alt new_client_def)
  then show ?thesis
    by (simp add: inv_defs) (simp add: new_client_def find_meta_alt)
qed

lemma length_cancel [simp]: "length (cancel_futures is fs) = length fs"
  by (induction "is" arbitrary: fs) (auto simp: cancel_futures_def)

lemma reset_inv: "client_inv c \<Longrightarrow> client_inv (reset_session_state c)"
  and client_reset_inv: "client_inv c \<Longrightarrow> client_inv (client_reset_session_state c)"
proof -
  assume inv: "client_inv c"
  show "client_inv (reset_session_state c)"
  proof (rule inv_less_owners [OF inv])
    have q: "msg_queues (reset_session_state c) = msg_queues c" by (rule reset_session_fields)
    then show "queues_ok (reset_session_state c)" using inv by (simp add: client_inv_def queues_ok_def)
    have ids: "packet_ids (reset_session_state c) pt = (if pt \<in> set ack_types then [] else packet_ids c pt)" for pt
      by (simp add: reset_session_state_def reset_packet_type_def ack_types_def)
    have "packet_ids (reset_session_state c) pt = [] \<or> packet_ids (reset_session_state c) pt = packet_ids c pt" for pt
      by (simp add: ids)
    moreover have "pids_ok c" using inv by (simp add: client_inv_def)
    ultimately show "pids_ok (reset_session_state c)"
      unfolding pids_ok_def reset_session_fields by (metis distinct.simps(1) list.map(1) map_of.simps(1)
          option.distinct(1) order_refl zero_le_numeral)
    show "length (futs (reset_session_state c)) = length (futs c)" by (simp add: futs_reset)
    show f: "find_meta c k i = Some m" if "find_meta (reset_session_state c) k i = Some m" for k i m
      using that by (simp add: find_meta_alt q)
    show "owned c w = Some g" if "owned (reset_session_state c) w = Some g" for w g
      using that f by (cases w) (auto simp: owned.simps ids split: if_splits)
  qed
  show "client_inv (client_reset_session_state c)"
  proof (rule inv_less_owners [OF inv])
    show "owned c w = Some g" if "owned (client_reset_session_state c) w = Some g" for w g
      using that by (cases w) (auto simp: owned.simps client_reset_session_state_def find_meta_alt)
  qed (use inv in \<open>simp_all add: client_reset_session_state_def inv_defs find_meta_alt\<close>)
qed

lemma prune_inv: "client_inv c \<Longrightarrow> client_inv (prune_msg_ids now c)"
  by (erule client_inv_core [THEN iffD1, rotated]) (simp add: core_def prune_msg_ids_def Let_def)

end
