(* ===== verification/App_Proto.thy ===== *)
theory App_Proto
  imports Client_Ops
begin

text \<open>
  What the client does with an authenticated application packet (\<open>mqtt/app_proto.py\<close>): a
  message goes to the application's handlers and is acknowledged, a probe is acknowledged
  without calling a handler, an acknowledgement resolves the future of the message it is for.
\<close>

section \<open>Messages\<close>

text \<open>
  \<open>await async_wrap_errors(msg_handler(...))\<close>. The call is recorded; what it raises is the
  environment's choice, and the wrapper logs and swallows it.
\<close>

definition run_handler :: "lib \<Rightarrow> pyval \<Rightarrow> string \<Rightarrow> string \<Rightarrow> nat \<Rightarrow> (client, unit) py" where
  "run_handler L msg src_pk queue_id msg_handler = async_wrap_errors L (\<lambda>c.
     (case handler_exn L (length (trace c)) of None \<Rightarrow> Inr () | Some e \<Rightarrow> Inl e,
      c\<lparr>trace := trace c @ [Handled msg_handler msg src_pk queue_id]\<rparr>))"

text \<open>\<open>await async_wrap_errors(client.pipe.send(out))\<close>: the attribute lookup is outside the wrapper.\<close>

definition wrapped_send :: "lib \<Rightarrow> bytes \<Rightarrow> (client, unit) py" where
  "wrapped_send L out =
     py_bind (py_get pipe) (\<lambda>p.
     py_seq (py_check (p \<noteq> None) OtherError) (async_wrap_errors L (pipe_send L out)))"

text \<open>\<open>for old_seq in list(ack_queue.keys()): if old_seq < seq_no: del ack_queue[old_seq]\<close>\<close>

fun drop_old :: "int \<Rightarrow> int list \<Rightarrow> queue \<Rightarrow> queue" where
  "drop_old seq_no [] ack_queue = ack_queue"
| "drop_old seq_no (old_seq # ks) ack_queue =
     drop_old seq_no ks (if old_seq < seq_no then AList.delete old_seq ack_queue else ack_queue)"

definition drop_old_acks :: "string \<Rightarrow> int \<Rightarrow> client \<Rightarrow> client" where
  "drop_old_acks queue_id seq_no c = (case map_of (msg_queues c MSGACK) queue_id of
     None \<Rightarrow> c
   | Some ack_queue \<Rightarrow> set_queue MSGACK queue_id (drop_old seq_no (map fst ack_queue) ack_queue) c)"

text \<open>The acknowledgement that is queued already, if there is one, is sent again.\<close>

definition resend_ack :: "lib \<Rightarrow> string \<Rightarrow> int \<Rightarrow> (client, bool) py" where
  "resend_ack L queue_id seq_no =
     py_seq (py_modify (drop_old_acks queue_id seq_no))
     (py_bind (py_get (\<lambda>c. find_meta c (MSGACK, queue_id) seq_no)) (\<lambda>found.
      case found of
        None \<Rightarrow> py_return False
      | Some meta \<Rightarrow>
          py_bind (publish L (m_dest_pk_hex meta) (PyBytes (m_out meta)) False) (\<lambda>(out, _).
          py_seq (wrapped_send L out) (py_return True))))"

text \<open>Handlers are called for a message whose hash is not known; the hash is noted first.\<close>

definition deliver :: "lib \<Rightarrow> pyval \<Rightarrow> string \<Rightarrow> string \<Rightarrow> (client, unit) py" where
  "deliver L msg src_pk queue_id =
     py_bind (py_lift (to_b L msg)) (\<lambda>b.
     let msg_hash = sha256_hex_async L b in
     py_bind (py_get (\<lambda>c. map_of (recv_msg_ids c) msg_hash)) (\<lambda>known.
     py_when (known = None)
       (py_bind (get_time L) (\<lambda>t.
        py_seq (py_modify (\<lambda>c. c\<lparr>recv_msg_ids := AList.update msg_hash t (recv_msg_ids c)\<rparr>))
        (py_bind (py_get msg_handlers) (\<lambda>hs.
         py_for hs (run_handler L msg src_pk queue_id)))))))"

definition enqueue_ack :: "lib \<Rightarrow> string \<Rightarrow> string \<Rightarrow> int \<Rightarrow> (client, unit) py" where
  "enqueue_ack L src_pk queue_id seq_no =
     py_except
       (py_bind (queue_msg_async L (PyStr ''ack'') src_pk (Some queue_id) MSGACK (Some seq_no)) (\<lambda>_. py_return ()))
       (\<lambda>e. is_ValueError e \<or> e = KeyError)
       (py_return ())"

definition process_app_msg :: "lib \<Rightarrow> app_packet \<Rightarrow> (client, unit) py" where
  "process_app_msg L app_packet =
     (let seq_no = a_seq_no app_packet;
          queue_id = a_queue_id_hex app_packet;
          src_pk = a_src_pk_hex app_packet;
          msg = a_msg app_packet
      in py_bind (resend_ack L queue_id seq_no) (\<lambda>acked.
         if acked then py_return ()
         else py_seq (deliver L msg src_pk queue_id) (enqueue_ack L src_pk queue_id seq_no)))"

section \<open>Probes and acknowledgements\<close>

definition process_app_probe :: "lib \<Rightarrow> app_packet \<Rightarrow> (client, unit) py" where
  "process_app_probe L app_packet =
     py_bind (py_get (\<lambda>c. get_msg_from_queue c (a_queue_id_hex app_packet) (a_seq_no app_packet) MSGACK)) (\<lambda>found_msg.
     if found_msg \<noteq> None then py_return ()
     else py_except
       (send_probe_ack L (a_src_pk_hex app_packet) (a_queue_id_hex app_packet) (a_seq_no app_packet))
       (\<lambda>e. is_ValueError e \<or> e = KeyError \<or> is_OSError e)
       (py_return ()))"

text \<open>A resolved probe leaves its queue, and an empty queue leaves the table.\<close>

definition forget_probe :: "msg_enum \<Rightarrow> string \<Rightarrow> int \<Rightarrow> client \<Rightarrow> client" where
  "forget_probe msg_type queue_id seq_no c =
     (let c' = del_entry msg_type queue_id seq_no c
      in if map_of (msg_queues c' msg_type) queue_id = Some [] then del_queue msg_type queue_id c' else c')"

fun ack_loop :: "msg_enum list \<Rightarrow> string \<Rightarrow> int \<Rightarrow> string \<Rightarrow> (client, unit) py" where
  "ack_loop [] queue_id seq_no src_pk = py_return ()"
| "ack_loop (msg_type # ts) queue_id seq_no src_pk =
     py_bind (py_get (\<lambda>c. find_meta c (msg_type, queue_id) seq_no)) (\<lambda>found.
     case found of
       None \<Rightarrow> ack_loop ts queue_id seq_no src_pk
     | Some msg_meta \<Rightarrow>
         if m_dest_pk_hex msg_meta \<noteq> src_pk then ack_loop ts queue_id seq_no src_pk
         else py_bind (py_get (future_done (m_app_ack msg_meta))) (\<lambda>finished.
           if finished then py_return ()
           else py_seq (set_result (m_app_ack msg_meta) FTrue)
             (py_when (m_probe_one_shot msg_meta) (py_modify (forget_probe msg_type queue_id seq_no)))))"

definition process_app_ack :: "app_packet \<Rightarrow> (client, unit) py" where
  "process_app_ack app_packet =
     ack_loop [MSG, PROBE] (a_queue_id_hex app_packet) (a_seq_no app_packet) (a_src_pk_hex app_packet)"

end
