(* ===== verification/Mqtt_Proto.thy ===== *)
theory Mqtt_Proto
  imports App_Proto
begin

text \<open>
  The handling of a complete control packet (\<open>mqtt/mqtt_proto.py\<close>): broker acknowledgements
  resolve and free their packet id, a PUBLISH is acknowledged, authenticated and routed by
  its message type, everything else is ignored.
\<close>

definition handle_broker_ack :: "mqtt_packet \<Rightarrow> (client, unit) py" where
  "handle_broker_ack packet =
     (let pid = take 2 (p_body packet) in
      py_bind (py_get (\<lambda>c. map_of (packet_ids c (p_type packet)) pid)) (\<lambda>found.
      case found of
        None \<Rightarrow> py_return ()
      | Some ack_future \<Rightarrow>
          py_bind (py_get (future_done ack_future)) (\<lambda>finished.
          if finished then py_return ()
          else py_seq (set_result ack_future
                 (if p_type packet = SUBACK then FBytes (drop 2 (p_body packet)) else FTrue))
            (py_modify (\<lambda>c. c\<lparr>packet_ids := (packet_ids c)
               (p_type packet := AList.delete pid (packet_ids c (p_type packet)))\<rparr>)))))"

text \<open>
  \<open>if packet_id: await client.pipe.send(build_puback(packet_id))\<close>; a packet id read from a
  PUBLISH has two bytes, so it is true when it is there.
\<close>

definition send_puback :: "lib \<Rightarrow> bytes option \<Rightarrow> (client, unit) py" where
  "send_puback L found = (case found of
     None \<Rightarrow> py_return ()
   | Some pid \<Rightarrow> py_when (pid \<noteq> []) (pipe_send L (build_puback pid)))"

text \<open>The age check of a message; the log line of a message too old reads the clock again.\<close>

definition too_old :: "lib \<Rightarrow> app_packet \<Rightarrow> (client, bool) py" where
  "too_old L app_packet =
     (if a_msg_type app_packet \<noteq> msg_val MSG then py_return False
      else
        py_bind (py_get republish_duration) (\<lambda>d.
        py_bind (get_time L) (\<lambda>now.
        let max_age = 2 * d; elapsed = py_int now - the (a_timestamp app_packet) in
        if elapsed > max_age then py_bind (get_time L) (\<lambda>_. py_return True)
        else py_return False)))"

definition route :: "lib \<Rightarrow> app_packet \<Rightarrow> (client, unit) py" where
  "route L app_packet =
     (if a_msg_type app_packet = msg_val MSG then process_app_msg L app_packet
      else if a_msg_type app_packet = msg_val MSGACK then process_app_ack app_packet
      else if a_msg_type app_packet = msg_val PROBE then process_app_probe L app_packet
      else py_return ())"

definition handle_publish :: "lib \<Rightarrow> mqtt_packet \<Rightarrow> (client, unit) py" where
  "handle_publish L packet =
     py_bind (py_lift (mqtt_parse_publish L packet)) (\<lambda>parsed.
     case parsed of
       None \<Rightarrow> py_return ()
     | Some (topic, payload, pid) \<Rightarrow>
         py_seq (send_puback L pid)
         (py_bind (py_lift (h_to_b L topic)) (\<lambda>t.
          py_bind (py_get (\<lambda>c. compact_public_key (kp c))) (\<lambda>own.
          if t \<noteq> own then py_return ()
          else
            py_bind (py_lift (unpack_async L payload)) (\<lambda>unpacked.
            case unpacked of
              None \<Rightarrow> py_return ()
            | Some app_packet \<Rightarrow>
                py_bind (too_old L app_packet) (\<lambda>old.
                if old then py_return () else route L app_packet))))))"

text \<open>\<open>MQTTClient.ping_handler\<close>, which may be overridden, and by default does nothing.\<close>

definition ping_handler :: "(client, unit) py" where
  "ping_handler = py_return ()"

definition handle_mqtt_packet :: "lib \<Rightarrow> mqtt_packet \<Rightarrow> (client, unit) py" where
  "handle_mqtt_packet L packet =
     (if p_type packet \<in> {PUBACK, SUBACK} then handle_broker_ack packet
      else if p_type packet = PUBLISH then handle_publish L packet
      else if p_type packet = PINGRESP then ping_handler
      else py_return ())"

lemma handle_mqtt_packet_alt:
  "handle_mqtt_packet L packet =
     (if p_type packet \<in> {PUBACK, SUBACK} then handle_broker_ack packet
      else if p_type packet = PUBLISH then handle_publish L packet
      else py_return ())"
  by (simp add: handle_mqtt_packet_def ping_handler_def)

end
