(* ===== verification/Client_Frame.thy ===== *)
theory Client_Frame
  imports Client_Inv Mqtt_Proto
begin

text \<open>
  What the client's operations leave alone, one family of facts each: no operation reads or
  writes the stream buffer (\<open>unbuffered\<close>), none but the delivery of a message calls a handler
  (\<open>quiet\<close>), and the handling of a packet keeps the invariant of \<open>Client_Inv\<close>.
\<close>

section \<open>The stream buffer\<close>

definition set_buf :: "bytes \<Rightarrow> client \<Rightarrow> client" where
  "set_buf b c = c\<lparr>buf := b\<rparr>"

abbreviation unbuffered :: "(client, 'a) py \<Rightarrow> bool" where
  "unbuffered m \<equiv> \<forall>b. commutes (set_buf b) m"

lemma set_buf_sel [simp]:
  "buf (set_buf b c) = b" "set_buf b' (set_buf b c) = set_buf b' c" "set_buf (buf c) c = c"
  "kp (set_buf b c) = kp c" "msg_handlers (set_buf b c) = msg_handlers c" "pipe (set_buf b c) = pipe c"
  "msg_queues (set_buf b c) = msg_queues c" "sent_msg_ids (set_buf b c) = sent_msg_ids c"
  "recv_msg_ids (set_buf b c) = recv_msg_ids c" "packet_ids (set_buf b c) = packet_ids c"
  "futs (set_buf b c) = futs c" "republish_duration (set_buf b c) = republish_duration c"
  "trace (set_buf b c) = trace c" "packet_id (set_buf b c) = packet_id c"
  "ticks (set_buf b c) = ticks c" "draws (set_buf b c) = draws c"
  "pipe_open (set_buf b c) = pipe_open c" "find_meta (set_buf b c) = find_meta c"
  "get_msg_from_queue (set_buf b c) = get_msg_from_queue c"
  "future_done i (set_buf b c) = future_done i c" "in_flight (set_buf b c) = in_flight c"
  by (simp_all add: set_buf_def pipe_open_def find_meta_def get_msg_from_queue_def future_done_def
      in_flight_def fun_eq_iff split: option.split)

lemma unbuffered_get_time [commutes_rules]: "commutes (set_buf b) (get_time L)"
  and unbuffered_draw [commutes_rules]: "commutes (set_buf b) (draw L n)"
  and unbuffered_pipe_send [commutes_rules]: "commutes (set_buf b) (pipe_send L x)"
  and unbuffered_set_result [commutes_rules]: "commutes (set_buf b) (set_result i v)"
  and unbuffered_sign_with [commutes_rules]: "commutes (set_buf b) (sign_with sg s)"
  and unbuffered_get_queue [commutes_rules]: "commutes (set_buf b) (get_queue t qid)"
  and unbuffered_put_meta [commutes_rules]: "commutes (set_buf b) (put_meta t qid k m)"
  and unbuffered_new_future [commutes_rules]: "commutes (set_buf b) new_future"
  by (rule commutesI, simp add: get_time_def draw_def pipe_send_def set_result_def sign_with_def
      get_queue_def put_meta_def set_queue_def new_future_def future_done_def set_buf_def split: option.split)+

lemma unbuffered_gpid: "gpid_loop i (set_buf b c) = (fst (gpid_loop i c), set_buf b (snd (gpid_loop i c)))"
proof (induction "65535 - i" arbitrary: i c)
  case 0
  then show ?case by (simp add: gpid_stop)
next
  case (Suc k)
  then have i: "i < 65535" and "k = 65535 - (i + 1)" by simp_all
  have swap: "(set_buf b c)\<lparr>packet_id := n\<rparr> = set_buf b (c\<lparr>packet_id := n\<rparr>)" for n by (simp add: set_buf_def)
  show ?case
    using Suc.hyps(1) [OF \<open>k = 65535 - (i + 1)\<close>] by (simp add: gpid_step [OF i] Let_def swap)
qed

lemma unbuffered_get_packet_id [commutes_rules]: "commutes (set_buf b) get_packet_id"
  unfolding get_packet_id_def by (rule commutesI) (rule unbuffered_gpid)

lemma unbuffered_packet_ack_future [commutes_rules]: "commutes (set_buf b) (packet_ack_future pt)"
  unfolding packet_ack_future_def by (intro commutes_rules) (simp add: set_buf_def)

lemma ensure_queue_buf [simp]: "ensure_queue t qid (set_buf b c) = set_buf b (ensure_queue t qid c)"
  by (simp add: ensure_queue_def set_queue_def set_buf_def)

lemma drop_old_acks_buf [simp]: "drop_old_acks qid i (set_buf b c) = set_buf b (drop_old_acks qid i c)"
  by (simp add: drop_old_acks_def set_queue_def set_buf_def split: option.split)

lemma unbuffered_note_sent [commutes_rules]: "commutes (set_buf b) (note_sent L msg)"
  unfolding note_sent_def Let_def by (intro commutes_rules) (simp_all add: set_buf_def)

lemma unbuffered_stamp [commutes_rules]: "commutes (set_buf b) (stamp L p)"
  unfolding stamp_def by (intro commutes_rules)

lemma unbuffered_pack [commutes_rules]: "commutes (set_buf b) (pack L p)"
  unfolding pack_def by (intro commutes_rules) simp

lemma unbuffered_pack_async [commutes_rules]: "commutes (set_buf b) (pack_async L p)"
  unfolding pack_async_def Let_def by (intro commutes_rules) simp

lemma unbuffered_oas_prepare [commutes_rules]: "commutes (set_buf b) (oas_prepare L msg dest qid t seq)"
  unfolding oas_prepare_def by (intro commutes_rules) simp

lemma unbuffered_oas_commit [commutes_rules]: "commutes (set_buf b) (oas_commit L dest qid t seq out)"
  unfolding oas_commit_def by (intro commutes_rules)

lemma unbuffered_send [commutes_rules]: "commutes (set_buf b) (ordered_ack_send L msg dest qid t seq)"
  unfolding ordered_ack_send_def by (intro commutes_rules)

lemma unbuffered_send_async [commutes_rules]: "commutes (set_buf b) (ordered_ack_send_async L msg dest qid t seq)"
  unfolding ordered_ack_send_async_def by (intro commutes_rules)

lemma unbuffered_queue_id [commutes_rules]: "commutes (set_buf b) (queue_id_or_random L q)"
  unfolding queue_id_or_random_def by (cases q rule: option.exhaust) (auto intro: commutes_rules split: list.split)

lemma unbuffered_touch [commutes_rules]: "commutes (set_buf b) (touch_last_send L)"
  unfolding touch_last_send_def by (intro commutes_rules) (simp add: set_buf_def)

lemma unbuffered_queue_msg_async [commutes_rules]: "commutes (set_buf b) (queue_msg_async L msg dest q t seq)"
  unfolding queue_msg_async_def by (intro commutes_rules)

lemma unbuffered_publish [commutes_rules]: "commutes (set_buf b) (publish L topic payload dup)"
  unfolding publish_def by (intro commutes_rules)

lemma unbuffered_send_if_open [commutes_rules]: "commutes (set_buf b) (send_if_open L x)"
  unfolding send_if_open_def by (intro commutes_rules) simp

lemma unbuffered_probe_ack [commutes_rules]: "commutes (set_buf b) (send_probe_ack L dest qid seq)"
  unfolding send_probe_ack_def one_shot_meta_def by (intro commutes_rules) simp

lemma unbuffered_wrap [commutes_rules]: "commutes (set_buf b) m \<Longrightarrow> commutes (set_buf b) (async_wrap_errors L m)"
  unfolding async_wrap_errors_def by (intro commutes_rules)

lemma unbuffered_run_handler [commutes_rules]: "commutes (set_buf b) (run_handler L msg src qid h)"
  unfolding run_handler_def by (intro commutes_rules commutesI) (simp add: set_buf_def)

lemma unbuffered_wrapped_send [commutes_rules]: "commutes (set_buf b) (wrapped_send L out)"
  unfolding wrapped_send_def by (intro commutes_rules) simp

lemma unbuffered_resend_ack [commutes_rules]: "commutes (set_buf b) (resend_ack L qid seq)"
  unfolding resend_ack_def
  by (intro commutes_rules) simp_all

lemma unbuffered_deliver [commutes_rules]: "commutes (set_buf b) (deliver L msg src qid)"
  unfolding deliver_def Let_def by (intro commutes_rules) (simp_all add: set_buf_def)

lemma unbuffered_process_app_msg [commutes_rules]: "commutes (set_buf b) (process_app_msg L p)"
  unfolding process_app_msg_def enqueue_ack_def Let_def by (intro commutes_rules)

lemma unbuffered_process_app_probe [commutes_rules]: "commutes (set_buf b) (process_app_probe L p)"
  unfolding process_app_probe_def by (intro commutes_rules) simp

lemma forget_probe_buf: "forget_probe t qid i (set_buf b c) = set_buf b (forget_probe t qid i c)"
  by (simp add: forget_probe_def Let_def del_entry_def del_queue_def set_queue_def set_buf_def split: option.split)

lemma unbuffered_ack_loop [commutes_rules]: "commutes (set_buf b) (ack_loop ts qid seq src)"
  by (induction ts) (auto intro!: commutes_rules simp: forget_probe_buf)

lemma unbuffered_process_app_ack [commutes_rules]: "commutes (set_buf b) (process_app_ack p)"
  unfolding process_app_ack_def by (intro commutes_rules)

lemma unbuffered_broker_ack [commutes_rules]: "commutes (set_buf b) (handle_broker_ack p)"
  unfolding handle_broker_ack_def Let_def by (intro commutes_rules) (simp_all add: set_buf_def future_done_def)

lemma unbuffered_publish_in [commutes_rules]: "commutes (set_buf b) (handle_publish L p)"
  unfolding handle_publish_def send_puback_def too_old_def route_def Let_def
  by (intro commutes_rules) simp_all

lemma unbuffered_handle: "unbuffered (handle_mqtt_packet L p)"
  unfolding handle_mqtt_packet_alt by (intro allI commutes_rules)

section \<open>The handlers and the messages seen\<close>

definition handled :: "client \<Rightarrow> event list" where
  "handled c = filter (\<lambda>e. case e of Handled _ _ _ _ \<Rightarrow> True | _ \<Rightarrow> False) (trace c)"

text \<open>What the delivery of a message reads and writes: the calls made, the hashes, the handlers.\<close>

definition inbox :: "client \<Rightarrow> event list \<times> (string \<times> real) list \<times> nat list" where
  "inbox c = (handled c, recv_msg_ids c, msg_handlers c)"

abbreviation quiet :: "(client, 'a) py \<Rightarrow> bool" where
  "quiet \<equiv> leaves inbox"

lemma quiet_get_time [leaves_rules]: "quiet (get_time L)"
  and quiet_draw [leaves_rules]: "quiet (draw L n)"
  and quiet_pipe_send [leaves_rules]: "quiet (pipe_send L x)"
  and quiet_set_result [leaves_rules]: "quiet (set_result i v)"
  and quiet_sign_with [leaves_rules]: "quiet (sign_with sg s)"
  and quiet_get_queue [leaves_rules]: "quiet (get_queue t qid)"
  and quiet_put_meta [leaves_rules]: "quiet (put_meta t qid k m)"
  and quiet_new_future [leaves_rules]: "quiet new_future"
  and quiet_set_queue [leaves_rules]: "quiet (py_modify (set_queue t qid q))"
  and quiet_ensure [leaves_rules]: "quiet (py_modify (ensure_queue t qid))"
  and quiet_drop_old [leaves_rules]: "quiet (py_modify (drop_old_acks qid k))"
  and quiet_forget [leaves_rules]: "quiet (py_modify (forget_probe t qid k))"
  and quiet_sent [leaves_rules]: "quiet (py_modify (\<lambda>c. c\<lparr>sent_msg_ids := h1 c\<rparr>))"
  and quiet_ids [leaves_rules]: "quiet (py_modify (\<lambda>c. c\<lparr>packet_ids := h2 c\<rparr>))"
  and quiet_last_send [leaves_rules]: "quiet (py_modify (\<lambda>c. c\<lparr>last_send := u\<rparr>))"
  by (rule leavesI, simp add: get_time_def draw_def pipe_send_def set_result_def sign_with_def
      get_queue_def put_meta_def set_queue_def new_future_def ensure_queue_def drop_old_acks_def
      forget_probe_def Let_def del_entry_def del_queue_def inbox_def handled_def py_simps split: option.split)+

lemma quiet_get_packet_id [leaves_rules]: "quiet get_packet_id"
proof (rule leavesI)
  fix c obtain n where "snd (get_packet_id c) = c\<lparr>packet_id := n\<rparr>"
    using gpid_loop_snd [of 0 c] by (auto simp: get_packet_id_def)
  then show "inbox (snd (get_packet_id c)) = inbox c" by (simp add: inbox_def handled_def)
qed

lemma quiet_packet_ack_future [leaves_rules]: "quiet (packet_ack_future pt)"
  unfolding packet_ack_future_def by (intro leaves_rules)

lemma quiet_note_sent [leaves_rules]: "quiet (note_sent L msg)"
  unfolding note_sent_def Let_def by (intro leaves_rules)

lemma quiet_stamp [leaves_rules]: "quiet (stamp L p)"
  unfolding stamp_def by (intro leaves_rules)

lemma quiet_pack [leaves_rules]: "quiet (pack L p)"
  unfolding pack_def by (intro leaves_rules)

lemma quiet_pack_async [leaves_rules]: "quiet (pack_async L p)"
  unfolding pack_async_def Let_def by (intro leaves_rules)

lemma quiet_oas_prepare [leaves_rules]: "quiet (oas_prepare L msg dest qid t seq)"
  unfolding oas_prepare_def by (intro leaves_rules)

lemma quiet_oas_commit [leaves_rules]: "quiet (oas_commit L dest qid t k out)"
  unfolding oas_commit_def by (intro leaves_rules)

lemma quiet_queue_id [leaves_rules]: "quiet (queue_id_or_random L q)"
  unfolding queue_id_or_random_def by (cases q rule: option.exhaust) (auto intro: leaves_rules split: list.split)

lemma quiet_touch [leaves_rules]: "quiet (touch_last_send L)"
  unfolding touch_last_send_def by (intro leaves_rules)

lemma quiet_queue_msg [leaves_rules]: "quiet (queue_msg L msg dest q t seq)"
  unfolding queue_msg_def ordered_ack_send_def by (intro leaves_rules)

lemma quiet_queue_msg_async [leaves_rules]: "quiet (queue_msg_async L msg dest q t seq)"
  unfolding queue_msg_async_def ordered_ack_send_async_def by (intro leaves_rules)

lemma quiet_publish [leaves_rules]: "quiet (publish L topic payload dup)"
  unfolding publish_def by (intro leaves_rules)

lemma quiet_subscribe [leaves_rules]: "quiet (subscribe L topic)"
  unfolding subscribe_def by (intro leaves_rules)

lemma quiet_send_if_open [leaves_rules]: "quiet (send_if_open L x)"
  unfolding send_if_open_def by (intro leaves_rules)

lemma quiet_send_probe [leaves_rules]: "quiet (send_probe L dest q)"
  unfolding send_probe_def one_shot_meta_def Let_def by (intro leaves_rules)

lemma quiet_probe_ack [leaves_rules]: "quiet (send_probe_ack L dest qid k)"
  unfolding send_probe_ack_def one_shot_meta_def by (intro leaves_rules)

lemma quiet_wrap [leaves_rules]: "leaves f m \<Longrightarrow> leaves f (async_wrap_errors L m)"
  unfolding async_wrap_errors_def by (intro leaves_rules)

lemma quiet_wrapped_send [leaves_rules]: "quiet (wrapped_send L out)"
  unfolding wrapped_send_def by (intro leaves_rules)

lemma quiet_resend_ack [leaves_rules]: "quiet (resend_ack L qid k)"
  unfolding resend_ack_def by (intro leaves_rules)

lemma quiet_enqueue_ack [leaves_rules]: "quiet (enqueue_ack L src qid k)"
  unfolding enqueue_ack_def by (intro leaves_rules)

lemma quiet_probe_in [leaves_rules]: "quiet (process_app_probe L p)"
  unfolding process_app_probe_def by (intro leaves_rules)

lemma quiet_ack_loop [leaves_rules]: "quiet (ack_loop ts qid k src)"
  by (induction ts) (auto intro!: leaves_rules)

lemma quiet_ack_in [leaves_rules]: "quiet (process_app_ack p)"
  unfolding process_app_ack_def by (intro leaves_rules)

lemma quiet_broker_ack [leaves_rules]: "quiet (handle_broker_ack p)"
  unfolding handle_broker_ack_def Let_def by (intro leaves_rules)

lemma quiet_send_puback [leaves_rules]: "quiet (send_puback L pid)"
  unfolding send_puback_def by (intro leaves_rules)

lemma quiet_too_old [leaves_rules]: "quiet (too_old L p)"
  unfolding too_old_def Let_def by (intro leaves_rules)

section \<open>The invariant\<close>

lemma local_run_handler [leaves_rules]: "local (run_handler L msg src qid h)"
  unfolding run_handler_def by (intro leaves_rules leavesI) (simp add: core_def)

lemma local_wrapped_send [leaves_rules]: "local (wrapped_send L out)"
  unfolding wrapped_send_def by (intro leaves_rules)

lemma local_deliver [leaves_rules]: "local (deliver L msg src qid)"
  unfolding deliver_def Let_def by (intro leaves_rules)

lemma local_send_puback [leaves_rules]: "local (send_puback L pid)"
  unfolding send_puback_def by (intro leaves_rules)

lemma local_too_old [leaves_rules]: "local (too_old L p)"
  unfolding too_old_def Let_def by (intro leaves_rules)

lemma inv_drop_old: "client_inv c \<Longrightarrow> client_inv (drop_old_acks qid k c)"
proof -
  have "client_inv (set_queue MSGACK qid (drop_old k ks q) c)"
    if "client_inv (set_queue MSGACK qid q c)" for ks q
    using that
  proof (induction ks arbitrary: q)
    case (Cons i ks)
    have "set_queue MSGACK qid (AList.delete i q) c = del_entry MSGACK qid i (set_queue MSGACK qid q c)"
      by (simp add: del_entry_def set_queue_lookup) (simp add: set_queue_def)
    then have "client_inv (set_queue MSGACK qid (AList.delete i q) c)"
      using del_entry_inv [OF Cons.prems] by simp
    then show ?case using Cons by simp
  qed simp
  moreover have "set_queue MSGACK qid q c = c" if "map_of (msg_queues c MSGACK) qid = Some q" for q
    using that by (simp add: set_queue_def update_triv)
  ultimately show "client_inv c \<Longrightarrow> client_inv (drop_old_acks qid k c)"
    by (simp add: drop_old_acks_def split: option.split)
qed

lemma keeps_drop_old [inv_rules]: "keeps client_inv (py_modify (drop_old_acks qid k))"
  by (rule keeps_modify) (rule inv_drop_old)

lemma keeps_forget [inv_rules]: "keeps client_inv (py_modify (forget_probe t qid k))"
  by (rule keeps_modify) (simp add: forget_probe_def Let_def del_entry_inv del_queue_inv)

lemma publish_keeps [inv_rules]: "keeps client_inv (async_wrap_errors L m)" if "keeps client_inv m"
  unfolding async_wrap_errors_def using that by (intro inv_rules)

lemma keeps_resend_ack [inv_rules]: "keeps client_inv (resend_ack L qid k)"
  unfolding resend_ack_def by (intro inv_rules local_keeps [OF local_wrapped_send])

lemma keeps_process_app_msg [inv_rules]: "keeps client_inv (process_app_msg L p)"
  unfolding process_app_msg_def enqueue_ack_def Let_def
  by (intro inv_rules local_keeps [OF local_deliver])

lemma keeps_process_app_probe [inv_rules]: "keeps client_inv (process_app_probe L p)"
  unfolding process_app_probe_def by (intro inv_rules)

lemma keeps_ack_loop [inv_rules]: "keeps client_inv (ack_loop ts qid k src)"
  by (induction ts) (auto intro!: inv_rules)

lemma keeps_process_app_ack [inv_rules]: "keeps client_inv (process_app_ack p)"
  unfolding process_app_ack_def by (intro inv_rules)

definition free_pid :: "mqtt_enum \<Rightarrow> bytes \<Rightarrow> client \<Rightarrow> client" where
  "free_pid pt pid c = c\<lparr>packet_ids := (packet_ids c)(pt := AList.delete pid (packet_ids c pt))\<rparr>"

lemma inv_free_pid:
  assumes inv: "client_inv c"
  shows "client_inv (free_pid pt pid c)"
proof (rule inv_less_owners [OF inv])
  have ids: "map_of (packet_ids (free_pid pt pid c) pt') pid' =
      (if pt' = pt \<and> pid' = pid then None else map_of (packet_ids c pt') pid')" for pt' pid'
    by (simp add: free_pid_def delete_lookup)
  show "pids_ok (free_pid pt pid c)"
  proof -
    have old: "pids_ok c" using inv by (simp add: client_inv_def)
    have "packet_id (free_pid pt pid c) = packet_id c" by (simp add: free_pid_def)
    moreover have "distinct (map fst (packet_ids (free_pid pt pid c) pt'))" for pt'
      using old by (simp add: free_pid_def pids_ok_def distinct_delete)
    ultimately show ?thesis using old unfolding pids_ok_def ids by (metis option.distinct(1))
  qed
  show "owned c w = Some f" if "owned (free_pid pt pid c) w = Some f" for w f
    using that by (cases w) (auto simp: owned.simps ids free_pid_def delete_lookup split: if_splits)
qed (use inv in \<open>simp_all add: free_pid_def inv_defs find_meta_alt\<close>)

lemma keeps_broker_ack [inv_rules]: "keeps client_inv (handle_broker_ack p)"
  unfolding handle_broker_ack_def Let_def
  by (intro inv_rules keeps_modify inv_free_pid [unfolded free_pid_def])

lemma keeps_handle: "keeps client_inv (handle_mqtt_packet L p)"
  unfolding handle_mqtt_packet_alt handle_publish_def route_def
  by (intro inv_rules local_keeps [OF local_send_puback] local_keeps [OF local_too_old])

section \<open>Dropping entries\<close>

text \<open>Operations on the queues that add no entry.\<close>

definition fewer :: "client \<Rightarrow> client \<Rightarrow> bool" where
  "fewer c c' \<longleftrightarrow> (\<forall>k i m. find_meta c' k i = Some m \<longrightarrow> find_meta c k i = Some m) \<and> (\<exists>qs. c' = c\<lparr>msg_queues := qs\<rparr>)"

lemma fewer_entry: "fewer c c' \<Longrightarrow> find_meta c' k i = Some m \<Longrightarrow> find_meta c k i = Some m"
  unfolding fewer_def by blast

lemma fewer_rest: "fewer c c' \<Longrightarrow> kp c' = kp c \<and> futs c' = futs c \<and> packet_ids c' = packet_ids c"
  by (auto simp: fewer_def)

lemma fewer_set:
  assumes "\<And>j m. map_of qu j = Some m \<Longrightarrow> find_meta c (t, qid) j = Some m"
  shows "fewer c (set_queue t qid qu c)"
proof -
  have "find_meta c k i = Some m" if "find_meta (set_queue t qid qu c) k i = Some m" for k i m
    using that assms by (auto simp: find_meta_set_queue split: if_splits)
  moreover have "\<exists>qs. set_queue t qid qu c = c\<lparr>msg_queues := qs\<rparr>" unfolding set_queue_def by blast
  ultimately show ?thesis unfolding fewer_def by blast
qed

lemma fewer_refl: "fewer c c"
  unfolding fewer_def by (intro conjI exI [of _ "msg_queues c"]) simp_all

lemma fewer_del: "fewer c c' \<Longrightarrow> fewer c (del_queue t qid c')"
  unfolding fewer_def by (auto simp: find_meta_del_queue) (auto simp: del_queue_def)

lemma drop_old_sub: "map_of (drop_old n ks qu) j = Some m \<Longrightarrow> map_of qu j = Some m"
  by (induction n ks qu rule: drop_old.induct) (auto simp: dict_simps split: if_splits)

lemma fewer_ops:
  "fewer c (del_queue t qid c)" "fewer c (ensure_queue t qid c)" "fewer c (del_entry t qid i c)"
  "fewer c (forget_probe t qid i c)" "fewer c (drop_old_acks qid i c)"
proof -
  show "fewer c (del_queue t qid c)" by (rule fewer_del [OF fewer_refl])
  show "fewer c (ensure_queue t qid c)" by (auto simp: ensure_queue_def fewer_refl intro: fewer_set)
  show d: "fewer c (del_entry t qid i c)"
    by (auto simp: del_entry_def fewer_refl find_meta_alt dict_simps intro!: fewer_set split: option.split if_splits)
  then show "fewer c (forget_probe t qid i c)" by (simp add: forget_probe_def Let_def fewer_del)
  show "fewer c (drop_old_acks qid i c)"
    by (auto simp: drop_old_acks_def fewer_refl find_meta_alt intro!: fewer_set dest: drop_old_sub split: option.split)
qed

end
