(* ===== verification/Reader.thy ===== *)
theory Reader
  imports Client_Frame Varint
begin

text \<open>
  The stream reader \<open>mqtt_packet_reader\<close> (\<open>mqtt/mqtt_reader.py\<close>): chunks of the TCP stream are
  appended to the client's buffer, complete packets are cut off its front and handled. The
  locale \<open>framing\<close> is the contract of cutting a stream into frames; the code's splitting is
  its instance, and how the stream was cut into chunks does not matter.
\<close>

section \<open>The reader\<close>

lemma unbuffered_wrapped_handle: "unbuffered (async_wrap_errors L (handle_mqtt_packet L pkt))"
  using unbuffered_handle by (intro allI commutes_rules) blast

lemma handle_keeps_buf: "buf (snd (async_wrap_errors L (handle_mqtt_packet L pkt) c)) = buf c"
proof -
  have "async_wrap_errors L (handle_mqtt_packet L pkt) (set_buf (buf c) c) =
      (fst (async_wrap_errors L (handle_mqtt_packet L pkt) c), set_buf (buf c) (snd (async_wrap_errors L (handle_mqtt_packet L pkt) c)))"
    using unbuffered_wrapped_handle unfolding commutes_def by blast
  then show ?thesis by (simp add: set_buf_sel(3)) (metis set_buf_sel(1) snd_conv)
qed

lemma handle_run_buf:
  "(r, c2) = async_wrap_errors L (handle_mqtt_packet L pkt) c1 \<Longrightarrow> buf c2 = buf c1"
  using handle_keeps_buf [of L pkt c1] by (metis snd_conv)

text \<open>
  The loop \<open>while client.buf\<close>. Cutting a packet off shortens the buffer and handling it leaves
  the buffer alone, so the loop ends.
\<close>

function reader_loop :: "lib \<Rightarrow> (client, unit) py" where
  "reader_loop L c =
     (if buf c = [] then (Inr (), c)
      else if length (buf c) < 2 then (Inr (), c)
      else case mqtt_decode_varint (buf c) 1 of
        Inl e \<Rightarrow> (Inr (), c)
      | Inr (rem_len, consumed) \<Rightarrow>
          let total_len = 1 + consumed + rem_len in
          if length (buf c) < total_len then (Inr (), c)
          else
            let pkt_buf = take total_len (buf c);
                c1 = c\<lparr>buf := drop total_len (buf c)\<rparr>
            in case mqtt_parse_packet pkt_buf of
                 Inl e \<Rightarrow> (Inl e, c1)
               | Inr pkt \<Rightarrow> (case async_wrap_errors L (handle_mqtt_packet L pkt) c1 of
                   (Inl e, c2) \<Rightarrow> (Inl e, c2)
                 | (Inr _, c2) \<Rightarrow> reader_loop L c2))"
  by pat_completeness auto
termination
  by (relation "measure (\<lambda>(L, c). length (buf c))") (auto dest!: handle_run_buf)

declare reader_loop.simps [simp del]

definition mqtt_packet_reader :: "lib \<Rightarrow> bytes \<Rightarrow> (client, unit) py" where
  "mqtt_packet_reader L chunk = (\<lambda>c.
     if chunk = [] then (Inr (), c) else reader_loop L (c\<lparr>buf := buf c @ chunk\<rparr>))"

section \<open>The contract of framing\<close>

text \<open>
  A stream discipline: \<open>next\<close> says how long the first complete frame of a buffer is, more
  input does not change that, and \<open>split\<close> cuts off frames as long as there is one.
\<close>

locale framing =
  fixes "next" :: "'b list \<Rightarrow> nat option" and split :: "'b list \<Rightarrow> 'b list list \<times> 'b list"
  assumes next_pos: "next b = Some n \<Longrightarrow> 0 < n \<and> n \<le> length b"
    and next_append: "next b = Some n \<Longrightarrow> next (b @ d) = Some n"
    and split_stop: "next b = None \<Longrightarrow> split b = ([], b)"
    and split_step: "next b = Some n \<Longrightarrow> split b = (take n b # fst (split (drop n b)), snd (split (drop n b)))"
begin

lemma split_induct [case_names stop step]:
  assumes "\<And>b. next b = None \<Longrightarrow> P b" and "\<And>b n. next b = Some n \<Longrightarrow> P (drop n b) \<Longrightarrow> P b"
  shows "P b"
proof (induction b rule: length_induct)
  case (1 b)
  show ?case
  proof (cases "next b")
    case (Some n)
    then have "length (drop n b) < length b" using next_pos [OF Some] by auto
    with 1 Some assms(2) show ?thesis by blast
  qed (rule assms(1))
qed

lemma split_concat: "concat (fst (split b)) @ snd (split b) = b"
  by (induction b rule: split_induct) (simp_all add: split_stop split_step)

lemma split_rest: "next (snd (split b)) = None"
  by (induction b rule: split_induct) (simp_all add: split_stop split_step)

lemma split_append:
  "split (a @ b) = (fst (split a) @ fst (split (snd (split a) @ b)), snd (split (snd (split a) @ b)))"
proof (induction a rule: split_induct)
  case (step a n)
  then have "drop n (a @ b) = drop n a @ b" "take n (a @ b) = take n a"
    using next_pos [OF step(1)] by simp_all
  then show ?case
    using step next_append [OF step(1), of b] by (simp add: split_step)
qed (simp add: split_stop)

text \<open>Whole frames are cut off one by one.\<close>

lemma split_frames:
  "\<forall>f \<in> set fs. next f = Some (length f) \<Longrightarrow> split (concat fs @ r) = (fs @ fst (split r), snd (split r))"
proof (induction fs)
  case (Cons f fs)
  then have "next (f @ concat fs @ r) = Some (length f)" by (simp add: next_append)
  with Cons show ?case by (simp add: split_step)
qed simp

text \<open>A buffer whose front never becomes a frame is stuck: nothing is cut off any more.\<close>

lemma split_stuck: "(\<And>d. next (b @ d) = None) \<Longrightarrow> split (b @ d) = ([], b @ d)"
  by (rule split_stop)

end

definition next_frame :: "bytes \<Rightarrow> nat option" where
  "next_frame b =
     (if length b < 2 then None
      else case mqtt_decode_varint b 1 of
        Inl _ \<Rightarrow> None
      | Inr (rem_len, consumed) \<Rightarrow>
          if length b < 1 + consumed + rem_len then None else Some (1 + consumed + rem_len))"

lemma next_frame_pos: "next_frame b = Some n \<Longrightarrow> 0 < n \<and> n \<le> length b"
  by (auto simp: next_frame_def split: sum.splits if_splits)

function split_frames :: "bytes \<Rightarrow> bytes list \<times> bytes" where
  "split_frames b = (case next_frame b of
     None \<Rightarrow> ([], b)
   | Some n \<Rightarrow> (let (fs, r) = split_frames (drop n b) in (take n b # fs, r)))"
  by pat_completeness auto
termination
  by (relation "measure length") (auto dest: next_frame_pos)

declare split_frames.simps [simp del]

interpretation frames: framing next_frame split_frames
proof
  show "next_frame (b @ d) = Some n" if "next_frame b = Some n" for b d n
  proof -
    from that obtain v k where dec: "mqtt_decode_varint b 1 = Inr (v, k)" and len: "2 \<le> length b"
      and n: "1 + k + v \<le> length b" "n = 1 + k + v"
      by (auto simp: next_frame_def split: sum.splits if_splits)
    have "mqtt_decode_varint (b @ d) 1 = Inr (v, k)" using decode_Inr_append [OF _ dec] len by simp
    with len n show ?thesis unfolding next_frame_def by simp
  qed
  show "split_frames b = (take n b # fst (split_frames (drop n b)), snd (split_frames (drop n b)))"
    if "next_frame b = Some n" for b n
    using that by (subst split_frames.simps) (simp add: case_prod_beta)
qed (auto simp: split_frames.simps dest: next_frame_pos)

section \<open>The reader handles the frames of its buffer\<close>

definition handle_frame :: "lib \<Rightarrow> bytes \<Rightarrow> (client, unit) py" where
  "handle_frame L raw =
     py_bind (py_lift (mqtt_parse_packet raw)) (\<lambda>pkt. async_wrap_errors L (handle_mqtt_packet L pkt))"

lemma unbuffered_handle_frame [commutes_rules]: "commutes (set_buf b) (handle_frame L raw)"
  unfolding handle_frame_def
  by (intro commutes_bind commutes_lift) (use unbuffered_wrapped_handle in blast)

lemma reader_stop: "next_frame (buf c) = None \<Longrightarrow> reader_loop L c = (Inr (), c)"
  by (subst reader_loop.simps) (auto simp: next_frame_def split: sum.splits if_splits)

lemma reader_step:
  assumes "next_frame (buf c) = Some n"
  shows "reader_loop L c =
    (case handle_frame L (take n (buf c)) (set_buf (drop n (buf c)) c) of
       (Inl e, c2) \<Rightarrow> (Inl e, c2) | (Inr _, c2) \<Rightarrow> reader_loop L c2)"
proof -
  from assms obtain v k where dec: "mqtt_decode_varint (buf c) 1 = Inr (v, k)" and len: "\<not> length (buf c) < 2"
    and n: "n = 1 + k + v" "\<not> length (buf c) < n"
    by (auto simp: next_frame_def split: sum.splits if_splits)
  have "buf c \<noteq> []" using len by auto
  then have "reader_loop L c = (case mqtt_parse_packet (take n (buf c)) of
        Inl e \<Rightarrow> (Inl e, set_buf (drop n (buf c)) c)
      | Inr pkt \<Rightarrow> (case async_wrap_errors L (handle_mqtt_packet L pkt) (set_buf (drop n (buf c)) c) of
          (Inl e, c2) \<Rightarrow> (Inl e, c2) | (Inr _, c2) \<Rightarrow> reader_loop L c2))"
    using dec len n by (subst reader_loop.simps) (simp only: Let_def if_False set_buf_def sum.case prod.case)
  then show ?thesis
    by (simp add: handle_frame_def py_bind_app py_lift_app split: sum.split)
qed

lemma handle_frame_buf:
  assumes "handle_frame L raw c = (r, c')"
  shows "buf c' = buf c"
proof -
  have "handle_frame L raw (set_buf (buf c) c) = (r, set_buf (buf c) c')"
    by (rule commutesD [OF unbuffered_handle_frame assms])
  then have "c' = set_buf (buf c) c'" using assms by simp
  then show ?thesis by (metis set_buf_sel(1))
qed

lemma reader_frames:
  "buf c = b \<Longrightarrow>
   (case py_for (fst (split_frames b)) (handle_frame L) c of
      (Inr _, c') \<Rightarrow> reader_loop L c = (Inr (), set_buf (snd (split_frames b)) c')
    | (Inl e, c') \<Rightarrow> \<exists>r. reader_loop L c = (Inl e, set_buf r c'))"
proof (induction b arbitrary: c rule: frames.split_induct)
  case (stop b)
  then have "set_buf b c = c" by auto
  with stop show ?case by (simp add: frames.split_stop reader_stop py_simps)
next
  case (step b n)
  obtain r c1 where run: "handle_frame L (take n b) c = (r, c1)" by fastforce
  then have run': "handle_frame L (take n b) (set_buf (drop n b) c) = (r, set_buf (drop n b) c1)"
    by (rule commutesD [OF unbuffered_handle_frame])
  note red = reader_step [of c n L, unfolded step(3), OF step(1), unfolded run']
  show ?case
  proof (cases r)
    case (Inl e)
    with run red show ?thesis by (auto simp: frames.split_step [OF step(1)] py_simps)
  next
    case (Inr u)
    let ?fs = "fst (split_frames (drop n b))"
    obtain r2 c2 where rest: "py_for ?fs (handle_frame L) c1 = (r2, c2)" by fastforce
    then have rest': "py_for ?fs (handle_frame L) (set_buf (drop n b) c1) = (r2, set_buf (drop n b) c2)"
      by (rule commutesD [OF commutes_for [OF unbuffered_handle_frame]])
    from step(2) [of "set_buf (drop n b) c1"] rest' red Inr run rest show ?thesis
      by (auto simp: frames.split_step [OF step(1)] py_simps split: sum.splits)
  qed
qed

lemma reader_handles_frames_aux:
  assumes "chunk \<noteq> []"
  shows "(case py_for (fst (split_frames (buf c @ chunk))) (handle_frame L) c of
      (Inr _, c') \<Rightarrow> mqtt_packet_reader L chunk c = (Inr (), set_buf (snd (split_frames (buf c @ chunk))) c')
    | (Inl e, c') \<Rightarrow> \<exists>r. mqtt_packet_reader L chunk c = (Inl e, set_buf r c'))"
proof -
  let ?b = "buf c @ chunk" and ?c = "set_buf (buf c @ chunk) c"
  obtain r c' where run: "py_for (fst (split_frames ?b)) (handle_frame L) c = (r, c')" by fastforce
  then have run': "py_for (fst (split_frames ?b)) (handle_frame L) ?c = (r, set_buf ?b c')"
    by (rule commutesD [OF commutes_for [OF unbuffered_handle_frame]])
  have "mqtt_packet_reader L chunk c = reader_loop L ?c"
    using assms by (simp add: mqtt_packet_reader_def set_buf_def)
  with reader_frames [of ?c ?b L] run run' show ?thesis by (auto split: sum.splits)
qed

text \<open>
  the reader is the framing of its buffer. Reading a chunk handles, in order, the complete
  frames at the front of the buffer with the chunk appended, up to the first that raises; when
  none raises, what stays in the buffer is what follows the last complete frame.
\<close>

theorem reader_handles_frames:
  assumes "chunk \<noteq> []"
  shows "(case py_for (fst (split_frames (buf c @ chunk))) (handle_frame L) c of
      (Inr _, c') \<Rightarrow> mqtt_packet_reader L chunk c = (Inr (), set_buf (snd (split_frames (buf c @ chunk))) c')
    | (Inl e, c') \<Rightarrow> \<exists>r. mqtt_packet_reader L chunk c = (Inl e, set_buf r c'))"
  by (rule reader_handles_frames_aux [OF assms])

text \<open>A PINGRESP: two bytes, a complete frame.\<close>

lemma demo_next: "next_frame ([0xD0, 0] @ rest) = Some 2"
  by (simp add: next_frame_def decode_varint_spec varint_spec_def)

lemma demo_split: "split_frames [0xD0, 0, 0x40] = ([[0xD0, 0]], [0x40])"
  using frames.split_step [OF demo_next, of "[0x40]"]
  by (simp add: frames.split_stop next_frame_def)

lemma demo_ping: "handle_frame demo_lib [0xD0, 0] c = (Inr (), c)"
proof -
  have "mqtt_parse_packet [0xD0, 0] = Inr (parsed PINGRESP 0 [])"
    using parse_frame [of "[]" PINGRESP 0] by (simp add: frame_def build_header_Cons header_byte_val encode_small)
  then show ?thesis
    by (simp add: handle_frame_def py_simps async_wrap_errors_def handle_mqtt_packet_alt)
qed

lemma demo_buf [simp]: "buf demo_client = []"
  by (simp add: demo_client_def new_client_def)

theorem reader_handles_frames_witness:
  "mqtt_packet_reader demo_lib [0xD0, 0, 0x40] demo_client = (Inr (), set_buf [0x40] demo_client)"
  using reader_handles_frames [where chunk = "[0xD0, 0, 0x40]" and c = demo_client and L = demo_lib]
  by (simp add: demo_split py_simps demo_ping)

section \<open>How the stream is cut into chunks\<close>

lemma read_app:
  assumes "py_for (fst (split_frames (buf c @ chunk))) (handle_frame L) c = (Inr u, c')"
    and "next_frame (buf c) = None \<or> chunk \<noteq> []"
  shows "mqtt_packet_reader L chunk c = (Inr (), set_buf (snd (split_frames (buf c @ chunk))) c')"
proof (cases "chunk = []")
  case True
  with assms have "c' = c" by (simp add: frames.split_stop py_simps)
  moreover have "set_buf (buf c) c = c" by simp
  ultimately show ?thesis using True assms(2) by (simp add: mqtt_packet_reader_def frames.split_stop)
next
  case False
  from reader_handles_frames_aux [OF this, where c = c and L = L] assms(1) show ?thesis by simp
qed

lemma py_for_append:
  "py_for (xs @ ys) f c = (case py_for xs f c of (Inl e, c') \<Rightarrow> (Inl e, c') | (Inr _, c') \<Rightarrow> py_for ys f c')"
  by (induction xs arbitrary: c) (auto simp: py_simps split: prod.split sum.split)

text \<open>Reading chunk by chunk, when no frame of the whole stream raises, is reading it at once.\<close>

lemma read_chunks:
  assumes "py_for (fst (split_frames (buf c @ concat chunks))) (handle_frame L) c = (Inr u, c')"
    and "next_frame (buf c) = None"
  shows "py_for chunks (mqtt_packet_reader L) c = (Inr (), set_buf (snd (split_frames (buf c @ concat chunks))) c')"
  using assms
proof (induction chunks arbitrary: c c')
  case Nil
  then have "c' = c" by (simp add: frames.split_stop py_simps)
  with Nil show ?case by (simp add: frames.split_stop py_simps)
next
  case (Cons a chunks)
  let ?s = "split_frames (buf c @ a)"
  have app: "split_frames (buf c @ concat (a # chunks)) =
      (fst ?s @ fst (split_frames (snd ?s @ concat chunks)), snd (split_frames (snd ?s @ concat chunks)))"
    using frames.split_append [of "buf c @ a" "concat chunks"] by simp
  from Cons.prems(1) obtain v c1 where first: "py_for (fst ?s) (handle_frame L) c = (Inr v, c1)"
    and rest: "py_for (fst (split_frames (snd ?s @ concat chunks))) (handle_frame L) c1 = (Inr u, c')"
    unfolding app by (auto simp: py_for_append split: prod.splits sum.splits)
  from rest have rest': "py_for (fst (split_frames (snd ?s @ concat chunks))) (handle_frame L) (set_buf (snd ?s) c1)
      = (Inr u, set_buf (snd ?s) c')"
    by (rule commutesD [OF commutes_for [OF unbuffered_handle_frame]])
  have "mqtt_packet_reader L a c = (Inr (), set_buf (snd ?s) c1)"
    using read_app [OF first] Cons.prems(2) by simp
  moreover have "py_for chunks (mqtt_packet_reader L) (set_buf (snd ?s) c1) =
      (Inr (), set_buf (snd (split_frames (snd ?s @ concat chunks))) c')"
    using Cons.IH [of "set_buf (snd ?s) c1" "set_buf (snd ?s) c'"] rest' frames.split_rest [of "buf c @ a"]
    by simp
  ultimately show ?case unfolding app by (simp add: py_simps)
qed

lemma next_of_frame:
  assumes "length b < 128 ^ 4"
  shows "next_frame (frame t f b) = Some (length (frame t f b))"
proof -
  have "1 \<le> length (mqtt_encode_varint (length b))" using encode_nonempty [of "length b"] by (cases "mqtt_encode_varint (length b)") auto
  then have "\<not> length (frame t f b) < 2" unfolding length_frame by linarith
  then show ?thesis
    using frame_decode [OF assms, of t f "[]"] by (simp add: next_frame_def length_frame)
qed

text \<open>
  C13: packets survive any fragmentation. Control packets written one after another to the
  stream are handled once each, in order, with their type, flags and body, however the stream
  is cut into chunks, and the buffer is empty at the end.
\<close>

theorem fragmentation_does_not_matter:
  assumes "buf c = []" and "\<forall>(t, f, b) \<in> set ps. length b < 128 ^ 4" and "\<forall>e. swallows L e"
    and "concat chunks = concat (map (\<lambda>(t, f, b). frame t f b) ps)"
  shows "py_for chunks (mqtt_packet_reader L) c =
    py_for ps (\<lambda>(t, f, b). async_wrap_errors L (handle_mqtt_packet L (parsed t (f mod 16) b))) c"
proof -
  let ?fs = "map (\<lambda>(t, f, b). frame t f b) ps"
  let ?H = "\<lambda>(t, f, b). async_wrap_errors L (handle_mqtt_packet L (parsed t (f mod 16) b))"
  have "\<forall>x \<in> set ?fs. next_frame x = Some (length x)"
    using assms(2) by (auto simp: next_of_frame)
  from frames.split_frames [OF this, of "[]"] have split: "split_frames (concat ?fs) = (?fs, [])"
    by (simp add: frames.split_stop next_frame_def)
  have one: "handle_frame L (frame t f b) = ?H (t, f, b)" if "(t, f, b) \<in> set ps" for t f b
    using assms(2) that parse_frame [of b t f] by (auto simp: handle_frame_def py_simps fun_eq_iff)
  have run: "py_for (map (\<lambda>(t, f, b). frame t f b) qs) (handle_frame L) d = py_for qs ?H d" if "set qs \<subseteq> set ps" for qs d
    using that
  proof (induction qs arbitrary: d)
    case (Cons q qs)
    obtain t f b where "q = (t, f, b)" by (cases q)
    with Cons one [of t f b] show ?case by (simp add: py_simps split: prod.split sum.split)
  qed simp
  have ok: "\<exists>d'. py_for qs ?H d = (Inr (), d') \<and> buf d' = buf d" for qs d
  proof (induction qs arbitrary: d)
    case (Cons q qs)
    obtain t f b where q: "q = (t, f, b)" by (cases q)
    obtain r d1 where h: "async_wrap_errors L (handle_mqtt_packet L (parsed t (f mod 16) b)) d = (r, d1)" by fastforce
    then have "r = Inr ()" using assms(3) by (auto simp: async_wrap_errors_def py_simps split: prod.splits sum.splits)
    moreover have "buf d1 = buf d" using h handle_run_buf by metis
    ultimately show ?case using Cons [of d1] h q by (auto simp: py_simps)
  qed (simp add: py_simps)
  from ok [of ps c] obtain c' where c': "py_for ps ?H c = (Inr (), c')" "buf c' = []" using assms(1) by auto
  then have "py_for (fst (split_frames (buf c @ concat chunks))) (handle_frame L) c = (Inr (), c')"
    using run [of ps c] by (simp add: assms(1,4) split)
  from read_chunks [OF this] have "py_for chunks (mqtt_packet_reader L) c = (Inr (), set_buf [] c')"
    by (simp add: assms(1,4) split next_frame_def)
  moreover have "set_buf [] c' = c'" using c'(2) by (metis set_buf_sel(3))
  ultimately show ?thesis using c'(1) by simp
qed

theorem fragmentation_does_not_matter_witness:
  "py_for [[0xD0], [0, 0xD0], [0]] (mqtt_packet_reader demo_lib) demo_client =
   py_for [(PINGRESP, 0, []), (PINGRESP, 0, [])]
     (\<lambda>(t, f, b). async_wrap_errors demo_lib (handle_mqtt_packet demo_lib (parsed t (f mod 16) b))) demo_client"
  by (rule fragmentation_does_not_matter)
     (simp_all add: frame_def build_header_Cons header_byte_val encode_small)

lemma malformed_aux:
  assumes "buf c \<noteq> []" and "mqtt_decode_varint (buf c) 1 = Inl (ValueError ''malformed varint'')"
  shows "py_for chunks (mqtt_packet_reader L) c = (Inr (), set_buf (buf c @ concat chunks) c)"
proof -
  have "mqtt_decode_varint (buf c @ d) 1 = Inl (ValueError ''malformed varint'')" for d
    using assms by (intro decode_malformed_append) (auto simp: Suc_le_eq)
  then have stuck: "next_frame (buf c @ d) = None" for d by (simp add: next_frame_def)
  from frames.split_stuck [OF this] have "split_frames (buf c @ concat chunks) = ([], buf c @ concat chunks)" .
  with read_chunks [of c chunks L "()" c] stuck [of "[]"] show ?thesis by (simp add: py_simps)
qed

text \<open>
  a malformed length wedges the stream. Once four bytes in a row after the first byte of
  the buffer ask for a continuation, no packet is ever cut off again: every further chunk is
  only appended to the buffer, which grows without bound, until the connection is reset.
\<close>

theorem malformed_length_wedges:
  assumes "buf c \<noteq> []" and "mqtt_decode_varint (buf c) 1 = Inl (ValueError ''malformed varint'')"
  shows "py_for chunks (mqtt_packet_reader L) c = (Inr (), set_buf (buf c @ concat chunks) c)"
  using assms by (rule malformed_aux)

theorem malformed_length_wedges_witness:
  "py_for [[1, 2], [3]] (mqtt_packet_reader demo_lib) (set_buf [0x30, 0xFF, 0xFF, 0xFF, 0xFF] demo_client) =
     (Inr (), set_buf [0x30, 0xFF, 0xFF, 0xFF, 0xFF, 1, 2, 3] demo_client)"
  using malformed_length_wedges [of "set_buf [0x30, 0xFF, 0xFF, 0xFF, 0xFF] demo_client" "[[1, 2], [3]]" demo_lib]
  by (simp add: decode_varint_spec varint_spec_def Let_def)

end
