(* ===== verification/Ordered_Send.thy ===== *)
theory Ordered_Send
  imports Client_Frame
begin

text \<open>
  The functional behaviour of the sending side: which number a message gets, what its queue
  entry holds, that nothing else in the queues changes, what \<open>dequeue_msg\<close> does, and the
  allocation and release of packet ids and futures.
\<close>

section \<open>The entry of a queued message\<close>

definition new_meta :: "string \<Rightarrow> int \<Rightarrow> bytes \<Rightarrow> real \<Rightarrow> nat \<Rightarrow> meta" where
  "new_meta dest i out now f =
     \<lparr>m_app_ack = f, m_dest_pk_hex = dest, m_seq_no = i, m_out = out,
      m_updated = 0, m_created = now, m_attempts = 0, m_probe_one_shot = False\<rparr>"

lemma new_meta_sel [simp]:
  "m_app_ack (new_meta dest i out now f) = f" "m_dest_pk_hex (new_meta dest i out now f) = dest"
  "m_out (new_meta dest i out now f) = out" "m_seq_no (new_meta dest i out now f) = i"
  "m_attempts (new_meta dest i out now f) = 0" "\<not> m_probe_one_shot (new_meta dest i out now f)"
  "m_created (new_meta dest i out now f) = now" "m_updated (new_meta dest i out now f) = 0"
  by (simp_all add: new_meta_def)

lemma oas_commit_app:
  assumes "map_of (msg_queues c t) qid = Some q"
  shows "oas_commit L dest qid t i out c = (case map_of q i of
      Some m \<Rightarrow> (Inr ((qid, i), m_app_ack m), c)
    | None \<Rightarrow> (Inr ((qid, i), length (futs c)),
        set_queue t qid (AList.update i (new_meta dest i out (clock L (ticks c)) (length (futs c))) q)
          (c\<lparr>futs := futs c @ [Pending], ticks := ticks c + 1\<rparr>)))"
  using assms
  by (simp add: oas_commit_def py_simps get_queue_def new_future_def get_time_def put_meta_def new_meta_def
      split: option.split)

text \<open>The part of the state an entry lives in: the queues and the futures.\<close>

definition shelf :: "client \<Rightarrow> (msg_enum \<Rightarrow> (string \<times> queue) list) \<times> fut list \<times> keypair" where
  "shelf c = (msg_queues c, futs c, kp c)"

lemma shelf_get_time [leaves_rules]: "leaves shelf (get_time L)"
  and shelf_sign_with [leaves_rules]: "leaves shelf (sign_with sg s)"
  and shelf_draw [leaves_rules]: "leaves shelf (draw L n)"
  and shelf_sent [leaves_rules]: "leaves shelf (py_modify (\<lambda>c. c\<lparr>sent_msg_ids := h1 c\<rparr>))"
  and shelf_last_send [leaves_rules]: "leaves shelf (py_modify (\<lambda>c. c\<lparr>last_send := u\<rparr>))"
  by (rule leavesI, simp add: get_time_def sign_with_def draw_def shelf_def py_simps)+

lemma shelf_note_sent [leaves_rules]: "leaves shelf (note_sent L msg)"
  unfolding note_sent_def Let_def by (intro leaves_rules)

lemma shelf_stamp [leaves_rules]: "leaves shelf (stamp L p)"
  unfolding stamp_def by (intro leaves_rules)

lemma shelf_pack [leaves_rules]: "leaves shelf (pack L p)"
  unfolding pack_def by (intro leaves_rules)

lemma shelf_pack_async [leaves_rules]: "leaves shelf (pack_async L p)"
  unfolding pack_async_def Let_def by (intro leaves_rules)

lemma find_meta_shelf: "shelf c = shelf c' \<Longrightarrow> find_meta c = find_meta c' \<and> msg_queues c = msg_queues c' \<and> futs c = futs c' \<and> kp c = kp c'"
  by (simp add: shelf_def find_meta_alt fun_eq_iff)

lemma oas_prepare_Inr:
  assumes "oas_prepare L msg dest qid t seq c = (Inr i, c')"
  shows "shelf c' = shelf (ensure_queue t qid c) \<and> length qid = 64 \<and> length dest = 66 \<and>
    (case seq of Some n \<Rightarrow> i = n
     | None \<Rightarrow> \<exists>q. map_of (msg_queues c' t) qid = Some q \<and> i = next_seq_no q)"
proof -
  from assms have len: "length qid = 64" "length dest = 66"
    by (auto simp: oas_prepare_def py_simps split: if_splits)
  obtain r c1 where noted: "py_when (t = MSG) (note_sent L msg) c = (r, c1)" by fastforce
  then have "shelf c1 = shelf c"
    using leaves_run [OF leaves_when [OF shelf_note_sent]] by blast
  then have c1: "msg_queues c1 = msg_queues c" "futs c1 = futs c" "kp c1 = kp c" by (simp_all add: shelf_def)
  have c': "c' = ensure_queue t qid c1" and i: "case seq of Some n \<Rightarrow> i = n
     | None \<Rightarrow> \<exists>q. map_of (msg_queues c' t) qid = Some q \<and> i = next_seq_no q"
    using assms noted len
    by (auto simp: oas_prepare_def py_simps get_queue_def split: sum.splits option.splits)
  have "shelf (ensure_queue t qid c1) = shelf (ensure_queue t qid c)"
    using c1 by (simp add: shelf_def ensure_queue_def set_queue_def)
  with c' len i show ?thesis by simp
qed

lemma kp_set_queue [simp]: "kp (set_queue t qid q c) = kp c"
  by (simp add: set_queue_def)

lemma kp_ensure [simp]: "kp (ensure_queue t qid c) = kp c" "futs (ensure_queue t qid c) = futs c"
  by (simp_all add: ensure_queue_def)

lemma next_seq_no_fresh: "map_of q (next_seq_no q) = None"
proof (rule ccontr)
  assume "map_of q (next_seq_no q) \<noteq> None"
  then have key: "next_seq_no q \<in> fst ` set q" by (simp only: key_iff) simp
  then have "next_seq_no q = Max (fst ` set q) + 1" by (auto simp: next_seq_no_def)
  moreover have "next_seq_no q \<le> Max (fst ` set q)" using key by simp
  ultimately show False by simp
qed

text \<open>The common part of both variants: prepared, packed, committed.\<close>

lemma oas_run:
  assumes prep: "oas_prepare L msg dest qid t seq c = (Inr i, c1)" and shelf: "shelf c2 = shelf c1"
    and com: "oas_commit L dest qid t i out c2 = (Inr (key, f), c')"
  shows "key = (qid, i) \<and> (\<exists>m. find_meta c' (t, qid) i = Some m \<and> m_app_ack m = f \<and>
      (case find_meta c (t, qid) i of
         Some m0 \<Rightarrow> m = m0 \<and> futs c' = futs c
       | None \<Rightarrow> m_dest_pk_hex m = dest \<and> m_seq_no m = i \<and> m_out m = out \<and> m_attempts m = 0 \<and>
           \<not> m_probe_one_shot m \<and> f = length (futs c) \<and> futs c' = futs c @ [Pending])) \<and>
    (seq = Some i \<or> seq = None \<and> find_meta c (t, qid) i = None) \<and>
    (\<forall>k j. (k, j) \<noteq> ((t, qid), i) \<longrightarrow> find_meta c' k j = find_meta c k j)"
proof -
  note p = oas_prepare_Inr [OF prep]
  then have sh: "find_meta c2 = find_meta c" "futs c2 = futs c"
    using find_meta_shelf [of c2 "ensure_queue t qid c"] shelf by simp_all
  have "\<exists>q. map_of (msg_queues c2 t) qid = Some q"
    using com by (auto simp: oas_commit_def py_simps get_queue_def split: option.splits)
  then obtain q where q: "map_of (msg_queues c2 t) qid = Some q" ..
  then have found: "find_meta c (t, qid) j = map_of q j" for j
    using sh(1) [symmetric] by (simp add: find_meta_alt)
  have "msg_queues c1 = msg_queues c2" using find_meta_shelf [OF shelf] by simp
  with p q have seq: "seq = Some i \<or> seq = None \<and> find_meta c (t, qid) i = None"
    by (auto simp: found next_seq_no_fresh split: option.splits)
  note com' = com [unfolded oas_commit_app [OF q]]
  show ?thesis
  proof (cases "map_of q i")
    case None
    then have key: "key = (qid, i)" "f = length (futs c)"
      and c': "c' = set_queue t qid (AList.update i (new_meta dest i out (clock L (ticks c2)) f) q)
          (c2\<lparr>futs := futs c @ [Pending], ticks := ticks c2 + 1\<rparr>)"
      using com' by (auto simp: sh)
    have "find_meta (c2\<lparr>futs := fs, ticks := n\<rparr>) = find_meta c" for fs n
      using sh(1) by (simp add: find_meta_alt fun_eq_iff)
    then have "find_meta c' k j = (if k = (t, qid) \<and> j = i
        then Some (new_meta dest i out (clock L (ticks c2)) f) else find_meta c k j)" for k j
      by (auto simp: c' find_meta_set_queue update_lookup found)
    moreover have "futs c' = futs c @ [Pending]" by (simp add: c')
    ultimately show ?thesis using key seq None by (auto simp: found)
  next
    case (Some m)
    with com' have "key = (qid, i)" "f = m_app_ack m" "c' = c2" by auto
    with sh seq Some show ?thesis by (auto simp: found)
  qed
qed

section \<open>Properties\<close>

lemma ordered_ack_send_aux:
  assumes "ordered_ack_send L msg dest qid t seq c = (Inr (key, f), c')"
  shows "\<exists>i m. key = (qid, i) \<and> find_meta c' (t, qid) i = Some m \<and> m_app_ack m = f \<and>
    (case find_meta c (t, qid) i of
       Some m0 \<Rightarrow> m = m0 \<and> futs c' = futs c
     | None \<Rightarrow> m_dest_pk_hex m = dest \<and> m_seq_no m = i \<and> m_attempts m = 0 \<and> \<not> m_probe_one_shot m \<and>
         f = length (futs c) \<and> futs c' = futs c @ [Pending] \<and>
         (\<exists>c1 c2 p. kp c1 = kp c \<and> pack L (AppPacket qid i (msg_val t) msg) c1 = (Inr (m_out m, p), c2))) \<and>
    (seq = Some i \<or> seq = None \<and> find_meta c (t, qid) i = None) \<and>
    (\<forall>k j. (k, j) \<noteq> ((t, qid), i) \<longrightarrow> find_meta c' k j = find_meta c k j)"
proof -
  from assms obtain i c1 out p c2 where prep: "oas_prepare L msg dest qid t seq c = (Inr i, c1)"
    and pk: "pack L (AppPacket qid i (msg_val t) msg) c1 = (Inr (out, p), c2)"
    and com: "oas_commit L dest qid t i out c2 = (Inr (key, f), c')"
    by (auto simp: ordered_ack_send_def py_simps split: prod.splits sum.splits)
  have kp: "kp c1 = kp c" using oas_prepare_Inr [OF prep] by (simp add: shelf_def)
  note run = oas_run [OF prep leaves_run [OF shelf_pack pk] com]
  show ?thesis
  proof (cases "find_meta c (t, qid) i")
    case None
    with run kp pk show ?thesis by (intro exI [of _ i]) fastforce
  next
    case (Some m)
    with run show ?thesis by (intro exI [of _ i]) auto
  qed
qed

text \<open>
  C22: the queue entry of a sent message. When \<open>ordered_ack_send\<close> returns, the entry under
  the returned key holds the returned future. If the key was free, the future is new and
  pending and the entry has the destination, a serialised packet of this message made with the
  client's key, and no attempts; if the key was taken, the old entry and its future are
  returned untouched. Without a given number the key is one that was free. No other entry of
  any queue changes.
\<close>

theorem ordered_ack_send_queues:
  assumes "ordered_ack_send L msg dest qid t seq c = (Inr (key, f), c')"
  shows "\<exists>i m. key = (qid, i) \<and> find_meta c' (t, qid) i = Some m \<and> m_app_ack m = f \<and>
    (case find_meta c (t, qid) i of
       Some m0 \<Rightarrow> m = m0 \<and> futs c' = futs c
     | None \<Rightarrow> m_dest_pk_hex m = dest \<and> m_seq_no m = i \<and> m_attempts m = 0 \<and> \<not> m_probe_one_shot m \<and>
         f = length (futs c) \<and> futs c' = futs c @ [Pending] \<and>
         (\<exists>c1 c2 p. kp c1 = kp c \<and> pack L (AppPacket qid i (msg_val t) msg) c1 = (Inr (m_out m, p), c2))) \<and>
    (seq = Some i \<or> seq = None \<and> find_meta c (t, qid) i = None) \<and>
    (\<forall>k j. (k, j) \<noteq> ((t, qid), i) \<longrightarrow> find_meta c' k j = find_meta c k j)"
  using assms by (rule ordered_ack_send_aux)

lemma demo_queue_id: "length (hex_of (replicate 32 1)) = 64" "length (hex_of (replicate 33 2)) = 66"
  by simp_all

lemma demo_send:
  "\<exists>c. ordered_ack_send demo_lib (PyStr ''hi'') (hex_of (replicate 33 2)) (hex_of (replicate 32 1)) MSG None demo_client
     = (Inr ((hex_of (replicate 32 1), 0), 0), c)"
proof -
  have "signed_section (replicate 32 1) 0 1 1 [104, 105] =
      Inr (replicate 32 1 @ [0, 0, 0, 0, 0, 0, 0, 0, 0, 0, 0, 1, 1, 104, 105])"
    by (simp add: signed_section_def struct_pack_def be_encode_widths)
  then show ?thesis
    by (simp add: ordered_ack_send_def oas_prepare_def py_simps note_sent_def Let_def get_time_def
        ensure_queue_def set_queue_def get_queue_def next_seq_no_def pack_app AppPacket_def demo_hex
        stamp_value_def stamped_def oas_commit_app demo_client_def new_client_def py_int_def)
qed

theorem ordered_ack_send_queues_witness:
  "\<exists>c m. ordered_ack_send demo_lib (PyStr ''hi'') (hex_of (replicate 33 2)) (hex_of (replicate 32 1)) MSG None demo_client
     = (Inr ((hex_of (replicate 32 1), 0), 0), c) \<and>
     find_meta c (MSG, hex_of (replicate 32 1)) 0 = Some m \<and> m_app_ack m = 0"
  using demo_send ordered_ack_send_queues by fastforce

text \<open>
  C23: sequence numbers count the messages. A queue that has the numbers 0 to n - 1 (none, if it
  does not exist yet) gives the next message the number n and then has the numbers 0 to n.
\<close>

theorem sequence_numbers_dense:
  assumes "ordered_ack_send L msg dest qid t None c = (Inr ((qid', i), f), c')"
    and "queue_seqs (ensure_queue t qid c) (t, qid) = Some {0..<int n}"
  shows "i = int n \<and> queue_seqs c' (t, qid) = Some {0..<int (Suc n)}"
proof -
  from assms(1) obtain c1 out p c2 where prep: "oas_prepare L msg dest qid t None c = (Inr i, c1)"
    and pk: "pack L (AppPacket qid i (msg_val t) msg) c1 = (Inr (out, p), c2)"
    and com: "oas_commit L dest qid t i out c2 = (Inr ((qid', i), f), c')"
    by (auto simp: ordered_ack_send_def py_simps oas_commit_def split: prod.splits sum.splits option.splits)
  note sh = oas_prepare_Inr [OF prep] leaves_run [OF shelf_pack pk]
  then have mq: "msg_queues c2 = msg_queues (ensure_queue t qid c)" "msg_queues c1 = msg_queues c2"
    by (simp_all add: shelf_def)
  from sh(1) obtain q where q: "map_of (msg_queues c2 t) qid = Some q" and i: "i = next_seq_no q"
    by (auto simp: mq)
  have I: "queue_seqs c2 (t, qid) = Some {0..<int n}" using assms(2) by (simp add: queue_seqs_def mq)
  then have keys: "fst ` set q = {0..<int n}" using q by (simp add: queue_seqs_def)
  then have i': "i = (if {0..<int n} = {} then 0 else Max {0..<int n} + 1)"
  proof -
    have "q = [] \<longleftrightarrow> {0..<int n} = {}" using keys by (metis image_is_empty set_empty)
    then show ?thesis unfolding i next_seq_no_def keys by simp
  qed
  have "find_meta c2 (t, qid) i = None" using q by (simp add: find_meta_alt i next_seq_no_fresh)
  then have "map_of q i = None" using q by (simp add: find_meta_alt)
  then have "queue_seqs c' (t, qid) = queue_seqs (queue_put (t, qid) i (new_meta dest i out (clock L (ticks c2)) (length (futs c2))) c2) (t, qid)"
    using com q unfolding oas_commit_app [OF q]
    by (auto simp: queue_seqs_def queue_put_def put_meta_def set_queue_lookup)
  also have "\<dots> = Some {0..<int (Suc n)}"
    unfolding i' by (rule queues.put_dense [OF I])
  finally have "queue_seqs c' (t, qid) = Some {0..<int (Suc n)}" .
  moreover have "i = int n"
  proof (cases n)
    case (Suc k)
    have "Max {0..<int n} = int k" by (rule Max_eqI) (auto simp: Suc)
    then show ?thesis using i' Suc by simp
  qed (use i' in simp)
  ultimately show ?thesis by blast
qed

theorem sequence_numbers_dense_witness:
  "\<exists>c. ordered_ack_send demo_lib (PyStr ''hi'') (hex_of (replicate 33 2)) (hex_of (replicate 32 1)) MSG None demo_client
     = (Inr ((hex_of (replicate 32 1), 0), 0), c) \<and>
     queue_seqs c (MSG, hex_of (replicate 32 1)) = Some {0..<1}"
proof -
  have "queue_seqs (ensure_queue MSG (hex_of (replicate 32 1)) demo_client) (MSG, hex_of (replicate 32 1)) = Some {0..<int 0}"
    by (simp add: queue_seqs_def ensure_queue_def set_queue_def demo_client_def new_client_def)
  with demo_send sequence_numbers_dense [of demo_lib "PyStr ''hi''" "hex_of (replicate 33 2)"
      "hex_of (replicate 32 1)" MSG demo_client _ 0 0 _ 0] show ?thesis
    by fastforce
qed

text \<open>
  packet ids. \<open>get_packet_id\<close> returns the two bytes of a number from 1 to 65535 that is in
  flight for no acknowledgement, and changes only the counter; it raises \<open>AssertionError\<close> just
  when all 65535 ids are in flight.
\<close>

theorem get_packet_id_spec:
  "(case get_packet_id c of
      (Inr pid, c') \<Rightarrow> \<exists>n. 1 \<le> n \<and> n \<le> 65535 \<and> pid = pid_bytes n \<and> \<not> in_flight c pid \<and> c' = c\<lparr>packet_id := n\<rparr>
    | (Inl e, c') \<Rightarrow> e = AssertionError \<and> {1..65535} \<subseteq> {n. in_flight c (pid_bytes n)})"
  using get_packet_id_Inr [of c] get_packet_id_Inl [of c]
  by (cases "get_packet_id c", cases "fst (get_packet_id c)") (simp_all add: subset_eq)

lemma packet_ack_future_Inr:
  assumes "packet_ack_future pt c = (Inr (pid, f), c')"
  shows "\<exists>n. 1 \<le> n \<and> n \<le> 65535 \<and> pid = pid_bytes n \<and> \<not> in_flight c pid \<and> f = length (futs c) \<and>
    c' = c\<lparr>packet_id := n, futs := futs c @ [Pending],
      packet_ids := (packet_ids c)(pt := AList.update pid f (packet_ids c pt))\<rparr>"
proof -
  from assms obtain c1 where g: "get_packet_id c = (Inr pid, c1)" and f: "f = length (futs c1)"
    and c': "c' = c1\<lparr>futs := futs c1 @ [Pending],
      packet_ids := (packet_ids c1)(pt := AList.update pid f (packet_ids c1 pt))\<rparr>"
    by (auto simp: packet_ack_future_def py_simps new_future_def split: prod.splits sum.splits)
  from get_packet_id_Inr [OF g] f c' show ?thesis by auto
qed

text \<open>
  what \<open>publish\<close> registers. The packet it returns is the PUBLISH of the topic and payload
  under an id that was not in flight, the id is now in flight with the returned future, which is
  new and pending, and no other id changes.
\<close>

theorem publish_registers:
  assumes "publish L topic payload dup c = (Inr (raw, f), c')"
  shows "\<exists>pid n. 1 \<le> n \<and> n \<le> 65535 \<and> pid = pid_bytes n \<and> \<not> in_flight c pid \<and>
    build_publish L topic payload pid dup = Inr raw \<and>
    f = length (futs c) \<and> futs c' = futs c @ [Pending] \<and>
    (\<lambda>pt pid'. map_of (packet_ids c' pt) pid') =
      (\<lambda>pt pid'. if pt = PUBACK \<and> pid' = pid then Some f else map_of (packet_ids c pt) pid')"
proof -
  from assms obtain pid where g: "packet_ack_future PUBACK c = (Inr (pid, f), c')"
    and b: "build_publish L topic payload pid dup = Inr raw"
    by (auto simp: publish_def py_simps split: prod.splits sum.splits if_splits)
  from packet_ack_future_Inr [OF g] obtain n where "1 \<le> n" "n \<le> 65535" "pid = pid_bytes n"
    "\<not> in_flight c pid" "f = length (futs c)"
    and c': "c' = c\<lparr>packet_id := n, futs := futs c @ [Pending],
      packet_ids := (packet_ids c)(PUBACK := AList.update pid f (packet_ids c PUBACK))\<rparr>" by blast
  moreover have "map_of (packet_ids c' pt) pid' =
      (if pt = PUBACK \<and> pid' = pid then Some f else map_of (packet_ids c pt) pid')" for pt pid'
    by (simp add: c' update_lookup)
  ultimately show ?thesis using b by (intro exI [of _ pid] exI [of _ n]) (simp add: fun_eq_iff)
qed

lemma demo_publish:
  "\<exists>c. publish demo_lib ''ab'' (PyBytes [1]) False demo_client = (Inr ([0x32, 7, 0, 2, 97, 98, 0, 1, 1], 0), c)"
proof -
  have pid: "get_packet_id demo_client = (Inr [0, 1], demo_client\<lparr>packet_id := 1\<rparr>)"
    by (simp add: get_packet_id_def gpid_step Let_def in_flight_def ack_types_def demo_client_def
        new_client_def next_pid_def pid_bytes_def be_encode_widths)
  show ?thesis
    using pid by (simp add: publish_def py_simps packet_ack_future_def new_future_def build_publish_frame
        mqtt_enc_str_def struct_pack_def be_encode_widths frame_def build_header_Cons header_byte_val encode_small
        demo_client_def new_client_def)
qed

theorem publish_registers_witness:
  "\<exists>c. publish demo_lib ''ab'' (PyBytes [1]) False demo_client = (Inr ([0x32, 7, 0, 2, 97, 98, 0, 1, 1], 0), c) \<and>
     futs c = futs demo_client @ [Pending]"
  using demo_publish publish_registers by fastforce

text \<open>
  \<open>dequeue_msg\<close> never raises. Without a number it deletes the queue and nothing else; with one
  it keeps every entry, so that numbers are not given twice, and resolves the entry's future if
  it is still pending.
\<close>

theorem dequeue_msg_spec:
  "\<exists>c'. dequeue_msg qid seq t c = (Inr (), c') \<and>
    (case seq of
       None \<Rightarrow> futs c' = futs c \<and> find_meta c' = (find_meta c)((t, qid) := (\<lambda>_. None))
     | Some i \<Rightarrow> find_meta c' = find_meta c \<and>
         futs c' = (case find_meta c (t, qid) i of
           None \<Rightarrow> futs c | Some m \<Rightarrow> fut_settle (m_app_ack m) (Result FTrue) (futs c)))"
proof (cases "map_of (msg_queues c t) qid")
  case None
  then have "find_meta c (t, qid) = (\<lambda>_. None)" by (simp add: find_meta_alt fun_eq_iff)
  with None show ?thesis by (auto simp: dequeue_msg_def split: option.split)
next
  case (Some q)
  then have "find_meta c (t, qid) = map_of q" by (simp add: find_meta_alt fun_eq_iff)
  with Some show ?thesis
    by (auto simp: dequeue_msg_def set_result_def future_done_def fut_settle_def find_meta_del_queue
        fun_eq_iff split: option.split)
qed

definition futs_in_flight :: "client \<Rightarrow> nat set" where
  "futs_in_flight c = snd ` (set (packet_ids c SUBACK) \<union> set (packet_ids c PUBACK))"

lemma cancel_futures_nth:
  "i < length fs \<Longrightarrow> cancel_futures is fs ! i =
     (if i \<in> set is \<and> fs ! i = Pending then Cancelled else fs ! i)"
proof (induction "is" arbitrary: fs)
  case (Cons j "is")
  have "cancel_futures (j # is) fs = cancel_futures is (fut_settle j Cancelled fs)"
    by (simp add: cancel_futures_def)
  moreover have "fut_settle j Cancelled fs ! i = (if i = j \<and> fs ! i = Pending then Cancelled else fs ! i)"
    using Cons.prems by (auto simp: fut_settle_def fut_done_def)
  ultimately show ?case using Cons by simp
qed (simp add: cancel_futures_def)

text \<open>
  a new connection starts clean. \<open>reset_session_state\<close> empties the stream buffer and both
  tables of packet ids and restarts the counter; every future that was in flight is done
  afterwards, a future that was done keeps its value, and one that was not in flight is as it was.
\<close>

theorem reset_session_state_spec:
  assumes "i < length (futs c)"
  shows "buf (reset_session_state c) = [] \<and> packet_id (reset_session_state c) = 0 \<and>
    packet_ids (reset_session_state c) SUBACK = [] \<and> packet_ids (reset_session_state c) PUBACK = [] \<and>
    futs (reset_session_state c) ! i =
      (if i \<in> futs_in_flight c \<and> futs c ! i = Pending then Cancelled else futs c ! i)"
  using cancel_futures_nth [OF assms]
  by (simp add: reset_session_fields futs_reset futs_in_flight_def image_Un)

theorem reset_session_state_spec_witness:
  "\<exists>c. publish demo_lib ''ab'' (PyBytes [1]) False demo_client = (Inr ([0x32, 7, 0, 2, 97, 98, 0, 1, 1], 0), c) \<and>
     futs (reset_session_state c) ! 0 = Cancelled"
proof -
  obtain c where c: "publish demo_lib ''ab'' (PyBytes [1]) False demo_client = (Inr ([0x32, 7, 0, 2, 97, 98, 0, 1, 1], 0), c)"
    using demo_publish by blast
  then have "futs c = [Pending]" and "packet_ids c PUBACK = [([0, 1], 0)]"
    by (auto simp: publish_def py_simps packet_ack_future_def new_future_def get_packet_id_def gpid_step Let_def
        in_flight_def ack_types_def demo_client_def new_client_def next_pid_def pid_bytes_def be_encode_widths
        split: sum.splits prod.splits)
  then have "0 < length (futs c)" and "0 \<in> futs_in_flight c" and "futs c ! 0 = Pending"
    by (simp_all add: futs_in_flight_def)
  with c reset_session_state_spec [of 0 c] show ?thesis by simp
qed

text \<open>
  pruning. \<open>prune_msg_ids\<close> forgets just the hashes, in both tables, that are older than twice
  the republish duration.
\<close>

theorem prune_msg_ids_spec:
  assumes "distinct (map fst (recv_msg_ids c))" and "distinct (map fst (sent_msg_ids c))"
  shows "recv_msg_ids (prune_msg_ids now c) =
      filter (\<lambda>(_, t). now - t \<le> 2 * real_of_int (republish_duration c)) (recv_msg_ids c) \<and>
    sent_msg_ids (prune_msg_ids now c) =
      filter (\<lambda>(_, t). now - t \<le> 2 * real_of_int (republish_duration c)) (sent_msg_ids c)"
  using prune_loop_self [OF assms(1), of now "real_of_int (republish_duration c * 2)"]
    prune_loop_self [OF assms(2), of now "real_of_int (republish_duration c * 2)"]
  by (simp add: prune_msg_ids_def Let_def mult.commute)

theorem prune_msg_ids_spec_witness:
  "recv_msg_ids (prune_msg_ids 100 (demo_client\<lparr>republish_duration := 20, recv_msg_ids := [(''a'', 10), (''b'', 70)]\<rparr>))
     = [(''b'', 70)]"
  using prune_msg_ids_spec [of "demo_client\<lparr>republish_duration := 20, recv_msg_ids := [(''a'', 10), (''b'', 70)]\<rparr>" 100]
  by (simp add: demo_client_def new_client_def)

end
