(* ===== verification/Connect.thy ===== *)
theory Connect
  imports Reader Ordered_Send
begin

text \<open>
  Connecting to the broker (\<open>mqtt/mqtt_connect.py\<close>): the CONNECT handshake, the subscription to
  the client's own key, and the loop that reconnects. While the code waits for an
  acknowledgement, the chunks that arrive are read; which ones arrive is the environment's
  choice (\<open>arrivals\<close>), and so is the outcome of connecting, sending, receiving and closing. An
  environment that answers with \<open>CancelledError\<close> stands for a task cancelled at that wait.
\<close>

section \<open>Pipes\<close>

definition send_on :: "lib \<Rightarrow> nat \<Rightarrow> bytes \<Rightarrow> (client, unit) py" where
  "send_on L p b = (\<lambda>c. case pipe_send_exn L (length (trace c)) of
     None \<Rightarrow> (Inr (), c\<lparr>trace := trace c @ [Sent p b]\<rparr>)
   | Some e \<Rightarrow> (Inl e, c\<lparr>trace := trace c @ [SendFailed p b e]\<rparr>))"

definition pipe_close :: "lib \<Rightarrow> nat \<Rightarrow> (client, unit) py" where
  "pipe_close L p = (\<lambda>c.
     (case pipe_close_exn L (length (trace c)) of None \<Rightarrow> Inr () | Some e \<Rightarrow> Inl e,
      c\<lparr>pipe_closed := (pipe_closed c)(p := True), trace := trace c @ [PipeShut p]\<rparr>))"

text \<open>\<open>await Pipe(TCP, dest, route).connect()\<close> and the check that there is a pipe.\<close>

definition tcp_pipe :: "lib \<Rightarrow> (client, nat) py" where
  "tcp_pipe L = (\<lambda>c.
     let p = next_pipe c; c' = c\<lparr>next_pipe := p + 1\<rparr> in
     case tcp_connect L p of
       Inl e \<Rightarrow> (Inl e, c')
     | Inr ok \<Rightarrow> if ok then (Inr p, c'\<lparr>trace := trace c @ [PipeOpened p]\<rparr>) else (Inl ConnectionError, c'))"

text \<open>\<open>self.client_id = self.client_id or rand_plain(15)\<close>\<close>

definition ensure_client_id :: "lib \<Rightarrow> (client, string) py" where
  "ensure_client_id L = (\<lambda>c. case client_id c of
     Some (x # xs) \<Rightarrow> (Inr (x # xs), c)
   | _ \<Rightarrow> (let s = rand_plain L (draws c) 15 in (Inr s, c\<lparr>client_id := Some s, draws := draws c + 1\<rparr>)))"

section \<open>The subscription\<close>

text \<open>
  \<open>await asyncio.wait_for(future, timeout=4)\<close>: the chunks that arrive meanwhile are read, each
  by a callback of its own, so that an exception of the reader stays there. A future still
  pending afterwards is cancelled by the timeout.
\<close>

definition await_codes :: "lib \<Rightarrow> nat \<Rightarrow> (client, bytes) py" where
  "await_codes L f =
     py_bind (py_get (\<lambda>c. arrivals L (length (trace c)))) (\<lambda>chunks.
     py_seq (py_for chunks (\<lambda>x. py_except (mqtt_packet_reader L x) (\<lambda>_. True) (py_return ())))
     (\<lambda>c. case fut_peek (futs c) f of
        Some (Result (FBytes codes)) \<Rightarrow> (Inr codes, c)
      | Some (Result FTrue) \<Rightarrow> (Inl TypeError, c)
      | Some Cancelled \<Rightarrow> (Inl CancelledError, c)
      | _ \<Rightarrow> (Inl TimeoutError, c\<lparr>futs := fut_settle f Cancelled (futs c)\<rparr>)))"

text \<open>\<open>for code in return_codes: if code != 1: raise ConnectionError\<close>\<close>

definition check_codes :: "bytes \<Rightarrow> (client, unit) py" where
  "check_codes codes = py_check (list_all (\<lambda>code. code = 1) codes) ConnectionError"

definition subscribe_to_identity :: "lib \<Rightarrow> nat \<Rightarrow> (client, unit) py" where
  "subscribe_to_identity L p =
     py_bind (py_get (\<lambda>c. to_h L (compact_public_key (kp c)))) (\<lambda>pub_hex.
     py_bind (subscribe L pub_hex) (\<lambda>(b, packet_ack).
     py_seq (send_on L p b)
     (py_bind (await_codes L packet_ack) check_codes)))"

section \<open>The handshake\<close>

definition MQTT_PIPELINE_HANDSHAKE :: bool where
  "MQTT_PIPELINE_HANDSHAKE = False"

text \<open>\<open>except BaseException: h; raise\<close>, where \<open>h\<close> swallows every \<open>Exception\<close> of its own.\<close>

definition py_cleanup :: "('s, 'a) py \<Rightarrow> ('s, unit) py \<Rightarrow> ('s, 'a) py" where
  "py_cleanup m h = (\<lambda>s. case m s of
     (Inr x, s') \<Rightarrow> (Inr x, s')
   | (Inl e, s') \<Rightarrow> (case h s' of
       (r, s'') \<Rightarrow> (Inl (if r = Inl CancelledError then CancelledError else e), s'')))"

lemma keeps_cleanup [valid_rules]: "keeps P m \<Longrightarrow> keeps P h \<Longrightarrow> keeps P (py_cleanup m h)"
proof (rule keepsI)
  fix s assume "keeps P m" "keeps P h" "P s"
  then have "P (snd (m s))" "P (snd (h (snd (m s))))" by (blast intro: keeps_snd)+
  then show "P (snd (py_cleanup m h s))" by (cases "m s") (auto simp: py_cleanup_def split: sum.split prod.split)
qed

definition read_connack :: "lib \<Rightarrow> nat \<Rightarrow> (client, bytes) py" where
  "read_connack L p = (case recv_n L p 4 of
     Inl e \<Rightarrow> if e = TimeoutError then py_seq (pipe_close L p) (py_raise ConnectionError) else py_raise e
   | Inr raw \<Rightarrow>
       if take 4 raw \<noteq> [0x20, 0x02, 0x00, 0x00]
       then py_seq (pipe_close L p) (py_raise ConnectionError)
       else py_return (drop 4 raw))"

definition finish_pipelined :: "lib \<Rightarrow> bytes \<Rightarrow> nat \<Rightarrow> (client, unit) py" where
  "finish_pipelined L suback_leftover sub_ack_future =
     py_seq (py_when (suback_leftover \<noteq> []) (mqtt_packet_reader L suback_leftover))
     (py_bind (await_codes L sub_ack_future) check_codes)"

definition mqtt_connect_with :: "lib \<Rightarrow> bool \<Rightarrow> int \<Rightarrow> (client, nat) py" where
  "mqtt_connect_with L pipelined keep_alive =
     py_bind (py_get af) (\<lambda>a.
     py_seq (py_check (af_supported L a) (ValueError ''NIC does not support address family''))
     (py_bind (ensure_client_id L) (\<lambda>cid.
      py_bind (tcp_pipe L) (\<lambda>p.
      py_bind (py_lift (build_connect L cid keep_alive)) (\<lambda>connect_buf.
      py_seq (send_on L p connect_buf)
      (py_bind
        (if pipelined then
           py_bind (py_get (\<lambda>c. to_h L (compact_public_key (kp c)))) (\<lambda>pub_hex.
           py_bind (subscribe L pub_hex) (\<lambda>(sub_buf, f).
           py_seq (send_on L p sub_buf) (py_return (Some f))))
         else py_return None) (\<lambda>sub_ack_future.
       py_bind (read_connack L p) (\<lambda>suback_leftover.
       py_seq (py_modify (\<lambda>c. c\<lparr>pipe := Some p\<rparr>))
       (py_seq
         (py_cleanup
           (case sub_ack_future of
              Some f \<Rightarrow> finish_pipelined L suback_leftover f
            | None \<Rightarrow> subscribe_to_identity L p)
           (py_seq (py_modify (\<lambda>c. c\<lparr>pipe := None\<rparr>)) (pipe_close L p)))
         (py_return p))))))))))"

definition mqtt_connect :: "lib \<Rightarrow> int \<Rightarrow> (client, nat) py" where
  "mqtt_connect L keep_alive = mqtt_connect_with L MQTT_PIPELINE_HANDSHAKE keep_alive"

section \<open>Reconnecting\<close>

definition uniform_draw :: "lib \<Rightarrow> real \<Rightarrow> real \<Rightarrow> (client, real) py" where
  "uniform_draw L a b = (\<lambda>c. (Inr (uniform L (draws c) a b), c\<lparr>draws := draws c + 1\<rparr>))"

definition reconnect_exn :: "exn \<Rightarrow> bool" where
  "reconnect_exn e \<longleftrightarrow> e = TimeoutError \<or> is_OSError e"

definition close_old :: "lib \<Rightarrow> (client, unit) py" where
  "close_old L = py_bind (py_get pipe) (\<lambda>p. case p of None \<Rightarrow> py_return () | Some p \<Rightarrow> pipe_close L p)"

text \<open>One turn of the loop: whether it connected.\<close>

definition reconnect_once :: "lib \<Rightarrow> int \<Rightarrow> nat \<Rightarrow> (client, bool) py" where
  "reconnect_once L keep_alive attempts =
     py_seq (close_old L)
     (py_seq (py_modify reset_session_state)
     (py_bind (py_except (py_bind (mqtt_connect L keep_alive) (\<lambda>_. py_return True)) reconnect_exn (py_return False)) (\<lambda>ok.
      if ok then py_return True
      else
        let cap = min (2 ^ attempts) 60 in
        py_bind (uniform_draw L 0 cap) (\<lambda>delay. py_return False))))"

text \<open>
  The loop \<open>while not client.is_closed.is_set()\<close> runs as long as the broker is away; \<open>fuel\<close>
  bounds its turns, and \<open>None\<close> is a loop that has not ended by then.
\<close>

fun reconnect_loop :: "lib \<Rightarrow> int \<Rightarrow> nat \<Rightarrow> nat \<Rightarrow> client \<Rightarrow> (unit res \<times> client) option" where
  "reconnect_loop L keep_alive attempts 0 c = None"
| "reconnect_loop L keep_alive attempts (Suc fuel) c =
     (if is_closed c \<or> pipe_open c then Some (Inr (), c)
      else case reconnect_once L keep_alive attempts c of
        (Inl e, c') \<Rightarrow> Some (Inl e, c')
      | (Inr ok, c') \<Rightarrow> if ok then Some (Inr (), c') else reconnect_loop L keep_alive (attempts + 1) fuel c')"

section \<open>What the traffic keeps\<close>

text \<open>
  A property \<open>P\<close> of the client that survives the handling of every packet survives the reading
  of whatever arrives, and the waiting for an acknowledgement.
\<close>

locale reading =
  fixes P :: "client \<Rightarrow> bool" and L :: lib
  assumes handle_ok: "keeps P (handle_mqtt_packet L p)" and buffer_ok: "P c \<Longrightarrow> P (c\<lparr>buf := x11\<rparr>)"
begin

lemma reading_loop: "P c \<Longrightarrow> P (snd (reader_loop L c))"
proof (induction "length (buf c)" arbitrary: c rule: less_induct)
  case less
  show ?case
  proof (cases "next_frame (buf c)")
    case (Some n)
    let ?c = "set_buf (drop n (buf c)) c"
    obtain r c2 where run: "handle_frame L (take n (buf c)) ?c = (r, c2)" by fastforce
    have "P ?c" using less.prems by (simp add: set_buf_def buffer_ok)
    moreover have "keeps P (handle_frame L (take n (buf c)))"
      unfolding handle_frame_def async_wrap_errors_def by (intro valid_rules handle_ok)
    ultimately have P2: "P c2" using keeps_snd [of P "handle_frame L (take n (buf c))" ?c] run by simp
    have "length (buf c2) < length (buf c)"
      using handle_frame_buf [OF run] next_frame_pos [OF Some] by auto
    with less.hyps P2 have "P (snd (reader_loop L c2))" by blast
    with P2 show ?thesis unfolding reader_step [OF Some] run by (simp split: sum.split)
  qed (simp add: reader_stop less.prems)
qed

lemma reading: "keeps P (mqtt_packet_reader L chunk)"
  by (rule keepsI) (simp add: mqtt_packet_reader_def reading_loop buffer_ok)

end

locale receiving = reading +
  assumes subscribe_ok: "keeps P (subscribe L topic)" and send_ok: "keeps P (send_on L i x)"
    and expire_ok: "P c \<Longrightarrow> P (c\<lparr>futs := fut_settle i Cancelled (futs c)\<rparr>)"
begin

lemma awaiting: "keeps P (await_codes L i)"
proof -
  have "keeps P (\<lambda>c. case fut_peek (futs c) i of
        Some (Result (FBytes codes)) \<Rightarrow> (Inr codes, c)
      | Some (Result FTrue) \<Rightarrow> (Inl TypeError, c)
      | Some Cancelled \<Rightarrow> (Inl CancelledError, c)
      | _ \<Rightarrow> (Inl TimeoutError, c\<lparr>futs := fut_settle i Cancelled (futs c)\<rparr>))"
    by (rule keepsI) (simp add: expire_ok split: option.split fut.split fut_val.split)
  then show ?thesis unfolding await_codes_def by (intro valid_rules reading)
qed

lemma subscribing: "keeps P (subscribe_to_identity L p)" "keeps P (finish_pipelined L b i)"
  unfolding subscribe_to_identity_def finish_pipelined_def check_codes_def
  by (intro valid_rules subscribe_ok send_ok awaiting reading)+

end

text \<open>
  A property \<open>P\<close> of the client that sending messages of the types \<open>T\<close> keeps, because it survives
  the writing of the clocks, tables and queues and the entry of new messages: \<open>Pf f\<close> is \<open>P\<close> with a
  new future \<open>f\<close> in hand that no message has yet. What is received makes the client send
  acknowledgements only.
\<close>

lemma keeps_deliver:
  assumes "\<And>c n. P c \<Longrightarrow> P (c\<lparr>ticks := n\<rparr>)" and "\<And>c ids. P c \<Longrightarrow> P (c\<lparr>recv_msg_ids := ids\<rparr>)"
    and "\<And>c x. P c \<Longrightarrow> P (c\<lparr>trace := trace c @ [x]\<rparr>)"
  shows "keeps P (deliver L msg src qid)"
proof -
  have "keeps P (get_time L)" "keeps P (run_handler L msg src qid h)" for h
    unfolding run_handler_def async_wrap_errors_def by (intro valid_rules keepsI, simp add: get_time_def assms)+
  then show ?thesis unfolding deliver_def Let_def by (intro valid_rules assms(2))
qed

locale replying =
  fixes P :: "client \<Rightarrow> bool" and Pf :: "nat \<Rightarrow> client \<Rightarrow> bool" and A :: "msg_enum \<Rightarrow> string \<Rightarrow> int \<Rightarrow> bytes \<Rightarrow> bool"
    and T :: "msg_enum \<Rightarrow> bool" and L :: lib
  assumes ticks_ok: "P c \<Longrightarrow> P (c\<lparr>ticks := Suc (ticks c)\<rparr>)" and draws_ok: "P c \<Longrightarrow> P (c\<lparr>draws := x2\<rparr>)"
    and sent_ok: "P c \<Longrightarrow> P (c\<lparr>sent_msg_ids := x7\<rparr>)" and deliver_ok: "keeps P (deliver L msg src qid)"
    and last_ok: "P c \<Longrightarrow> P (c\<lparr>last_send := x9\<rparr>)" and trace_ok: "P c \<Longrightarrow> P (c\<lparr>trace := trace c @ [x10]\<rparr>)"
    and buf_ok: "P c \<Longrightarrow> P (c\<lparr>buf := x11\<rparr>)"
    and ensure_ok: "P c \<Longrightarrow> P (ensure_queue t qid c)" and drop_acks_ok: "P c \<Longrightarrow> P (drop_old_acks qid k c)"
    and fresh_future: "valid P new_future Pf P" and fresh_time: "keeps (Pf f) (get_time L)"
    and fresh_keeps: "Pf f c \<Longrightarrow> P c"
    and packed: "P c \<Longrightarrow> pack L (AppPacket qid k (msg_val t) msg) c = (Inr (out, p), c') \<Longrightarrow> A t qid k out"
    and packed_async: "P c \<Longrightarrow> pack_async L (AppPacket qid k (msg_val t) msg) c = (Inr (out, p), c') \<Longrightarrow> A t qid k out"
    and fresh_entry: "T t \<Longrightarrow> m_seq_no m = k \<Longrightarrow> A t qid k (m_out m) \<Longrightarrow> valid (Pf (m_app_ack m)) (put_meta t qid k m) (\<lambda>_. P) P"
    and packet_ack: "keeps P (packet_ack_future pt)" and acks_sent: "T MSGACK"
begin

lemma updates:
  "keeps P (py_modify (\<lambda>c. c\<lparr>sent_msg_ids := h1 c\<rparr>))"
  "keeps P (py_modify (\<lambda>c. c\<lparr>last_send := h3 c\<rparr>))" "keeps P (py_modify (ensure_queue t qid))"
  "keeps P (py_modify (drop_old_acks qid k))"
  by (rule keeps_modify, simp add: sent_ok last_ok ensure_ok drop_acks_ok)+

lemma steps:
  "keeps P (get_time L)" "keeps P (draw L n)" "keeps P (uniform_draw L a b)" "keeps P (pipe_send L x)"
  "keeps P (send_on L p x)" "keeps P (sign_with sg s)" "keeps P (get_queue t qid)"
  by (rule keepsI, simp add: ticks_ok draws_ok trace_ok get_time_def draw_def uniform_draw_def pipe_send_def send_on_def
      sign_with_def get_queue_def split: option.split)+

lemmas rules = valid_rules updates steps packet_ack

lemma packing: "keeps P (pack L p)" "keeps P (pack_async L p)"
  unfolding pack_def pack_async_def stamp_def Let_def by (intro rules)+

lemma packing_then:
  assumes "\<And>out p. A t qid i out \<Longrightarrow> keeps P (k out p)"
  shows "keeps P (py_bind (pack L (AppPacket qid i (msg_val t) msg)) (\<lambda>(out, p). k out p))"
    and "keeps P (py_bind (pack_async L (AppPacket qid i (msg_val t) msg)) (\<lambda>(out, p). k out p))"
proof -
  have then_k: "keeps P (py_bind m (\<lambda>(out, p). k out p))"
    if "keeps P m" "\<And>c out p c'. P c \<Longrightarrow> m c = (Inr (out, p), c') \<Longrightarrow> A t qid i out" for m
  proof (rule keepsI)
    fix c assume "P c"
    show "P (snd (py_bind m (\<lambda>(out, p). k out p) c))"
    proof (cases "m c")
      case (Pair r c')
      with keeps_snd [OF that(1) \<open>P c\<close>] have "P c'" by simp
      then show ?thesis
        using Pair that(2) [OF \<open>P c\<close>] keeps_snd [OF assms] by (auto simp: py_bind_app split: sum.split)
    qed
  qed
  show "keeps P (py_bind (pack L (AppPacket qid i (msg_val t) msg)) (\<lambda>(out, p). k out p))"
    by (rule then_k [OF packing(1)]) (rule packed)
  show "keeps P (py_bind (pack_async L (AppPacket qid i (msg_val t) msg)) (\<lambda>(out, p). k out p))"
    by (rule then_k [OF packing(2)]) (rule packed_async)
qed

lemma queue_id: "keeps P (queue_id_or_random L q)"
  unfolding queue_id_or_random_def by (cases q rule: option.exhaust) (auto intro!: rules split: list.split)

lemma prepare: "keeps P (oas_prepare L msg dest qid t seq)"
  unfolding oas_prepare_def note_sent_def Let_def by (intro rules)

lemma fresh_return: "valid (Pf f) (py_return m) (\<lambda>x c. Pf f c \<and> x = m) P"
  by (auto simp: valid_def py_simps)

lemma time_fresh: "valid (Pf f) (get_time L) (\<lambda>_. Pf f) P"
  by (rule valid_weaken [OF fresh_time]) (auto intro: fresh_keeps)

lemma commit: "T t \<Longrightarrow> A t qid i out \<Longrightarrow> keeps P (oas_commit L dest qid t i out)"
proof -
  assume A: "T t" "A t qid i out"
  have "keeps P (py_bind new_future (\<lambda>app_ack. py_bind (get_time L) (\<lambda>now.
      py_seq (put_meta t qid i (mk app_ack now)) (py_return (g app_ack)))))"
    if "\<And>f now. m_app_ack (mk f now) = f \<and> m_seq_no (mk f now) = i \<and> m_out (mk f now) = out" for mk and g :: "nat \<Rightarrow> (string \<times> int) \<times> nat"
    by (rule valid_bind [OF fresh_future valid_bind [OF time_fresh valid_seq [OF _ keeps_return]]])
      (metis fresh_entry that A)
  then have "keeps P (py_bind new_future (\<lambda>app_ack. py_bind (get_time L) (\<lambda>now.
      py_seq (put_meta t qid i \<lparr>m_app_ack = app_ack, m_dest_pk_hex = dest, m_seq_no = i, m_out = out,
      m_updated = 0, m_created = now, m_attempts = 0, m_probe_one_shot = False\<rparr>) (py_return ((qid, i), app_ack)))))"
    by simp
  then show ?thesis
    unfolding oas_commit_def by (intro keeps_bind [OF steps(7)] keeps_case_option keeps_return)
qed

lemma sending_typed: "T t \<Longrightarrow> keeps P (queue_msg L msg dest q t seq)" "T t \<Longrightarrow> keeps P (queue_msg_async L msg dest q t seq)"
  unfolding queue_msg_def queue_msg_async_def ordered_ack_send_def ordered_ack_send_async_def touch_last_send_def
  by (intro rules packing_then queue_id prepare commit; assumption)+

lemma publishing: "keeps P (publish L topic payload dup)" "keeps P (subscribe L topic)"
  unfolding publish_def subscribe_def by (intro rules)+

lemma one_shot_put:
  assumes "T t" and "A t qid i out" and "\<And>m. keeps P (k m)"
  shows "keeps P (py_bind (one_shot_meta L dest i out) (\<lambda>m. py_seq (put_meta t qid i m) (k m)))"
proof -
  let ?mk = "\<lambda>f now. \<lparr>m_app_ack = f, m_dest_pk_hex = dest, m_seq_no = i, m_out = out,
       m_updated = 0, m_created = now, m_attempts = 0, m_probe_one_shot = True\<rparr>"
  have one: "valid P (one_shot_meta L dest i out) (\<lambda>m c. Pf (m_app_ack m) c \<and> m_seq_no m = i \<and> m_out m = out) P"
    unfolding one_shot_meta_def
    by (rule valid_bind [OF fresh_future valid_bind [OF time_fresh valid_weaken [OF fresh_return]]]) auto
  have "valid (\<lambda>c. Pf (m_app_ack m) c \<and> m_seq_no m = i \<and> m_out m = out) (put_meta t qid i m) (\<lambda>_. P) P" for m
    using assms(1,2) by (intro valid_assume fresh_entry) auto
  then show ?thesis by (intro valid_bind [OF one valid_seq [OF _ assms(3)]])
qed

lemma probing_typed: "T PROBE \<Longrightarrow> keeps P (send_probe L dest q)" "keeps P (send_probe_ack L dest qid k)"
  unfolding send_probe_def send_probe_ack_def send_if_open_def touch_last_send_def Let_def
  by (intro rules packing_then queue_id publishing one_shot_put acks_sent; assumption)+

lemma wrapping: "keeps P m \<Longrightarrow> keeps P (async_wrap_errors L m)"
  unfolding async_wrap_errors_def by (intro valid_rules)

lemma msg_in: "keeps P (process_app_msg L p)" "keeps P (process_app_probe L p)"
  unfolding process_app_msg_def resend_ack_def enqueue_ack_def wrapped_send_def process_app_probe_def Let_def
  by (intro rules sending_typed publishing wrapping deliver_ok probing_typed acks_sent)+

end

text \<open>Messages of every type.\<close>

locale keeping = replying P Pf A "\<lambda>_. True" L for P Pf A L
begin

lemmas sending = sending_typed [OF TrueI]
lemmas probing = probing_typed(1) [OF TrueI] probing_typed(2)

end

text \<open>
  The simple case: \<open>P\<close> reads none of the fields that traffic writes, except the store of futures:
  \<open>growing\<close> when it survives that futures are added, as sending does, \<open>settling\<close> when it also
  survives that they get their results.
\<close>

locale growing =
  fixes P :: "client \<Rightarrow> bool"
  assumes time_ok: "P c \<Longrightarrow> P (c\<lparr>ticks := Suc (ticks c)\<rparr>)" and draw_ok: "P c \<Longrightarrow> P (c\<lparr>draws := x2\<rparr>)"
    and new_ok: "P c \<Longrightarrow> P (c\<lparr>futs := futs c @ [Pending]\<rparr>)" and queues_ok: "P c \<Longrightarrow> P (c\<lparr>msg_queues := x4\<rparr>)"
    and ids_ok: "P c \<Longrightarrow> P (c\<lparr>packet_ids := x5\<rparr>)" and counter_ok: "P c \<Longrightarrow> P (c\<lparr>packet_id := x6\<rparr>)"
    and sent_ids_ok: "P c \<Longrightarrow> P (c\<lparr>sent_msg_ids := x7\<rparr>)" and delivery_ok: "keeps P (deliver L msg src qid)"
    and last_send_ok: "P c \<Longrightarrow> P (c\<lparr>last_send := x9\<rparr>)" and log_ok: "P c \<Longrightarrow> P (c\<lparr>trace := trace c @ [x10]\<rparr>)"
    and stream_ok: "P c \<Longrightarrow> P (c\<lparr>buf := x11\<rparr>)"
begin

lemmas fields = time_ok draw_ok new_ok queues_ok ids_ok counter_ok sent_ids_ok last_send_ok log_ok stream_ok

lemma growing_queues: "P c \<Longrightarrow> P (set_queue t qid q c)" "P c \<Longrightarrow> P (del_queue t qid c)"
  by (simp_all add: set_queue_def del_queue_def fields)

lemma growing_packet_ack: "keeps P (packet_ack_future pt)"
proof -
  have "keeps P get_packet_id"
  proof (rule keepsI)
    fix c assume "P c"
    moreover obtain n where "snd (get_packet_id c) = c\<lparr>packet_id := n\<rparr>"
      using gpid_loop_snd [of 0 c] by (auto simp: get_packet_id_def)
    ultimately show "P (snd (get_packet_id c))" by (simp add: fields)
  qed
  moreover have "keeps P new_future" by (rule keepsI) (simp add: new_future_def fields)
  ultimately show ?thesis unfolding packet_ack_future_def by (intro valid_rules ids_ok)
qed

lemma growing_entry: "keeps P (put_meta t qid k m)" "keeps P (get_time L)" "keeps P new_future"
  by (rule keepsI, simp add: put_meta_def get_time_def new_future_def growing_queues fields split: option.split)+

end

sublocale growing \<subseteq> keeping P "\<lambda>_. P" "\<lambda>_ _ _ _. True" L for L
  by unfold_locales (simp_all add: fields delivery_ok growing_packet_ack growing_entry growing_queues ensure_queue_def drop_old_acks_def
      split: option.split)

text \<open>
  A property that replying keeps, and that survives that futures get their results and what an
  acknowledgement does, is kept by whatever is received.
\<close>

locale resolving =
  fixes P :: "client \<Rightarrow> bool"
  assumes done_ok: "P c \<Longrightarrow> v \<noteq> Pending \<Longrightarrow> P (c\<lparr>futs := fut_settle i v (futs c)\<rparr>)"
    and freed_ok: "P c \<Longrightarrow> P (c\<lparr>packet_ids := x5\<rparr>)"
begin

lemma result: "keeps P (set_result i v)"
  by (rule keepsI) (simp add: set_result_def done_ok)

end

locale hearing = replying + resolving +
  assumes ack_in: "keeps P (ack_loop ts qid k src)"
begin

lemma handling: "keeps P (handle_mqtt_packet L p)"
  unfolding handle_mqtt_packet_alt handle_broker_ack_def handle_publish_def route_def too_old_def send_puback_def
    process_app_ack_def Let_def
  by (intro rules result msg_in ack_in freed_ok)

end

text \<open>It is enough that it survives that resolved probes are forgotten.\<close>

locale answering = keeping + resolving +
  assumes forget_ok: "P c \<Longrightarrow> P (forget_probe t qid k c)" and restart_ok: "P c \<Longrightarrow> P (c\<lparr>packet_id := 0\<rparr>)"
begin

lemma acks: "keeps P (ack_loop ts qid k src)"
  by (induction ts) (auto intro!: rules result forget_ok)

lemma cancelling: "P c \<Longrightarrow> P (c\<lparr>futs := cancel_futures is (futs c)\<rparr>)"
proof (induction "is" arbitrary: c)
  case (Cons i "is")
  from Cons.IH [OF done_ok [OF Cons.prems, of Cancelled i]] show ?case by (simp add: cancel_futures_def)
qed (simp add: cancel_futures_def)

lemma resetting_type: "P c \<Longrightarrow> P (reset_packet_type pt c)"
  using freed_ok [OF cancelling, of c] by (simp add: reset_packet_type_def)

lemma resetting: "P c \<Longrightarrow> P (reset_session_state c)"
  by (simp add: reset_session_state_def ack_types_def buf_ok restart_ok resetting_type)

end

sublocale answering \<subseteq> hearing P Pf A "\<lambda>_. True" L
  by unfold_locales (rule acks)

sublocale answering \<subseteq> receiving P L
  by unfold_locales (auto intro: handling publishing steps buf_ok done_ok)

locale settling = growing +
  assumes settle_ok: "P c \<Longrightarrow> v \<noteq> Pending \<Longrightarrow> P (c\<lparr>futs := fut_settle i v (futs c)\<rparr>)"

sublocale settling \<subseteq> answering P "\<lambda>_. P" "\<lambda>_ _ _ _. True" L for L
  by unfold_locales (simp_all add: settle_ok fields forget_probe_def del_entry_def growing_queues Let_def split: option.split)

text \<open>
  A view \<open>f\<close> of the client into which no field written by the traffic enters: its value is
  such a property.
\<close>

locale traffic_free =
  fixes f :: "client \<Rightarrow> 'v"
  assumes ticks_free: "f (c\<lparr>ticks := x1\<rparr>) = f c" and draws_free: "f (c\<lparr>draws := x2\<rparr>) = f c"
    and futs_free: "f (c\<lparr>futs := x3\<rparr>) = f c" and queues_free: "f (c\<lparr>msg_queues := x4\<rparr>) = f c"
    and ids_free: "f (c\<lparr>packet_ids := x5\<rparr>) = f c" and counter_free: "f (c\<lparr>packet_id := x6\<rparr>) = f c"
    and sent_free: "f (c\<lparr>sent_msg_ids := x7\<rparr>) = f c" and recv_free: "f (c\<lparr>recv_msg_ids := x8\<rparr>) = f c"
    and last_free: "f (c\<lparr>last_send := x9\<rparr>) = f c" and trace_free: "f (c\<lparr>trace := x10\<rparr>) = f c"
    and buf_free: "f (c\<lparr>buf := x11\<rparr>) = f c"
begin

lemmas free = ticks_free draws_free futs_free queues_free ids_free counter_free sent_free recv_free
  last_free trace_free buf_free

end

sublocale traffic_free \<subseteq> fixed: settling "\<lambda>c. f c = k" for k
  by unfold_locales (rule keeps_deliver | simp add: free)+

context traffic_free
begin

lemma free_steps:
  "leaves f (get_time L)" "leaves f (draw L n)" "leaves f (uniform_draw L a b)" "leaves f (pipe_send L x)"
  "leaves f (send_on L p x)" "leaves f (set_result i v)" "leaves f (sign_with sg s)"
  "leaves f (get_queue t qid)" "leaves f (put_meta t qid k m)" "leaves f new_future"
  by (simp_all add: leaves_def fixed.steps fixed.result fixed.growing_entry)

lemma free_publish: "leaves f (publish L topic payload dup)" "leaves f (subscribe L topic)"
  by (simp_all add: leaves_def fixed.publishing)

lemma free_wrap: "leaves f m \<Longrightarrow> leaves f (async_wrap_errors L m)"
  by (simp add: leaves_def fixed.wrapping)

lemma free_await: "leaves f (await_codes L i)"
  by (simp add: leaves_def fixed.awaiting)

lemma free_subscribe: "leaves f (subscribe_to_identity L p)" "leaves f (finish_pipelined L b i)"
  by (simp_all add: leaves_def fixed.subscribing)

lemma free_reader: "leaves f (mqtt_packet_reader L chunk)"
  by (simp add: leaves_def fixed.reading)

lemma free_reset: "f (reset_session_state c) = f c"
  by (rule fixed.resetting) simp

end

text \<open>The state of the connection is such a view.\<close>

definition conn :: "client \<Rightarrow> bool \<times> nat option \<times> (nat \<Rightarrow> bool) \<times> nat \<times> int \<times> string option \<times> task option \<times> keypair" where
  "conn c = (is_closed c, pipe c, pipe_closed c, next_pipe c, af c, client_id c, dispatcher_task c, kp c)"

interpretation conn: traffic_free conn
  by unfold_locales (simp_all add: conn_def)

definition settings :: "client \<Rightarrow> nat list \<times> int \<times> real option \<times> string \<times> int" where
  "settings c = (msg_handlers c, republish_duration c, last_connect c, host c, port c)"

interpretation settings: traffic_free settings
  by unfold_locales (simp_all add: settings_def)

section \<open>Facts about connecting\<close>

text \<open>The pipe numbers not yet given out belong to no closed pipe.\<close>

definition pipes_ok :: "client \<Rightarrow> bool" where
  "pipes_ok c \<longleftrightarrow> (\<forall>p \<ge> next_pipe c. \<not> pipe_closed c p) \<and> (\<forall>p. pipe c = Some p \<longrightarrow> p < next_pipe c)"

lemma pipes_ok_conn: "conn c' = conn c \<Longrightarrow> pipes_ok c' = pipes_ok c"
  by (simp add: conn_def pipes_ok_def)

lemma pipe_open_conn: "conn c' = conn c \<Longrightarrow> pipe_open c' = pipe_open c"
  by (simp add: conn_def pipe_open_def split: option.split)

lemma reset_conn [simp]: "conn (reset_session_state c) = conn c"
  by (rule conn.free_reset)

lemma tcp_pipe_Inr:
  "tcp_pipe L c = (Inr p, c') \<Longrightarrow>
   p = next_pipe c \<and> tcp_connect L p = Inr True \<and> c' = c\<lparr>next_pipe := p + 1, trace := trace c @ [PipeOpened p]\<rparr>"
  by (auto simp: tcp_pipe_def Let_def split: sum.splits if_splits)

lemma tcp_pipe_snd: "\<exists>t. snd (tcp_pipe L c) = c\<lparr>next_pipe := next_pipe c + 1, trace := t\<rparr>"
proof (cases "tcp_connect L (next_pipe c)")
  case (Inl e)
  then show ?thesis by (intro exI [of _ "trace c"]) (simp add: tcp_pipe_def Let_def)
next
  case (Inr ok)
  then show ?thesis
    by (intro exI [of _ "if ok then trace c @ [PipeOpened (next_pipe c)] else trace c"]) (simp add: tcp_pipe_def Let_def)
qed

text \<open>The part of the connection a handshake changes: the table of pipes and the current one.\<close>

definition line :: "client \<Rightarrow> nat option \<times> nat \<times> (nat \<Rightarrow> bool)" where
  "line c = (pipe c, next_pipe c, pipe_closed c)"

interpretation line: traffic_free line
  by unfold_locales (simp_all add: line_def)

lemma line_client_id [simp]: "line (snd (ensure_client_id L c)) = line c"
  by (simp add: ensure_client_id_def line_def Let_def split: option.split list.split)

lemma close_line: "line (snd (pipe_close L p c)) = (pipe c, next_pipe c, (pipe_closed c)(p := True))"
  by (simp add: pipe_close_def line_def)

text \<open>
  The handshake in three parts: up to the CONNECT sent, reading the CONNACK, the subscription.
\<close>

definition open_line :: "lib \<Rightarrow> int \<Rightarrow> (client, nat) py" where
  "open_line L keep_alive =
     py_bind (py_get af) (\<lambda>a.
     py_seq (py_check (af_supported L a) (ValueError ''NIC does not support address family''))
     (py_bind (ensure_client_id L) (\<lambda>cid.
      py_bind (tcp_pipe L) (\<lambda>p.
      py_bind (py_lift (build_connect L cid keep_alive)) (\<lambda>connect_buf.
      py_seq (send_on L p connect_buf) (py_return p))))))"

definition use_line :: "lib \<Rightarrow> nat \<Rightarrow> (client, nat) py" where
  "use_line L p =
     py_bind (read_connack L p) (\<lambda>_.
     py_seq (py_modify (\<lambda>c. c\<lparr>pipe := Some p\<rparr>))
     (py_seq
       (py_cleanup (subscribe_to_identity L p)
         (py_seq (py_modify (\<lambda>c. c\<lparr>pipe := None\<rparr>)) (pipe_close L p)))
       (py_return p)))"

lemma mqtt_connect_parts: "mqtt_connect L keep_alive = py_bind (open_line L keep_alive) (use_line L)"
  by (simp add: mqtt_connect_def mqtt_connect_with_def MQTT_PIPELINE_HANDSHAKE_def open_line_def use_line_def
      py_simps fun_eq_iff split: prod.split sum.split)

lemma open_line_snd:
  "line (snd (open_line L ka c)) = line c \<or> line (snd (open_line L ka c)) = (pipe c, next_pipe c + 1, pipe_closed c)"
  and open_line_Inr: "open_line L ka c = (Inr p, c') \<Longrightarrow>
    p = next_pipe c \<and> tcp_connect L p = Inr True \<and> line c' = (pipe c, next_pipe c + 1, pipe_closed c)"
proof -
  obtain r1 c1 where id: "ensure_client_id L c = (r1, c1)" by fastforce
  have l1: "line c1 = line c" using line_client_id [of L c] id by simp
  obtain r2 c2 where tcp: "tcp_pipe L c1 = (r2, c2)" by fastforce
  have l2: "line c2 = (pipe c, next_pipe c + 1, pipe_closed c)"
    using tcp_pipe_snd [of L c1] l1 tcp by (auto simp: line_def)
  have l3: "line (snd (send_on L q b c2)) = line c2" for q b
    using leavesD [OF line.free_steps(5)] .
  have l3': "line c3 = line c2" if "send_on L q b c2 = (r, c3)" for q b r c3
    using l3 [of q b] that by simp
  show "line (snd (open_line L ka c)) = line c \<or> line (snd (open_line L ka c)) = (pipe c, next_pipe c + 1, pipe_closed c)"
    using l1 l2 l3'
    by (simp add: open_line_def py_simps id tcp split: sum.split prod.split)
  assume run: "open_line L ka c = (Inr p, c')"
  then have r2: "r2 = Inr p" and c': "\<exists>r q b. send_on L q b c2 = (r, c')"
    by (auto simp: open_line_def py_simps id tcp split: sum.splits prod.splits if_splits)
  have "p = next_pipe c1 \<and> tcp_connect L p = Inr True" using tcp_pipe_Inr [OF tcp [unfolded r2]] by blast
  moreover have "next_pipe c1 = next_pipe c" using l1 by (simp add: line_def)
  moreover have "line c' = line c2" using c' l3' by blast
  ultimately show "p = next_pipe c \<and> tcp_connect L p = Inr True \<and> line c' = (pipe c, next_pipe c + 1, pipe_closed c)"
    using l2 by auto
qed

lemma await_codes_Inr:
  "await_codes L f c = (Inr codes, c') \<Longrightarrow> fut_peek (futs c') f = Some (Result (FBytes codes))"
  by (auto simp: await_codes_def py_simps split: prod.splits sum.splits option.splits fut.splits fut_val.splits)

text \<open>What has happened stays in the trace, and later events come after it.\<close>

interpretation grown: settling "\<lambda>c. \<exists>u. trace c = t @ u" for t
  by unfold_locales (rule keeps_deliver | auto)+

text \<open>
  The subscription made in the state \<open>d\<close> on the pipe \<open>p\<close> and granted by the state \<open>c'\<close>: its future
  is a new one, registered with the acknowledgements of subscriptions under the id of the SUBSCRIBE
  for the client's own key; this SUBSCRIBE is sent, and the future has a list of codes that are all 1.
\<close>

definition granted :: "lib \<Rightarrow> nat \<Rightarrow> client \<Rightarrow> client \<Rightarrow> bool" where
  "granted L p d c' \<longleftrightarrow> (\<exists>pid b d1 codes.
     subscribe L (to_h L (compact_public_key (kp d))) d = (Inr (b, length (futs d)), d1) \<and>
     build_subscribe L (to_h L (compact_public_key (kp d))) pid = Inr b \<and>
     (pid, length (futs d)) \<in> set (packet_ids d1 SUBACK) \<and>
     (\<exists>u. trace c' = trace d @ Sent p b # u) \<and>
     fut_peek (futs c') (length (futs d)) = Some (Result (FBytes codes)) \<and> (\<forall>x \<in> set codes. x = 1))"

lemma update_in: "(k, v) \<in> set (AList.update k v xs)"
  by (induction xs) auto

lemma subscribe_Inr:
  assumes "subscribe L topic c = (Inr (b, f), c')"
  shows "f = length (futs c) \<and> trace c' = trace c \<and>
    (\<exists>pid. build_subscribe L topic pid = Inr b \<and> (pid, f) \<in> set (packet_ids c' SUBACK))"
  using assms by (auto simp: subscribe_def py_simps update_in dest!: packet_ack_future_Inr split: prod.splits sum.splits)

lemma subscribed:
  assumes "subscribe_to_identity L p c = (Inr (), c')"
  shows "granted L p c c'"
proof -
  let ?hex = "to_h L (compact_public_key (kp c))"
  from assms obtain b f c1 c2 codes where sub: "subscribe L ?hex c = (Inr (b, f), c1)" and send: "send_on L p b c1 = (Inr (), c2)"
    and aw: "await_codes L f c2 = (Inr codes, c')" and ok: "list_all (\<lambda>x. x = 1) codes"
    by (auto simp: subscribe_to_identity_def check_codes_def py_simps split: prod.splits sum.splits if_splits)
  note s = subscribe_Inr [OF sub]
  have "trace c2 = (trace c @ [Sent p b]) @ []" using send s by (auto simp: send_on_def split: option.splits)
  with keeps_snd [OF grown.awaiting, of c2 "trace c @ [Sent p b]" L f] aw have "\<exists>u. trace c' = trace c @ Sent p b # u" by simp
  then show ?thesis
    unfolding granted_def using s sub await_codes_Inr [OF aw] ok by (auto simp: list_all_iff)
qed

lemma use_line_run:
  assumes "line c = (q, n, cl)"
  shows "case use_line L p c of
      (Inr p', c') \<Rightarrow> p' = p \<and> line c' = (Some p, n, cl) \<and>
        (\<exists>raw. recv_n L p 4 = Inr raw \<and> take 4 raw = [0x20, 0x02, 0x00, 0x00]) \<and> granted L p (c\<lparr>pipe := Some p\<rparr>) c'
    | (Inl e, c') \<Rightarrow> line c' = (None, n, cl(p := True)) \<or> line c' = (q, n, cl(p := True)) \<or>
        line c' = (q, n, cl) \<and> recv_n L p 4 = Inl e \<and> e \<noteq> TimeoutError"
proof (cases "read_connack L p c")
  case (Pair r c1)
  show ?thesis
  proof (cases r)
    case (Inl e)
    with Pair have "line c1 = (q, n, cl(p := True)) \<or> line c1 = (q, n, cl) \<and> recv_n L p 4 = Inl e \<and> e \<noteq> TimeoutError"
      using assms
      by (auto simp: read_connack_def py_simps pipe_close_def line_def split: sum.splits if_splits prod.splits option.splits)
    with Pair Inl show ?thesis by (simp add: use_line_def py_simps)
  next
    case (Inr rest)
    with Pair have c1: "c1 = c" and raw: "\<exists>raw. recv_n L p 4 = Inr raw \<and> take 4 raw = [0x20, 0x02, 0x00, 0x00]"
      by (auto simp: read_connack_def py_simps split: sum.splits if_splits prod.splits)
    let ?c = "c\<lparr>pipe := Some p\<rparr>"
    obtain r2 c2 where sub: "subscribe_to_identity L p ?c = (r2, c2)" by fastforce
    have l2: "line c2 = (Some p, n, cl)"
      using leavesD [OF line.free_subscribe(1), of L p ?c] sub assms by (simp add: line_def)
    show ?thesis
    proof (cases r2)
      case (Inl e)
      with l2 show ?thesis
        using Pair Inr c1 sub
        by (simp add: use_line_def py_simps py_cleanup_def pipe_close_def line_def)
    next
      case (Inr u)
      with subscribed [of L p ?c c2] sub have "granted L p ?c c2" by simp
      with l2 raw Inr show ?thesis
        using Pair \<open>r = Inr rest\<close> c1 sub by (simp add: use_line_def py_simps py_cleanup_def)
    qed
  qed
qed

lemma client_id_run:
  "\<exists>cid i n. ensure_client_id L c = (Inr cid, c\<lparr>client_id := i, draws := n\<rparr>) \<and> (\<forall>x xs. client_id c = Some (x # xs) \<longrightarrow> i = client_id c)"
proof (cases "\<exists>x xs. client_id c = Some (x # xs)")
  case True
  then obtain x xs where "client_id c = Some (x # xs)" by blast
  then have "ensure_client_id L c = (Inr (x # xs), c\<lparr>client_id := client_id c, draws := draws c\<rparr>)"
    by (simp add: ensure_client_id_def)
  then show ?thesis by blast
next
  case False
  then have "ensure_client_id L c = (Inr (rand_plain L (draws c) 15), c\<lparr>client_id := Some (rand_plain L (draws c) 15), draws := draws c + 1\<rparr>)"
    by (auto simp: ensure_client_id_def Let_def split: option.split list.split)
  with False show ?thesis by blast
qed

text \<open>What the handshake has done when the CONNECT is sent.\<close>

lemma open_line_run:
  assumes "open_line L keep_alive c = (Inr p, c')"
  shows "\<exists>cid hello. build_connect L cid keep_alive = Inr hello \<and>
    trace c' = trace c @ [PipeOpened p, Sent p hello] \<and> kp c' = kp c \<and> futs c' = futs c"
proof -
  obtain cid c1 where id: "ensure_client_id L c = (Inr cid, c1)" "trace c1 = trace c" "kp c1 = kp c" "futs c1 = futs c"
    using client_id_run [of L c] by auto
  from assms id obtain q c2 where tcp: "tcp_pipe L c1 = (Inr q, c2)"
    by (auto simp: open_line_def py_simps split: prod.splits sum.splits if_splits)
  from tcp_pipe_Inr [OF tcp] assms id tcp show ?thesis
    by (auto simp: open_line_def py_simps send_on_def split: prod.splits sum.splits if_splits option.splits)
qed

lemma connected_means_subscribed_aux:
  assumes "mqtt_connect L keep_alive c = (Inr p, c')" and "pipes_ok c"
  shows "p = next_pipe c \<and> pipe c' = Some p \<and> pipe_open c' \<and> pipes_ok c' \<and>
    (\<exists>raw. recv_n L p 4 = Inr raw \<and> take 4 raw = [0x20, 0x02, 0x00, 0x00]) \<and>
    (\<exists>d cid hello. granted L p d c' \<and> pipe d = Some p \<and> kp d = kp c \<and> futs d = futs c \<and>
       build_connect L cid keep_alive = Inr hello \<and> trace d = trace c @ [PipeOpened p, Sent p hello])"
proof -
  from assms(1) obtain q c1 where o: "open_line L keep_alive c = (Inr q, c1)" and u: "use_line L q c1 = (Inr p, c')"
    by (auto simp: mqtt_connect_parts py_simps split: prod.splits sum.splits)
  note o' = open_line_Inr [OF o]
  from use_line_run [where c = c1 and q = "pipe c" and n = "next_pipe c + 1" and cl = "pipe_closed c" and L = L and p = q] o' u
  have run: "p = q" "line c' = (Some p, next_pipe c + 1, pipe_closed c)"
    "\<exists>raw. recv_n L p 4 = Inr raw \<and> take 4 raw = [0x20, 0x02, 0x00, 0x00]" "granted L p (c1\<lparr>pipe := Some p\<rparr>) c'"
    by auto
  from open_line_run [OF o] run(1,4) have "\<exists>d cid hello. granted L p d c' \<and> pipe d = Some p \<and> kp d = kp c \<and> futs d = futs c \<and>
       build_connect L cid keep_alive = Inr hello \<and> trace d = trace c @ [PipeOpened p, Sent p hello]"
    by (elim exE) (rule exI [of _ "c1\<lparr>pipe := Some p\<rparr>"], auto)
  moreover from run o' assms(2) have "p = next_pipe c \<and> pipe c' = Some p \<and> pipe_open c' \<and> pipes_ok c'"
    by (auto simp: line_def pipe_open_def pipes_ok_def)
  ultimately show ?thesis using run(3) by blast
qed

lemma failed_connect_pipes_ok:
  assumes "mqtt_connect L keep_alive c = (Inl e, c')" and "pipes_ok c"
  shows "pipes_ok c'"
proof (cases "open_line L keep_alive c")
  case (Pair r c1)
  show ?thesis
  proof (cases r)
    case (Inl e')
    with Pair assms have "c' = c1" by (simp add: mqtt_connect_parts py_simps)
    with open_line_snd [of L keep_alive c] Pair assms(2) show ?thesis by (auto simp: line_def pipes_ok_def less_SucI)
  next
    case (Inr q)
    with Pair have o': "q = next_pipe c" "line c1 = (pipe c, next_pipe c + 1, pipe_closed c)"
      using open_line_Inr by auto
    from assms(1) Pair Inr have "use_line L q c1 = (Inl e, c')" by (simp add: mqtt_connect_parts py_simps)
    with use_line_run [OF o'(2), where L = L and p = q] have "line c' = (None, next_pipe c + 1, (pipe_closed c)(q := True)) \<or>
        line c' = (pipe c, next_pipe c + 1, (pipe_closed c)(q := True)) \<or> line c' = (pipe c, next_pipe c + 1, pipe_closed c)"
      by auto
    with o'(1) assms(2) show ?thesis by (auto simp: line_def pipes_ok_def less_SucI)
  qed
qed

section \<open>Properties\<close>


text \<open>
  A broker that accepts the client on the pipe \<open>p\<close>: TCP connects, nothing that is sent fails, the first
  bytes are the CONNACK, and while the client waits the SUBACK of the first packet id arrives, in
  whatever pieces; the subscription itself can be encoded.
\<close>

definition welcomes :: "lib \<Rightarrow> nat \<Rightarrow> client \<Rightarrow> bool" where
  "welcomes L p c \<longleftrightarrow> af_supported L (af c) \<and> tcp_connect L p = Inr True \<and> (\<forall>i. pipe_send_exn L i = None) \<and>
     (\<exists>raw. recv_n L p 4 = Inr raw \<and> take 4 raw = [0x20, 0x02, 0x00, 0x00]) \<and>
     (\<forall>i. concat (arrivals L i) = [0x90, 3, 0, 1, 1]) \<and>
     (\<exists>t. mqtt_enc_str L (to_h L (compact_public_key (kp c))) = Inr t)"

lemma for_guarded: "py_for xs f c = (Inr u, c') \<Longrightarrow> py_for xs (\<lambda>x. py_except (f x) q h) c = (Inr (), c')"
  by (induction xs arbitrary: c) (auto simp: py_simps split: prod.splits sum.splits)

lemma suback_arrives:
  assumes "packet_ids c SUBACK = [([0, 1], f)]" and "fut_peek (futs c) f = Some Pending" and "buf c = []"
    and "concat chunks = [0x90, 3, 0, 1, 1]"
  shows "py_for chunks (mqtt_packet_reader L) c =
    (Inr (), c\<lparr>futs := (futs c)[f := Result (FBytes [1])], packet_ids := (packet_ids c)(SUBACK := [])\<rparr>)"
proof -
  let ?f = "frame SUBACK 0 [0, 1, 1]"
  let ?c' = "c\<lparr>futs := (futs c)[f := Result (FBytes [1])], packet_ids := (packet_ids c)(SUBACK := [])\<rparr>"
  have f: "concat chunks = ?f" using assms(4) by (simp add: frame_def build_header_Cons header_byte_val encode_small)
  have sp: "split_frames ?f = ([?f], [])"
    using frames.split_frames [of "[?f]" "[]"] next_of_frame [of "[0, 1, 1]" SUBACK 0]
    by (simp add: frames.split_stop next_frame_def)
  have pending: "\<not> fut_done (futs c) f" using assms(2) by (simp add: fut_done_peek)
  have ack: "handle_broker_ack (parsed SUBACK 0 [0, 1, 1]) c = (Inr (), ?c')"
    using assms(1) pending by (simp add: handle_broker_ack_def Let_def py_simps set_result_def future_done_def fut_settle_def)
  then have hf: "handle_frame L ?f c = handle_broker_ack (parsed SUBACK 0 [0, 1, 1]) c"
    using parse_frame [of "[0, 1, 1]" SUBACK 0]
    by (simp add: handle_frame_def py_simps async_wrap_errors_def handle_mqtt_packet_alt)
  from sp hf ack have "py_for (fst (split_frames (buf c @ concat chunks))) (handle_frame L) c = (Inr (), ?c')"
    by (simp add: assms(3) f py_simps)
  from read_chunks [OF this] sp have "py_for chunks (mqtt_packet_reader L) c = (Inr (), set_buf [] ?c')"
    by (simp add: assms(3) f next_frame_def)
  moreover have "set_buf [] ?c' = ?c'" by (simp add: set_buf_def assms(3))
  ultimately show ?thesis by simp
qed

text \<open>Such a client gets its connection: a new session needs one round trip.\<close>

lemma subscription_goes:
  assumes w: "welcomes L p c" and new: "packet_ids c SUBACK = []" "packet_ids c PUBACK = []" "packet_id c = 0" "buf c = []"
  shows "\<exists>c'. subscribe_to_identity L p c = (Inr (), c') \<and> last_send c' = last_send c"
proof -
  let ?hex = "to_h L (compact_public_key (kp c))"
  have pid: "get_packet_id c = (Inr [0, 1], c\<lparr>packet_id := 1\<rparr>)"
    using new by (simp add: get_packet_id_def gpid_step Let_def in_flight_def ack_types_def next_pid_def pid_bytes_def be_encode_widths)
  obtain b where b: "build_subscribe L ?hex [0, 1] = Inr b" using w by (auto simp: welcomes_def build_subscribe_def Let_def)
  define c2 where "c2 = c\<lparr>packet_id := 1, futs := futs c @ [Pending],
      packet_ids := (packet_ids c)(SUBACK := [([0, 1], length (futs c))]), trace := trace c @ [Sent p b]\<rparr>"
  have "subscribe L ?hex c = (Inr (b, length (futs c)), c2\<lparr>trace := trace c\<rparr>)"
    using pid b new(1) by (simp add: subscribe_def py_simps packet_ack_future_def new_future_def c2_def)
  moreover have "send_on L p b (c2\<lparr>trace := trace c\<rparr>) = (Inr (), c2)" using w by (simp add: send_on_def c2_def welcomes_def)
  moreover have "py_for (arrivals L (length (trace c2))) (mqtt_packet_reader L) c2 =
      (Inr (), c2\<lparr>futs := futs c @ [Result (FBytes [1])], packet_ids := (packet_ids c2)(SUBACK := [])\<rparr>)"
    using suback_arrives [of c2 "length (futs c)"] w new(4) by (simp add: c2_def fut_peek_def nth_append welcomes_def)
  from for_guarded [OF this, of "\<lambda>_. True" "py_return ()"]
  have "await_codes L (length (futs c)) c2 =
      (Inr [1], c2\<lparr>futs := futs c @ [Result (FBytes [1])], packet_ids := (packet_ids c2)(SUBACK := [])\<rparr>)"
    by (simp add: await_codes_def py_simps fut_peek_def nth_append)
  ultimately show ?thesis by (simp add: subscribe_to_identity_def py_simps check_codes_def) (simp add: c2_def)
qed

lemma welcomed:
  assumes w: "welcomes L (next_pipe c) c" and id: "ensure_client_id L c = (Inr cid, c\<lparr>client_id := i, draws := n\<rparr>)"
    and hello: "build_connect L cid keep_alive = Inr hello"
    and new: "packet_ids c SUBACK = []" "packet_ids c PUBACK = []" "packet_id c = 0" "buf c = []"
  shows "\<exists>c'. mqtt_connect L keep_alive c = (Inr (next_pipe c), c') \<and> last_send c' = last_send c"
proof -
  let ?p = "next_pipe c"
  let ?c = "c\<lparr>client_id := i, draws := n, next_pipe := ?p + 1, trace := trace c @ [PipeOpened ?p, Sent ?p hello], pipe := Some ?p\<rparr>"
  have "open_line L keep_alive c = (Inr ?p, ?c\<lparr>pipe := pipe c\<rparr>)"
    using w id hello by (simp add: open_line_def py_simps tcp_pipe_def Let_def send_on_def welcomes_def)
  moreover have "welcomes L ?p ?c" using w by (simp add: welcomes_def)
  then obtain c' where "subscribe_to_identity L ?p ?c = (Inr (), c')" "last_send c' = last_send c"
    using subscription_goes [of L ?p ?c] new by auto
  moreover have "read_connack L ?p (?c\<lparr>pipe := pipe c\<rparr>) = (Inr (drop 4 (projr (recv_n L ?p 4))), ?c\<lparr>pipe := pipe c\<rparr>)"
    using w by (auto simp: welcomes_def read_connack_def py_simps)
  ultimately show ?thesis by (simp add: mqtt_connect_parts py_simps use_line_def py_cleanup_def)
qed

lemma demo_welcomes: "compact_public_key (kp c) = replicate 33 2 \<Longrightarrow> welcomes demo_lib p c"
  by (simp add: welcomes_def mqtt_enc_str_def struct_pack_def)

lemma demo_connect_at:
  "\<exists>c'. mqtt_connect demo_lib 10 (demo_client\<lparr>republish_duration := d, last_connect := l, ticks := k, recv_msg_ids := ids\<rparr>) = (Inr 0, c') \<and> last_send c' = None"
proof -
  let ?c = "demo_client\<lparr>republish_duration := d, last_connect := l, ticks := k, recv_msg_ids := ids\<rparr>"
  obtain hello where "build_connect demo_lib (replicate 15 (CHR ''x'')) 10 = Inr hello"
    by (simp add: build_connect_def mqtt_enc_str_def struct_pack_def)
  moreover have "ensure_client_id demo_lib ?c =
      (Inr (replicate 15 (CHR ''x'')), ?c\<lparr>client_id := Some (replicate 15 (CHR ''x'')), draws := 1\<rparr>)"
    by (simp add: ensure_client_id_def Let_def demo_client_def new_client_def)
  ultimately show ?thesis
    using welcomed [OF demo_welcomes, of ?c] by (simp add: demo_client_def new_client_def)
qed

lemma demo_connect_any: "\<exists>c'. mqtt_connect demo_lib 10 (demo_client\<lparr>republish_duration := d\<rparr>) = (Inr 0, c')"
  using demo_connect_at [where d = d and l = None and k = 0 and ids = "[]"] by (auto simp: demo_client_def new_client_def)

lemma demo_connect: "\<exists>c'. mqtt_connect demo_lib 10 demo_client = (Inr 0, c')"
  using demo_connect_any [of 0] by (simp add: demo_client_def new_client_def)


lemma failed_connect_aux:
  assumes "mqtt_connect L keep_alive c = (Inl e, c')"
  shows "(pipe c' = pipe c \<or> pipe c' = None \<and> pipe_closed c' (next_pipe c)) \<and>
    {q. pipe_closed c q} \<subseteq> {q. pipe_closed c' q} \<and> {q. pipe_closed c' q} \<subseteq> insert (next_pipe c) {q. pipe_closed c q}"
proof (cases "open_line L keep_alive c")
  case (Pair r c1)
  show ?thesis
  proof (cases r)
    case (Inl e')
    with Pair assms have "c' = c1" by (simp add: mqtt_connect_parts py_simps)
    with open_line_snd [of L keep_alive c] Pair show ?thesis by (auto simp: line_def)
  next
    case (Inr q)
    with Pair have o': "q = next_pipe c" "line c1 = (pipe c, next_pipe c + 1, pipe_closed c)"
      using open_line_Inr by auto
    from assms Pair Inr have "use_line L q c1 = (Inl e, c')" by (simp add: mqtt_connect_parts py_simps)
    with use_line_run [OF o'(2), where L = L and p = q] have "line c' = (None, next_pipe c + 1, (pipe_closed c)(q := True)) \<or>
        line c' = (pipe c, next_pipe c + 1, (pipe_closed c)(q := True)) \<or> line c' = (pipe c, next_pipe c + 1, pipe_closed c)"
      by auto
    with o'(1) show ?thesis by (auto simp: line_def)
  qed
qed

text \<open>
  a failed connection is not used. When \<open>mqtt_connect\<close> raises, the client's pipe is the
  one it had, or none after a failed subscription; every pipe that was closed stays closed.
\<close>

theorem failed_connect_leaves_no_pipe:
  assumes "mqtt_connect L keep_alive c = (Inl e, c')"
  shows "(pipe c' = pipe c \<or> pipe c' = None \<and> pipe_closed c' (next_pipe c)) \<and>
    {q. pipe_closed c q} \<subseteq> {q. pipe_closed c' q} \<and> {q. pipe_closed c' q} \<subseteq> insert (next_pipe c) {q. pipe_closed c q}"
  using assms by (rule failed_connect_aux)

theorem failed_connect_leaves_no_pipe_witness:
  "\<exists>e c'. mqtt_connect (demo_lib\<lparr>af_supported := (\<lambda>_. False)\<rparr>) 10 demo_client = (Inl e, c') \<and> pipe c' = None"
proof -
  have run: "mqtt_connect (demo_lib\<lparr>af_supported := (\<lambda>_. False)\<rparr>) 10 demo_client =
      (Inl (ValueError ''NIC does not support address family''), demo_client)"
    by (simp add: mqtt_connect_parts open_line_def py_simps)
  from failed_connect_leaves_no_pipe [OF run] run show ?thesis
    by (auto simp: demo_client_def new_client_def)
qed

text \<open>
  C35: a connection cancelled while it waits for the CONNACK leaks its pipe. If the wait ends in
  \<open>CancelledError\<close>, as it does when the timeout of \<open>MQTTClient.connect\<close> strikes first, the
  TCP pipe has been opened, is not the client's pipe, and is not closed.
\<close>

theorem cancelled_handshake_leaks_pipe:
  assumes "open_line L keep_alive c = (Inr p, c1)" and "recv_n L p 4 = Inl CancelledError" and "pipes_ok c"
  shows "mqtt_connect L keep_alive c = (Inl CancelledError, c1) \<and> p = next_pipe c \<and>
    tcp_connect L p = Inr True \<and> \<not> pipe_closed c1 p \<and> pipe c1 = pipe c \<and> pipe c1 \<noteq> Some p"
proof -
  note o = open_line_Inr [OF assms(1)]
  have "mqtt_connect L keep_alive c = (Inl CancelledError, c1)"
    using assms(1,2) by (simp add: mqtt_connect_parts py_simps use_line_def read_connack_def)
  with o assms(3) show ?thesis by (auto simp: line_def pipes_ok_def)
qed

theorem cancelled_handshake_leaks_pipe_witness:
  "\<exists>c1. mqtt_connect (demo_lib\<lparr>recv_n := (\<lambda>_ _. Inl CancelledError)\<rparr>) 10 demo_client = (Inl CancelledError, c1) \<and>
     \<not> pipe_closed c1 0 \<and> pipe c1 = None"
proof -
  let ?L = "demo_lib\<lparr>recv_n := (\<lambda>_ _. Inl CancelledError)\<rparr>"
  obtain c1 where o: "open_line ?L 10 demo_client = (Inr 0, c1)"
    by (simp add: open_line_def py_simps ensure_client_id_def Let_def tcp_pipe_def send_on_def build_connect_def
        mqtt_enc_str_def struct_pack_def demo_client_def new_client_def)
  have "pipes_ok demo_client" by (simp add: pipes_ok_def demo_client_def new_client_def)
  from cancelled_handshake_leaks_pipe [OF o _ this] show ?thesis
    by (auto simp: demo_client_def new_client_def)
qed

lemma pipes_ok_once:
  assumes "reconnect_once L keep_alive a c = (Inr ok, c')" and "pipes_ok c"
  shows "pipes_ok c' \<and> (ok \<longrightarrow> pipe_open c')"
proof -
  from assms(1) obtain u c0 where cl: "close_old L c = (Inr u, c0)" 
    by (auto simp: reconnect_once_def py_simps split: prod.splits sum.splits)
  have ok0: "pipes_ok (reset_session_state c0)"
  proof -
    have "pipes_ok c0" using cl assms(2)
      by (auto simp: close_old_def py_simps pipe_close_def pipes_ok_def split: option.splits)
    then show ?thesis using pipes_ok_conn [OF reset_conn] by blast
  qed
  obtain r c1 where con: "mqtt_connect L keep_alive (reset_session_state c0) = (r, c1)" by fastforce
  show ?thesis
  proof (cases r)
    case (Inr p)
    with connected_means_subscribed_aux [OF con [unfolded Inr] ok0] cl con assms(1) show ?thesis
      by (auto simp: reconnect_once_def py_simps split: prod.splits sum.splits)
  next
    case (Inl e)
    have "pipes_ok c1" using failed_connect_pipes_ok [OF con [unfolded Inl] ok0] .
    with Inl cl con assms(1) show ?thesis
      by (auto simp: reconnect_once_def py_simps uniform_draw_def Let_def pipes_ok_def split: prod.splits sum.splits if_splits)
  qed
qed

text \<open>
  what \<open>reconnect_loop\<close> establishes. If it returns, the client is closed or has an open
  pipe; if it is neither, the loop has tried to connect, and more turns give the same outcome.
\<close>

theorem reconnect_ends_connected:
  assumes "reconnect_loop L keep_alive a fuel c = Some (Inr (), c')" and "pipes_ok c"
  shows "(is_closed c' \<or> pipe_open c') \<and> reconnect_loop L keep_alive a (fuel + k) c = Some (Inr (), c')"
  using assms
proof (induction fuel arbitrary: a c)
  case (Suc fuel)
  show ?case
  proof (cases "is_closed c \<or> pipe_open c")
    case False
    obtain r c1 where once: "reconnect_once L keep_alive a c = (r, c1)" by fastforce
    with Suc.prems(1) False obtain ok where r: "r = Inr ok" by (cases r) auto
    note p = pipes_ok_once [OF once [unfolded r] Suc.prems(2)]
    show ?thesis
      using False once r p Suc.prems(1) Suc.IH [of "a + 1" c1] by (cases ok) auto
  qed (use Suc.prems in auto)
qed simp

lemma demo_reconnect:
  "\<exists>c'. reconnect_once demo_lib 10 0 demo_client = (Inr True, c') \<and> \<not> is_closed demo_client \<and> \<not> pipe_open demo_client"
proof -
  have "pipe demo_client = None" by (simp add: demo_client_def new_client_def)
  moreover have "reset_session_state demo_client = demo_client"
    by (simp add: reset_session_state_def ack_types_def reset_packet_type_def cancel_futures_def demo_client_def new_client_def
        fun_eq_iff)
  ultimately show ?thesis
    using demo_connect
    by (auto simp: reconnect_once_def py_simps close_old_def pipe_open_def)
       (auto simp: demo_client_def new_client_def)
qed

theorem reconnect_ends_connected_witness:
  "\<exists>c'. reconnect_loop demo_lib 10 0 1 demo_client = Some (Inr (), c') \<and> pipes_ok demo_client \<and>
     (is_closed c' \<or> pipe_open c')"
proof -
  obtain c' where "reconnect_loop demo_lib 10 0 1 demo_client = Some (Inr (), c')"
    using demo_reconnect by auto
  moreover have "pipes_ok demo_client" by (simp add: pipes_ok_def demo_client_def new_client_def)
  ultimately show ?thesis using reconnect_ends_connected [of demo_lib 10 0 1 demo_client c' 0] by blast
qed

text \<open>A turn in which TCP does not connect: it closes the old pipe, and has no other effect on the connection.\<close>

definition refuses :: "lib \<Rightarrow> nat \<Rightarrow> bool" where
  "refuses L p \<longleftrightarrow> tcp_connect L p = Inr False \<or> (\<exists>e. tcp_connect L p = Inl e \<and> reconnect_exn e)"

lemma old_closed:
  assumes "\<forall>i. pipe_close_exn L i = None"
  shows "\<exists>c'. close_old L c = (Inr (), c') \<and> conn c' = conn (c\<lparr>pipe_closed :=
    case pipe c of None \<Rightarrow> pipe_closed c | Some q \<Rightarrow> (pipe_closed c)(q := True)\<rparr>)"
  using assms by (cases "pipe c") (auto simp: close_old_def py_simps pipe_close_def conn_def)

lemma refused_turn:
  assumes "refuses L (next_pipe c)" and "\<forall>i. pipe_close_exn L i = None" and "af_supported L (af c)"
  shows "\<exists>c'. reconnect_once L keep_alive a c = (Inr False, c') \<and> next_pipe c' = next_pipe c + 1 \<and> pipe c' = pipe c \<and>
    pipe_closed c' = (case pipe c of None \<Rightarrow> pipe_closed c | Some q \<Rightarrow> (pipe_closed c)(q := True)) \<and>
    is_closed c' = is_closed c \<and> af c' = af c \<and> kp c' = kp c \<and> (\<forall>x xs. client_id c = Some (x # xs) \<longrightarrow> client_id c' = client_id c)"
proof -
  obtain c1 where old: "close_old L c = (Inr (), c1)" and c1: "conn c1 = conn (c\<lparr>pipe_closed :=
      case pipe c of None \<Rightarrow> pipe_closed c | Some q \<Rightarrow> (pipe_closed c)(q := True)\<rparr>)"
    using old_closed [OF assms(2)] by blast
  let ?c = "reset_session_state c1"
  have c: "conn ?c = conn c1" by simp
  obtain cid c2 where id: "ensure_client_id L ?c = (Inr cid, c2)" and c2: "line c2 = line ?c" "is_closed c2 = is_closed ?c"
    "af c2 = af ?c" "kp c2 = kp ?c" "\<And>x xs. client_id ?c = Some (x # xs) \<Longrightarrow> client_id c2 = client_id ?c"
    using client_id_run [of L ?c] by (force simp: line_def)
  have same: "next_pipe c2 = next_pipe c" "pipe c2 = pipe c" "is_closed c2 = is_closed c" "af ?c = af c" "af c2 = af c" "kp c2 = kp c"
    "pipe_closed c2 = (case pipe c of None \<Rightarrow> pipe_closed c | Some q \<Rightarrow> (pipe_closed c)(q := True))" "client_id ?c = client_id c"
    using c c1 c2 by (auto simp: conn_def line_def)
  obtain e where "tcp_pipe L c2 = (Inl e, c2\<lparr>next_pipe := next_pipe c + 1\<rparr>)" and e: "reconnect_exn e"
    using assms(1) same(1) by (auto simp: refuses_def tcp_pipe_def reconnect_exn_def)
  then have "mqtt_connect L keep_alive ?c = (Inl e, c2\<lparr>next_pipe := next_pipe c + 1\<rparr>)"
    using id assms(3) same(4) by (simp add: mqtt_connect_parts open_line_def py_simps)
  with old e same c2(5) show ?thesis
    by (simp add: reconnect_once_def py_simps uniform_draw_def Let_def)
qed

lemma welcomed_turn:
  assumes "welcomes L (next_pipe c) c" and "\<forall>i. pipe_close_exn L i = None"
    and "client_id c = Some (x # xs)" and "build_connect L (x # xs) keep_alive = Inr hello"
  shows "\<exists>c'. reconnect_once L keep_alive a c = (Inr True, c') \<and> pipe c' = Some (next_pipe c)"
proof -
  obtain c1 where old: "close_old L c = (Inr (), c1)" and c1: "next_pipe c1 = next_pipe c" "af c1 = af c" "kp c1 = kp c"
      "client_id c1 = client_id c"
    using old_closed [OF assms(2), of c] by (auto simp: conn_def)
  let ?c = "reset_session_state c1"
  have "conn ?c = conn c1" by simp
  with c1 have c: "next_pipe ?c = next_pipe c" "af ?c = af c" "kp ?c = kp c" "client_id ?c = client_id c" by (auto simp: conn_def)
  then have "welcomes L (next_pipe ?c) ?c" using assms(1) by (simp add: welcomes_def)
  moreover have "ensure_client_id L ?c = (Inr (x # xs), ?c\<lparr>client_id := client_id ?c, draws := draws ?c\<rparr>)"
    using c(4) assms(3) by (simp add: ensure_client_id_def)
  ultimately have "\<exists>c'. mqtt_connect L keep_alive ?c = (Inr (next_pipe ?c), c') \<and> last_send c' = last_send ?c"
    by (rule welcomed [OF _ _ assms(4)]) (rule reset_session_fields)+
  then obtain c' where con: "mqtt_connect L keep_alive ?c = (Inr (next_pipe c), c')" using c(1) by auto
  have "pipe c' = Some (next_pipe c)"
  proof -
    from con obtain q d where "open_line L keep_alive ?c = (Inr q, d)" and "use_line L q d = (Inr (next_pipe c), c')"
      by (auto simp: mqtt_connect_parts py_simps split: prod.splits sum.splits)
    with use_line_run [OF line_def [of d], where L = L and p = q] show ?thesis by (auto simp: line_def)
  qed
  with old con show ?thesis by (simp add: reconnect_once_def py_simps)
qed



end
