(* ===== verification/Delivery.thy ===== *)
theory Delivery
  imports Client_Frame
begin

text \<open>
  The functional behaviour of sending and receiving: what a queued message is, who may
  resolve its future, when handlers are called and with what, and which packets get there.
\<close>

section \<open>Delivery to the handlers\<close>

text \<open>Documented behaviour of \<open>async_wrap_errors\<close>: an exception of a handler is logged and goes no further.\<close>

definition handlers_contained :: "lib \<Rightarrow> bool" where
  "handlers_contained L \<longleftrightarrow> (\<forall>i e. handler_exn L i = Some e \<longrightarrow> swallows L e)"

definition calls :: "lib \<Rightarrow> pyval \<Rightarrow> string \<Rightarrow> string \<Rightarrow> nat list \<Rightarrow> event list" where
  "calls L msg src qid hs = map (\<lambda>h. Handled h msg src qid) hs"

lemma run_handler_app:
  "handlers_contained L \<Longrightarrow>
   run_handler L msg src qid h c = (Inr (), c\<lparr>trace := trace c @ [Handled h msg src qid]\<rparr>)"
  by (auto simp: run_handler_def async_wrap_errors_def py_simps handlers_contained_def split: option.split)

lemma run_handlers_app:
  "handlers_contained L \<Longrightarrow>
   py_for hs (run_handler L msg src qid) c = (Inr (), c\<lparr>trace := trace c @ calls L msg src qid hs\<rparr>)"
  by (induction hs arbitrary: c) (auto simp: py_simps run_handler_app calls_def)

lemma calls_filter [simp]:
  "filter (\<lambda>e. case e of Handled _ _ _ _ \<Rightarrow> True | _ \<Rightarrow> False) (calls L msg src qid hs) = calls L msg src qid hs"
  by (simp add: calls_def comp_def)

lemma deliver_app:
  assumes "to_b L msg = Inr b" and "handlers_contained L"
  shows "deliver L msg src qid c =
    (if map_of (recv_msg_ids c) (sha256_hex_async L b) \<noteq> None then (Inr (), c)
     else (Inr (), c\<lparr>ticks := ticks c + 1,
        recv_msg_ids := AList.update (sha256_hex_async L b) (clock L (ticks c)) (recv_msg_ids c),
        trace := trace c @ calls L msg src qid (msg_handlers c)\<rparr>))"
  using assms by (simp add: deliver_def Let_def py_simps get_time_def run_handlers_app)

text \<open>Whatever happens, the calls made are calls of the registered handlers with this message.\<close>

lemma run_handler_trace:
  "handled (snd (run_handler L msg src qid h c)) = handled c @ [Handled h msg src qid]"
  by (auto simp: run_handler_def async_wrap_errors_def py_simps handled_def split: option.split)

lemma run_handlers_trace:
  "\<exists>n. handled (snd (py_for hs (run_handler L msg src qid) c)) = handled c @ calls L msg src qid (take n hs)"
proof (induction hs arbitrary: c)
  case (Cons h hs)
  obtain r c1 where run: "run_handler L msg src qid h c = (r, c1)" by fastforce
  then have c1: "handled c1 = handled c @ [Handled h msg src qid]"
    using run_handler_trace [of L msg src qid h c] by simp
  show ?case
  proof (cases r)
    case (Inl e)
    with run c1 show ?thesis by (auto simp: py_simps calls_def intro!: exI [of _ 1])
  next
    case (Inr u)
    obtain n where "handled (snd (py_for hs (run_handler L msg src qid) c1)) = handled c1 @ calls L msg src qid (take n hs)"
      using Cons by blast
    with run c1 Inr show ?thesis by (auto simp: py_simps calls_def intro!: exI [of _ "Suc n"])
  qed
qed (simp add: py_simps calls_def)

lemma deliver_trace:
  "\<exists>n. handled (snd (deliver L msg src qid c)) = handled c @ calls L msg src qid (take n (msg_handlers c))"
proof (cases "to_b L msg")
  case (Inr b)
  show ?thesis
  proof (cases "map_of (recv_msg_ids c) (sha256_hex_async L b)")
    case None
    let ?c = "c\<lparr>ticks := ticks c + 1,
      recv_msg_ids := AList.update (sha256_hex_async L b) (clock L (ticks c)) (recv_msg_ids c)\<rparr>"
    have "handled (snd (deliver L msg src qid c)) = handled (snd (py_for (msg_handlers c) (run_handler L msg src qid) ?c))"
      using Inr None by (simp add: deliver_def Let_def py_simps get_time_def)
    then show ?thesis
      using run_handlers_trace [of "msg_handlers c" L msg src qid ?c] by (simp add: handled_def)
  qed (simp add: deliver_def Let_def py_simps Inr calls_def exI [of _ 0])
qed (simp add: deliver_def py_simps calls_def exI [of _ 0])

lemma find_meta_drop_old:
  "find_meta (drop_old_acks qid k c) q j = (if q = (MSGACK, qid) \<and> j < k then None else find_meta c q j)"
proof (cases "map_of (msg_queues c MSGACK) qid")
  case None
  then show ?thesis by (auto simp: drop_old_acks_def find_meta_alt)
next
  case (Some ack)
  have drop: "map_of (drop_old k ks a) j = (if j < k \<and> j \<in> set ks then None else map_of a j)" for ks a
    by (induction ks arbitrary: a) (auto simp: delete_lookup)
  have key: "map_of ack j = None" if "j \<notin> set (map fst ack)"
    using that by (metis key_iff list.set_map)
  have old: "find_meta c (MSGACK, qid) j = map_of ack j" using Some by (simp add: find_meta_alt)
  have "find_meta (drop_old_acks qid k c) q j =
      (if q = (MSGACK, qid) then map_of (drop_old k (map fst ack) ack) j else find_meta c q j)"
    using Some by (simp add: drop_old_acks_def find_meta_set_queue)
  with drop [of "map fst ack" ack] old key show ?thesis by simp
qed

text \<open>Whether the acknowledgement was sent before is what decides if the message is delivered.\<close>

lemma inbox_run: "quiet m \<Longrightarrow> m c = (r, c') \<Longrightarrow> handled c' = handled c \<and> recv_msg_ids c' = recv_msg_ids c \<and> msg_handlers c' = msg_handlers c"
  using leaves_run [of inbox m c r c'] by (simp add: inbox_def)

lemma resend_ack_none:
  "find_meta c (MSGACK, qid) k = None \<Longrightarrow> resend_ack L qid k c = (Inr False, drop_old_acks qid k c)"
  by (simp add: resend_ack_def py_simps find_meta_drop_old)

lemma resend_ack_some:
  "find_meta c (MSGACK, qid) k = Some m \<Longrightarrow> \<exists>r c'. resend_ack L qid k c = (r, c') \<and> r \<noteq> Inr False"
  by (simp add: resend_ack_def py_simps find_meta_drop_old split: prod.splits sum.splits)

lemma drop_old_acks_sel [simp]:
  "handled (drop_old_acks qid k c) = handled c" "recv_msg_ids (drop_old_acks qid k c) = recv_msg_ids c"
  "msg_handlers (drop_old_acks qid k c) = msg_handlers c" "ticks (drop_old_acks qid k c) = ticks c"
  "trace (drop_old_acks qid k c) = trace c"
  by (simp_all add: drop_old_acks_def set_queue_def handled_def split: option.split)

definition delivery_due :: "lib \<Rightarrow> app_packet \<Rightarrow> bytes \<Rightarrow> client \<Rightarrow> bool" where
  "delivery_due L p b c \<longleftrightarrow> find_meta c (MSGACK, a_queue_id_hex p) (a_seq_no p) = None \<and>
     map_of (recv_msg_ids c) (sha256_hex_async L b) = None"

text \<open>
  C11: delivery, exactly when due. An application message calls every registered handler
  once, in order, with the message, the sender's key and the queue id, if no acknowledgement
  for its queue and sequence number is queued and its hash is not in \<open>recv_msg_ids\<close>; then the
  hash is noted. Otherwise no handler is called and the table of hashes does not change.
\<close>

theorem process_app_msg_delivers:
  assumes "to_b L (a_msg p) = Inr b" and "handlers_contained L"
  shows "handled (snd (process_app_msg L p c)) = handled c @
      (if delivery_due L p b c then calls L (a_msg p) (a_src_pk_hex p) (a_queue_id_hex p) (msg_handlers c) else []) \<and>
    recv_msg_ids (snd (process_app_msg L p c)) =
      (if delivery_due L p b c then AList.update (sha256_hex_async L b) (clock L (ticks c)) (recv_msg_ids c) else recv_msg_ids c)"
proof (cases "find_meta c (MSGACK, a_queue_id_hex p) (a_seq_no p)")
  case None
  let ?c = "drop_old_acks (a_queue_id_hex p) (a_seq_no p) c"
  obtain r c1 where run: "deliver L (a_msg p) (a_src_pk_hex p) (a_queue_id_hex p) ?c = (r, c1)" by fastforce
  obtain r' c2 where ack: "enqueue_ack L (a_src_pk_hex p) (a_queue_id_hex p) (a_seq_no p) c1 = (r', c2)" by fastforce
  have r: "r = Inr ()" using run unfolding deliver_app [OF assms(1,2)] by (simp split: if_splits)
  have "snd (process_app_msg L p c) = c2"
    using r run ack by (simp add: process_app_msg_def Let_def py_simps resend_ack_none [OF None])
  moreover have "handled c2 = handled c1 \<and> recv_msg_ids c2 = recv_msg_ids c1"
    using inbox_run [OF quiet_enqueue_ack ack] by simp
  moreover have "handled c1 = handled c @ (if delivery_due L p b c then calls L (a_msg p) (a_src_pk_hex p) (a_queue_id_hex p) (msg_handlers c) else [])"
    "recv_msg_ids c1 = (if delivery_due L p b c then AList.update (sha256_hex_async L b) (clock L (ticks c)) (recv_msg_ids c) else recv_msg_ids c)"
    using run None unfolding deliver_app [OF assms(1,2)]
    by (auto simp: delivery_due_def handled_def drop_old_acks_sel [unfolded handled_def] split: if_splits)
  ultimately show ?thesis by simp
next
  case (Some m)
  obtain r c' where run: "resend_ack L (a_queue_id_hex p) (a_seq_no p) c = (r, c')" and "r \<noteq> Inr False"
    using resend_ack_some [OF Some] by blast
  then have "snd (process_app_msg L p c) = c'"
    by (auto simp: process_app_msg_def Let_def py_simps split: sum.splits)
  with inbox_run [OF quiet_resend_ack run] Some show ?thesis by (simp add: delivery_due_def)
qed

definition demo_in :: app_packet where
  "demo_in = \<lparr>a_src_pk_hex = hex_of (replicate 33 2), a_sig_hex = [], a_queue_id_hex = hex_of (replicate 32 1),
     a_seq_no = 0, a_timestamp = Some 0, a_msg_type = 1, a_msg = PyStr ''hi''\<rparr>"

lemma demo_contained: "handlers_contained demo_lib"
  by (simp add: handlers_contained_def)

theorem process_app_msg_delivers_witness:
  "handled (snd (process_app_msg demo_lib demo_in (add_msg_handler 7 demo_client))) =
     [Handled 7 (PyStr ''hi'') (hex_of (replicate 33 2)) (hex_of (replicate 32 1))]"
proof -
  let ?c = "add_msg_handler 7 demo_client"
  have "delivery_due demo_lib demo_in [104, 105] ?c"
    by (simp add: delivery_due_def find_meta_alt add_msg_handler_def demo_client_def new_client_def)
  moreover have "handled ?c = []" "msg_handlers ?c = [7]"
    by (simp_all add: handled_def add_msg_handler_def demo_client_def new_client_def)
  ultimately show ?thesis
    using process_app_msg_delivers [of demo_lib demo_in "[104, 105]" ?c] demo_contained
    by (simp add: demo_in_def calls_def)
qed

section \<open>What a packet must be to reach a handler\<close>

text \<open>The trace of a message being processed: the calls made, if any, are of this message.\<close>

lemma process_app_msg_trace:
  "\<exists>hs. set hs \<subseteq> set (msg_handlers c) \<and>
     handled (snd (process_app_msg L p c)) = handled c @ calls L (a_msg p) (a_src_pk_hex p) (a_queue_id_hex p) hs"
proof -
  obtain r c1 where res: "resend_ack L (a_queue_id_hex p) (a_seq_no p) c = (r, c1)" by fastforce
  note in1 = inbox_run [OF quiet_resend_ack res]
  show ?thesis
  proof (cases "r = Inr False")
    case False
    then have "snd (process_app_msg L p c) = c1"
      using res by (auto simp: process_app_msg_def Let_def py_simps split: sum.splits)
    with in1 show ?thesis by (intro exI [of _ "[]"]) (simp add: calls_def)
  next
    case True
    obtain r2 c2 where del: "deliver L (a_msg p) (a_src_pk_hex p) (a_queue_id_hex p) c1 = (r2, c2)" by fastforce
    obtain r3 c3 where enq: "enqueue_ack L (a_src_pk_hex p) (a_queue_id_hex p) (a_seq_no p) c2 = (r3, c3)" by fastforce
    from deliver_trace [of L "a_msg p" "a_src_pk_hex p" "a_queue_id_hex p" c1] del in1 obtain n
      where "handled c2 = handled c @ calls L (a_msg p) (a_src_pk_hex p) (a_queue_id_hex p) (take n (msg_handlers c))"
      by auto
    moreover have "handled (snd (process_app_msg L p c)) = handled c2"
      using True res del enq inbox_run [OF quiet_enqueue_ack enq]
      by (simp add: process_app_msg_def Let_def py_simps split: sum.splits)
    ultimately show ?thesis using set_take_subset by metis
  qed
qed

text \<open>A packet that calls a handler has gone all the way to \<open>process_app_msg\<close>.\<close>

lemma handle_steps:
  assumes "handled (snd (handle_mqtt_packet L pkt c)) \<noteq> handled c"
  shows "\<exists>topic payload pid p c2. p_type pkt = PUBLISH \<and>
    mqtt_parse_publish L pkt = Inr (Some (topic, payload, pid)) \<and>
    h_to_b L topic = Inr (compact_public_key (kp c)) \<and>
    unpack_async L payload = Inr (Some p) \<and> a_msg_type p = msg_val MSG \<and>
    py_int (clock L (ticks c)) - the (a_timestamp p) \<le> 2 * republish_duration c \<and>
    snd (handle_mqtt_packet L pkt c) = snd (process_app_msg L p c2) \<and>
    handled c2 = handled c \<and> recv_msg_ids c2 = recv_msg_ids c \<and> msg_handlers c2 = msg_handlers c \<and> ticks c2 = ticks c + 1"
proof -
  have quiet_not: "handled (snd (m c)) = handled c" if "quiet m" for m :: "(client, unit) py"
    using leavesD [OF that, of c] by (simp add: inbox_def)
  have pub: "p_type pkt = PUBLISH"
    using assms quiet_not [OF quiet_broker_ack] by (auto simp: handle_mqtt_packet_alt py_simps split: if_splits)
  then have h: "handle_mqtt_packet L pkt = handle_publish L pkt" by (simp add: handle_mqtt_packet_alt)
  obtain topic payload pid where parse: "mqtt_parse_publish L pkt = Inr (Some (topic, payload, pid))"
    using assms unfolding h by (auto simp: handle_publish_def py_simps split: sum.splits option.splits prod.splits)
  obtain r c1 where puback: "send_puback L pid c = (r, c1)" by fastforce
  have c1: "handled c1 = handled c" "recv_msg_ids c1 = recv_msg_ids c" "msg_handlers c1 = msg_handlers c"
    using inbox_run [OF quiet_send_puback puback] by auto
  have env: "kp c1 = kp c" "republish_duration c1 = republish_duration c" "ticks c1 = ticks c"
    using puback by (auto simp: send_puback_def py_simps pipe_send_def split: option.splits if_splits)
  let ?own = "compact_public_key (kp c1)"
  have run: "handle_publish L pkt c = (case r of Inl e \<Rightarrow> (Inl e, c1) | Inr _ \<Rightarrow>
      (case h_to_b L topic of Inl e \<Rightarrow> (Inl e, c1) | Inr t \<Rightarrow>
        if t \<noteq> ?own then (Inr (), c1)
        else (case unpack_async L payload of Inl e \<Rightarrow> (Inl e, c1) | Inr None \<Rightarrow> (Inr (), c1)
          | Inr (Some p) \<Rightarrow> py_bind (too_old L p) (\<lambda>old. if old then py_return () else route L p) c1)))"
    by (simp add: handle_publish_def py_simps parse puback split: sum.split option.split)
  obtain p where p: "h_to_b L topic = Inr ?own" "unpack_async L payload = Inr (Some p)"
    and ends: "handle_publish L pkt c = py_bind (too_old L p) (\<lambda>old. if old then py_return () else route L p) c1"
    using assms c1(1) unfolding h run by (auto split: sum.splits option.splits if_splits)
  obtain ro c2 where old: "too_old L p c1 = (ro, c2)" by fastforce
  have c2: "handled c2 = handled c1" "recv_msg_ids c2 = recv_msg_ids c1" "msg_handlers c2 = msg_handlers c1"
    using inbox_run [OF quiet_too_old old] by auto
  have ro: "ro = Inr False" using assms c2 c1 unfolding h ends by (auto simp: py_simps old split: sum.splits)
  have kind: "a_msg_type p = msg_val MSG"
  proof (rule ccontr)
    assume "a_msg_type p \<noteq> msg_val MSG"
    then have "quiet (route L p)" unfolding route_def by (auto intro: leaves_rules)
    from leavesD [OF this, of c2] show False
      using assms c1 c2 ro unfolding h ends by (simp add: py_simps old inbox_def)
  qed
  have fresh: "py_int (clock L (ticks c1)) - the (a_timestamp p) \<le> 2 * republish_duration c1"
    using old ro kind by (auto simp: too_old_def py_simps get_time_def Let_def split: if_splits)
  have "snd (handle_publish L pkt c) = snd (process_app_msg L p c2)"
    using ro kind unfolding ends by (simp add: py_simps old route_def)
  moreover have "ticks c2 = ticks c + 1"
    using old ro kind env(3) by (auto simp: too_old_def py_simps get_time_def Let_def split: if_splits)
  ultimately show ?thesis
    using pub parse p env kind fresh c1 c2 h by (intro exI conjI) (auto simp: env)
qed

lemma handle_trace:
  assumes "handled (snd (handle_mqtt_packet L pkt c)) \<noteq> handled c"
  shows "\<exists>topic payload pid p hs. p_type pkt = PUBLISH \<and>
    mqtt_parse_publish L pkt = Inr (Some (topic, payload, pid)) \<and>
    h_to_b L topic = Inr (compact_public_key (kp c)) \<and>
    unpack_async L payload = Inr (Some p) \<and> a_msg_type p = msg_val MSG \<and>
    py_int (clock L (ticks c)) - the (a_timestamp p) \<le> 2 * republish_duration c \<and> set hs \<subseteq> set (msg_handlers c) \<and>
    handled (snd (handle_mqtt_packet L pkt c)) =
      handled c @ calls L (a_msg p) (a_src_pk_hex p) (a_queue_id_hex p) hs"
proof -
  from handle_steps [OF assms] obtain topic payload pid p c2 where
    steps: "p_type pkt = PUBLISH" "mqtt_parse_publish L pkt = Inr (Some (topic, payload, pid))"
      "h_to_b L topic = Inr (compact_public_key (kp c))" "unpack_async L payload = Inr (Some p)" "a_msg_type p = msg_val MSG"
      "py_int (clock L (ticks c)) - the (a_timestamp p) \<le> 2 * republish_duration c"
      "snd (handle_mqtt_packet L pkt c) = snd (process_app_msg L p c2)" "handled c2 = handled c" "msg_handlers c2 = msg_handlers c"
    by blast
  obtain hs where "set hs \<subseteq> set (msg_handlers c2)"
    "handled (snd (process_app_msg L p c2)) = handled c2 @ calls L (a_msg p) (a_src_pk_hex p) (a_queue_id_hex p) hs"
    using process_app_msg_trace by blast
  with steps show ?thesis by (intro exI conjI) simp_all
qed

text \<open>Handlers are called for a message only if its hash is new, and then it is noted with the time.\<close>

lemma process_app_msg_notes:
  assumes "handled (snd (process_app_msg L p c)) \<noteq> handled c"
  shows "\<exists>b. to_b L (a_msg p) = Inr b \<and> map_of (recv_msg_ids c) (sha256_hex_async L b) = None \<and>
    recv_msg_ids (snd (process_app_msg L p c)) = AList.update (sha256_hex_async L b) (clock L (ticks c)) (recv_msg_ids c)"
proof -
  obtain r c1 where res: "resend_ack L (a_queue_id_hex p) (a_seq_no p) c = (r, c1)" by fastforce
  note in1 = inbox_run [OF quiet_resend_ack res]
  have r: "r = Inr False"
    using assms res in1 by (auto simp: process_app_msg_def Let_def py_simps split: sum.splits)
  then have "find_meta c (MSGACK, a_queue_id_hex p) (a_seq_no p) = None"
    using res resend_ack_some [of c "a_queue_id_hex p" "a_seq_no p" _ L] by fastforce
  with res have t: "ticks c1 = ticks c" by (simp add: resend_ack_none) (metis drop_old_acks_sel(4))
  obtain r2 c2 where del: "deliver L (a_msg p) (a_src_pk_hex p) (a_queue_id_hex p) c1 = (r2, c2)" by fastforce
  obtain r3 c3 where enq: "enqueue_ack L (a_src_pk_hex p) (a_queue_id_hex p) (a_seq_no p) c2 = (r3, c3)" by fastforce
  have last: "handled (snd (process_app_msg L p c)) = handled c2 \<and> recv_msg_ids (snd (process_app_msg L p c)) = recv_msg_ids c2"
    using r res del enq inbox_run [OF quiet_enqueue_ack enq]
    by (simp add: process_app_msg_def Let_def py_simps split: sum.splits)
  have changed: "handled c2 \<noteq> handled c1" using assms last in1 by simp
  obtain b where b: "to_b L (a_msg p) = Inr b"
    using changed del by (cases "to_b L (a_msg p)") (auto simp: deliver_def py_simps)
  have none: "map_of (recv_msg_ids c1) (sha256_hex_async L b) = None"
    using changed del b by (simp add: deliver_def py_simps Let_def split: if_splits)
  let ?d = "c1\<lparr>ticks := ticks c1 + 1, recv_msg_ids := AList.update (sha256_hex_async L b) (clock L (ticks c1)) (recv_msg_ids c1)\<rparr>"
  have "(r2, c2) = py_for (msg_handlers c1) (run_handler L (a_msg p) (a_src_pk_hex p) (a_queue_id_hex p)) ?d"
    using del b none by (simp add: deliver_def py_simps Let_def get_time_def)
  moreover have "leaves recv_msg_ids (py_for hs (run_handler L m s q))" for hs m s q
    unfolding run_handler_def async_wrap_errors_def
    by (intro leaves_for leaves_except leaves_return) (rule leavesI, simp)
  ultimately have "recv_msg_ids c2 = recv_msg_ids ?d" by (metis leaves_run)
  with last in1 b none t show ?thesis by auto
qed

text \<open>
  C6: only signed, fresh messages for this node reach its handlers. If handling a control
  packet calls a handler at all, the packet is a PUBLISH on the hex of the client's own key,
  its payload is a key, a signature and a section that the signature covers under that key, the
  section is a message no older than twice the republish duration, and every call made is of a
  registered handler with the signed message, the signing key and the signed queue id.
\<close>

theorem handlers_see_signed_messages:
  assumes "handled (snd (handle_mqtt_packet L pkt c)) \<noteq> handled c"
  shows "\<exists>topic pid pk sig s vk seq t msg hs. p_type pkt = PUBLISH \<and>
    mqtt_parse_publish L pkt = Inr (Some (topic, pk @ sig @ s, pid)) \<and>
    h_to_b L topic = Inr (compact_public_key (kp c)) \<and>
    length pk = 33 \<and> length sig = 64 \<and> vk_from_string L pk = Inr vk \<and> ecdsa_verify_async L vk sig s = Inr () \<and>
    signed_section (take 32 s) seq t (msg_val MSG) (drop 45 s) = Inr s \<and> to_s L (drop 45 s) = Inr msg \<and>
    py_int (clock L (ticks c)) - t \<le> 2 * republish_duration c \<and> set hs \<subseteq> set (msg_handlers c) \<and>
    handled (snd (handle_mqtt_packet L pkt c)) =
      handled c @ calls L (PyStr msg) (to_h L pk) (to_h L (take 32 s)) hs"
proof -
  from handle_trace [OF assms] obtain topic payload pid p hs where
    pub: "p_type pkt = PUBLISH" "mqtt_parse_publish L pkt = Inr (Some (topic, payload, pid))"
      "h_to_b L topic = Inr (compact_public_key (kp c))" and up: "unpack_async L payload = Inr (Some p)"
    and kind: "a_msg_type p = msg_val MSG"
    and fresh: "py_int (clock L (ticks c)) - the (a_timestamp p) \<le> 2 * republish_duration c"
    and hs: "set hs \<subseteq> set (msg_handlers c)" "handled (snd (handle_mqtt_packet L pkt c)) =
      handled c @ calls L (a_msg p) (a_src_pk_hex p) (a_queue_id_hex p) hs"
    by metis
  from unpack_with_Some [OF up [unfolded unpack_async_def]] obtain pk sig s vk
    where parts: "payload = pk @ sig @ s" "length pk = 33" "length sig = 64" "45 \<le> length s"
      "vk_from_string L pk = Inr vk" "ecdsa_verify_async L vk sig s = Inr ()"
    and parse: "parse_signed L pk sig s = Inr p" by blast
  from parse_signed_Inr [OF parse parts(4)] obtain t msg where "a_timestamp p = Some t" "a_msg p = PyStr msg"
    "to_s L (drop 45 s) = Inr msg" "signed_section (take 32 s) (a_seq_no p) t (a_msg_type p) (drop 45 s) = Inr s"
    "a_queue_id_hex p = to_h L (take 32 s)" "a_src_pk_hex p = to_h L pk" by blast
  with pub kind fresh hs parts show ?thesis by (intro exI conjI) auto
qed

lemma handle_publish_reaches:
  assumes "p_type pkt = PUBLISH" and "mqtt_parse_publish L pkt = Inr (Some (topic, payload, pid))"
    and "h_to_b L topic = Inr (compact_public_key (kp c))" and "unpack_async L payload = Inr (Some p)"
    and "a_msg_type p = msg_val MSG"
    and "py_int (clock L (ticks c)) - the (a_timestamp p) \<le> 2 * republish_duration c"
    and "send_puback L pid c = (Inr (), c1)"
  shows "handle_mqtt_packet L pkt c = process_app_msg L p (c1\<lparr>ticks := ticks c + 1\<rparr>)"
proof -
  have "kp c1 = kp c" "republish_duration c1 = republish_duration c" "ticks c1 = ticks c"
    using assms(7) by (auto simp: send_puback_def py_simps pipe_send_def split: option.splits if_splits)
  then show ?thesis
    using assms by (simp add: handle_mqtt_packet_alt handle_publish_def py_simps too_old_def get_time_def
        Let_def route_def)
qed

text \<open>A PUBLISH of the concrete library that reaches the handler of its client.\<close>

definition demo_online :: client where
  "demo_online = (add_msg_handler 7 demo_client)\<lparr>pipe := Some 0\<rparr>"

definition demo_section :: "int \<Rightarrow> bytes \<Rightarrow> bytes" where
  "demo_section m b = replicate 32 1 @ [0, 0, 0, 0, 0, 0, 0, 0, 0, 0, 0, 0] @ [word_of_int m] @ b"

definition demo_payload :: "int \<Rightarrow> bytes \<Rightarrow> bytes" where
  "demo_payload m b = replicate 33 2 @ demo_tag (replicate 33 2) (demo_section m b) @ demo_section m b"

definition demo_pkt :: "int \<Rightarrow> bytes \<Rightarrow> mqtt_packet" where
  "demo_pkt m b = parsed PUBLISH 2
     (([0, 66] @ map of_char (hex_of (replicate 33 2))) @ [0, 1] @ demo_payload m b)"

lemma demo_unpack:
  assumes "0 \<le> m" "m < 256" "to_s demo_lib b = Inr msg"
  shows "unpack_async demo_lib (demo_payload m b) = Inr (Some
    \<lparr>a_src_pk_hex = hex_of (replicate 33 2), a_sig_hex = hex_of (demo_tag (replicate 33 2) (demo_section m b)),
     a_queue_id_hex = hex_of (replicate 32 1), a_seq_no = 0, a_timestamp = Some 0, a_msg_type = m, a_msg = PyStr msg\<rparr>)"
proof -
  have sec: "signed_section (replicate 32 1) 0 0 m b = Inr (demo_section m b)"
    using assms(1,2) by (simp add: signed_section_def struct_pack_def be_encode_widths demo_section_def)
  show ?thesis
    using parse_signed_section [OF sec _ assms(3), of "replicate 33 2" "demo_tag (replicate 33 2) (demo_section m b)"]
    unfolding unpack_async_def demo_payload_def
    by (subst unpack_with_parts) (simp_all add: demo_tag_def demo_verify_def demo_section_def)
qed

lemma demo_parse:
  "mqtt_parse_publish demo_lib (demo_pkt m b) =
    Inr (Some (hex_of (replicate 33 2), demo_payload m b, Some [0, 1]))"
  unfolding demo_pkt_def
proof (rule parse_publish_body)
  show "mqtt_enc_str demo_lib (hex_of (replicate 33 2)) = Inr ([0, 66] @ map of_char (hex_of (replicate 33 2)))"
    by (simp add: mqtt_enc_str_def struct_pack_def be_encode_widths)
qed (simp_all add: demo_text_codec)

lemma demo_puback:
  "send_puback demo_lib (Some [0, 1]) demo_online =
    (Inr (), demo_online\<lparr>trace := [Sent 0 [0x40, 2, 0, 1]]\<rparr>)"
  by (simp add: send_puback_def py_simps pipe_send_def demo_online_def add_msg_handler_def demo_client_def
      new_client_def build_puback_def)

lemma demo_online_sel [simp]:
  "kp demo_online = kp demo_client" "ticks demo_online = 0" "republish_duration demo_online = 0"
  "msg_handlers demo_online = [7]" "recv_msg_ids demo_online = []" "handled demo_online = []"
  "find_meta demo_online k i = None" "pipe demo_online = Some 0"
  by (simp_all add: demo_online_def demo_client_def new_client_def add_msg_handler_def handled_def find_meta_alt)

lemma demo_reaches:
  "\<exists>p c. handle_mqtt_packet demo_lib (demo_pkt 1 [104, 105]) demo_online = process_app_msg demo_lib p c \<and>
     a_msg p = PyStr ''hi'' \<and> handled c = [] \<and> msg_handlers c = [7] \<and> recv_msg_ids c = [] \<and>
     find_meta c = find_meta demo_online"
proof -
  have "to_s demo_lib [104, 105] = Inr ''hi''"
    using demo_text_codec demo_facts(8) unfolding text_codec_def by blast
  then obtain p where up: "unpack_async demo_lib (demo_payload 1 [104, 105]) = Inr (Some p)"
    and p: "a_msg_type p = 1" "a_timestamp p = Some 0" "a_msg p = PyStr ''hi''"
    using demo_unpack [of 1 "[104, 105]" "''hi''"] by force
  have own: "h_to_b demo_lib (hex_of (replicate 33 2)) = Inr (compact_public_key (kp demo_online))"
    by (simp add: demo_hex demo_client_def new_client_def)
  have "handle_mqtt_packet demo_lib (demo_pkt 1 [104, 105]) demo_online =
      process_app_msg demo_lib p (demo_online\<lparr>trace := [Sent 0 [0x40, 2, 0, 1]], ticks := 1\<rparr>)"
    using handle_publish_reaches [OF _ demo_parse own up _ _ demo_puback] p
    by (simp add: demo_pkt_def py_int_def)
  with p show ?thesis
    by (intro exI [of _ p] exI [of _ "demo_online\<lparr>trace := [Sent 0 [0x40, 2, 0, 1]], ticks := 1\<rparr>"])
       (simp add: handled_def find_meta_alt fun_eq_iff)
qed

lemma demo_called: "handled (snd (handle_mqtt_packet demo_lib (demo_pkt 1 [104, 105]) demo_online)) \<noteq> handled demo_online"
proof -
  obtain p c where run: "handle_mqtt_packet demo_lib (demo_pkt 1 [104, 105]) demo_online = process_app_msg demo_lib p c"
    and p: "a_msg p = PyStr ''hi''" and c: "handled c = []" "msg_handlers c = [7]" "recv_msg_ids c = []"
    "find_meta c = find_meta demo_online"
    using demo_reaches by blast
  let ?c = "drop_old_acks (a_queue_id_hex p) (a_seq_no p) c"
  have b: "to_b demo_lib (a_msg p) = Inr [104, 105]" using p by simp
  obtain c' where d: "deliver demo_lib (a_msg p) (a_src_pk_hex p) (a_queue_id_hex p) ?c = (Inr (), c')"
    and h: "handled c' = [Handled 7 (a_msg p) (a_src_pk_hex p) (a_queue_id_hex p)]"
    using c unfolding deliver_app [OF b demo_contained]
    by (simp add: handled_def drop_old_acks_sel [unfolded handled_def] calls_def)
  obtain r c2 where e: "enqueue_ack demo_lib (a_src_pk_hex p) (a_queue_id_hex p) (a_seq_no p) c' = (r, c2)" by fastforce
  have "find_meta c (MSGACK, a_queue_id_hex p) (a_seq_no p) = None" using c by simp
  then have "snd (process_app_msg demo_lib p c) = c2"
    using d e by (simp add: process_app_msg_def Let_def py_simps resend_ack_none)
  moreover have "handled c2 = handled c'" using inbox_run [OF quiet_enqueue_ack e] by simp
  ultimately show ?thesis using run h by simp
qed

theorem handlers_see_signed_messages_witness:
  "\<exists>pk sig s msg. handled (snd (handle_mqtt_packet demo_lib (demo_pkt 1 [104, 105]) demo_online)) \<noteq> handled demo_online \<and>
     demo_payload 1 [104, 105] = pk @ sig @ s \<and> verify demo_lib pk sig s = Inr () \<and>
     to_s demo_lib (drop 45 s) = Inr msg"
  using handlers_see_signed_messages [OF demo_called] demo_called demo_parse by fastforce

end
