(* ===== verification/Acks.thy ===== *)
theory Acks
  imports Delivery Ordered_Send
begin

text \<open>
  Acknowledgements: who may resolve the future of a message, what a broker's acknowledgement
  frees, what a duplicate of a message that was acknowledged already causes, and that a fresh
  signed message does reach the handlers.
\<close>

section \<open>Application acknowledgements\<close>

text \<open>The first entry under the key whose destination is the one that acknowledges.\<close>

fun ack_target :: "msg_enum list \<Rightarrow> string \<Rightarrow> int \<Rightarrow> string \<Rightarrow> client \<Rightarrow> (msg_enum \<times> meta) option" where
  "ack_target [] qid i src c = None"
| "ack_target (t # ts) qid i src c = (case find_meta c (t, qid) i of
     None \<Rightarrow> ack_target ts qid i src c
   | Some m \<Rightarrow> if m_dest_pk_hex m = src then Some (t, m) else ack_target ts qid i src c)"

lemma ack_target_Some:
  "ack_target ts qid i src c = Some (t, m) \<Longrightarrow>
   t \<in> set ts \<and> find_meta c (t, qid) i = Some m \<and> m_dest_pk_hex m = src"
  by (induction ts) (auto split: option.splits if_splits)

lemma ack_loop_app:
  "ack_loop ts qid i src c = (case ack_target ts qid i src c of
     None \<Rightarrow> (Inr (), c)
   | Some (t, m) \<Rightarrow> if future_done (m_app_ack m) c then (Inr (), c)
       else (Inr (), (if m_probe_one_shot m then forget_probe t qid i else id)
         (c\<lparr>futs := fut_settle (m_app_ack m) (Result FTrue) (futs c)\<rparr>)))"
  by (induction ts) (auto simp: py_simps set_result_def split: option.splits)

declare ack_loop.simps [simp del]

lemma forget_probe_sel [simp]: "futs (forget_probe t qid i c) = futs c"
  by (simp add: forget_probe_def Let_def del_entry_def split: option.split)

lemma find_meta_forget:
  "find_meta (forget_probe t qid i c) k j = (if k = (t, qid) \<and> j = i then None else find_meta c k j)"
proof -
  let ?c = "del_entry t qid i c"
  have e: "find_meta ?c k j = (if k = (t, qid) \<and> j = i then None else find_meta c k j)"
    using find_meta_entry_drop [of "(t, qid)" i c k j] by (simp add: entry_drop_def)
  have "find_meta (del_queue t qid ?c) k j = find_meta ?c k j" if "map_of (msg_queues ?c t) qid = Some []"
    using that by (cases "k = (t, qid)") (simp_all add: find_meta_del_queue, simp add: find_meta_alt)
  then have "find_meta (forget_probe t qid i c) k j = find_meta ?c k j"
    unfolding forget_probe_def Let_def by (simp only: split: if_split) blast
  with e show ?thesis by simp
qed

section \<open>Queueing an acknowledgement sends nothing\<close>

lemma still_get_time [leaves_rules]: "leaves trace (get_time L)"
  and still_draw [leaves_rules]: "leaves trace (draw L n)"
  and still_sign_with [leaves_rules]: "leaves trace (sign_with sg s)"
  and still_get_queue [leaves_rules]: "leaves trace (get_queue t qid)"
  and still_put_meta [leaves_rules]: "leaves trace (put_meta t qid k m)"
  and still_new_future [leaves_rules]: "leaves trace new_future"
  and still_ensure [leaves_rules]: "leaves trace (py_modify (ensure_queue t qid))"
  and still_sent [leaves_rules]: "leaves trace (py_modify (\<lambda>c. c\<lparr>sent_msg_ids := h1 c\<rparr>))"
  and still_last_send [leaves_rules]: "leaves trace (py_modify (\<lambda>c. c\<lparr>last_send := u\<rparr>))"
  by (rule leavesI, simp add: get_time_def draw_def sign_with_def get_queue_def put_meta_def set_queue_def
      new_future_def ensure_queue_def py_simps split: option.split)+

lemma still_pack_async [leaves_rules]: "leaves trace (pack_async L p)"
  unfolding pack_async_def stamp_def Let_def by (intro leaves_rules)

lemma still_queue_id [leaves_rules]: "leaves trace (queue_id_or_random L q)"
  unfolding queue_id_or_random_def by (cases q rule: option.exhaust) (auto intro: leaves_rules split: list.split)

lemma still_enqueue_ack: "leaves trace (enqueue_ack L src qid k)"
  unfolding enqueue_ack_def queue_msg_async_def ordered_ack_send_async_def oas_prepare_def oas_commit_def
    note_sent_def touch_last_send_def Let_def
  by (intro leaves_rules)

section \<open>Properties\<close>

text \<open>
  C14: only the destination can acknowledge. If an acknowledgement packet changes a future, the
  future is that of the queued message or probe with the packet's queue id and sequence number,
  the packet's sender is the destination that message was sent to, the future was pending and
  now holds the result.
\<close>

theorem ack_only_from_destination:
  assumes "futs (snd (process_app_ack p c)) ! i \<noteq> futs c ! i"
  shows "\<exists>t m. t \<in> {MSG, PROBE} \<and> find_meta c (t, a_queue_id_hex p) (a_seq_no p) = Some m \<and>
    m_dest_pk_hex m = a_src_pk_hex p \<and> m_app_ack m = i \<and> futs c ! i = Pending \<and>
    futs (snd (process_app_ack p c)) ! i = Result FTrue"
proof -
  let ?tgt = "ack_target [MSG, PROBE] (a_queue_id_hex p) (a_seq_no p) (a_src_pk_hex p) c"
  from assms obtain t m where tgt: "?tgt = Some (t, m)" and nd: "\<not> future_done (m_app_ack m) c"
    and fs: "futs (snd (process_app_ack p c)) = fut_settle (m_app_ack m) (Result FTrue) (futs c)"
    unfolding process_app_ack_def ack_loop_app
    by (cases ?tgt) (auto simp del: ack_target.simps split: if_splits)
  have "i = m_app_ack m" "i < length (futs c)"
    using assms fs by (auto simp: fut_settle_def nth_list_update split: if_splits) (metis list_update_beyond not_less nth_list_update_neq)+
  with nd fs ack_target_Some [OF tgt] show ?thesis
    by (auto simp: future_done_def fut_done_def fut_settle_def)
qed

definition demo_sent :: client where
  "demo_sent = demo_client\<lparr>futs := [Pending],
     msg_queues := (\<lambda>t. if t = MSG then [(hex_of (replicate 32 1), [(0, new_meta (hex_of (replicate 33 2)) 0 [] 0 0)])] else [])\<rparr>"

definition demo_ack :: app_packet where
  "demo_ack = demo_in\<lparr>a_msg_type := 2, a_msg := PyStr ''ack''\<rparr>"

lemma demo_ack_app: "process_app_ack demo_ack demo_sent = (Inr (), demo_sent\<lparr>futs := [Result FTrue]\<rparr>)"
  by (simp add: process_app_ack_def ack_loop_app demo_sent_def demo_ack_def demo_in_def find_meta_alt
      future_done_def fut_done_def fut_settle_def)

theorem ack_only_from_destination_witness:
  "futs (snd (process_app_ack demo_ack demo_sent)) ! 0 \<noteq> futs demo_sent ! 0 \<and>
   (\<exists>t m. find_meta demo_sent (t, a_queue_id_hex demo_ack) (a_seq_no demo_ack) = Some m \<and>
      m_dest_pk_hex m = a_src_pk_hex demo_ack)"
proof -
  have "futs (snd (process_app_ack demo_ack demo_sent)) ! 0 \<noteq> futs demo_sent ! 0"
    unfolding demo_ack_app by (simp add: demo_sent_def)
  with ack_only_from_destination [OF this] show ?thesis by blast
qed

text \<open>
  the destination's acknowledgement arrives. An acknowledgement from the destination of a
  queued message whose future is pending resolves that future, touches no other, and keeps the
  message's entry, so its number is not given again; a probe's entry is removed.
\<close>

theorem ack_resolves:
  assumes "find_meta c (MSG, a_queue_id_hex p) (a_seq_no p) = Some m" and "m_dest_pk_hex m = a_src_pk_hex p"
    and "m_app_ack m < length (futs c)" and "futs c ! m_app_ack m = Pending"
  shows "process_app_ack p c = (Inr (), snd (process_app_ack p c)) \<and>
    futs (snd (process_app_ack p c)) = (futs c)[m_app_ack m := Result FTrue] \<and>
    find_meta (snd (process_app_ack p c)) = (if m_probe_one_shot m
      then (find_meta c)((MSG, a_queue_id_hex p) := (find_meta c (MSG, a_queue_id_hex p))(a_seq_no p := None))
      else find_meta c)"
  using assms
  by (auto simp: process_app_ack_def ack_loop_app future_done_def fut_done_def fut_settle_def fun_eq_iff
      find_meta_forget split: option.splits)

theorem ack_resolves_witness:
  "futs (snd (process_app_ack demo_ack demo_sent)) = [Result FTrue] \<and>
   find_meta (snd (process_app_ack demo_ack demo_sent)) = find_meta demo_sent"
  using ack_resolves [of demo_sent demo_ack "new_meta (hex_of (replicate 33 2)) 0 [] 0 0"]
  by (simp add: demo_sent_def demo_ack_def demo_in_def find_meta_alt)

lemma broker_ack_app:
  "handle_broker_ack pkt c = (case map_of (packet_ids c (p_type pkt)) (take 2 (p_body pkt)) of
     None \<Rightarrow> (Inr (), c)
   | Some f \<Rightarrow> if future_done f c then (Inr (), c) else (Inr (), free_pid (p_type pkt) (take 2 (p_body pkt))
       (c\<lparr>futs := fut_settle f (Result (if p_type pkt = SUBACK then FBytes (drop 2 (p_body pkt)) else FTrue)) (futs c)\<rparr>)))"
  by (simp add: handle_broker_ack_def Let_def py_simps set_result_def free_pid_def split: option.split)

text \<open>
  a broker's acknowledgement frees its packet id. The PUBACK or SUBACK of an id in flight
  gives the id's pending future its result (the return codes, for a SUBACK), and the id is no
  longer in flight; every other id and future stays; and the same packet again changes nothing.
\<close>

theorem broker_ack_frees:
  assumes "client_inv c" and "map_of (packet_ids c (p_type pkt)) (take 2 (p_body pkt)) = Some f"
    and "futs c ! f = Pending"
  shows "\<exists>c'. handle_broker_ack pkt c = (Inr (), c') \<and> \<not> in_flight c' (take 2 (p_body pkt)) \<and>
    futs c' = (futs c)[f := Result (if p_type pkt = SUBACK then FBytes (drop 2 (p_body pkt)) else FTrue)] \<and>
    {pid. in_flight c' pid} = {pid. in_flight c pid} - {take 2 (p_body pkt)} \<and>
    handle_broker_ack pkt c' = (Inr (), c')"
proof -
  let ?pid = "take 2 (p_body pkt)" and ?pt = "p_type pkt"
  let ?v = "Result (if ?pt = SUBACK then FBytes (drop 2 (p_body pkt)) else FTrue)"
  let ?c = "free_pid ?pt ?pid (c\<lparr>futs := fut_settle f ?v (futs c)\<rparr>)"
  have "owned c (Pid ?pt ?pid) = Some f" using assms(2) by (simp add: owned.simps)
  then have "f < length (futs c)" using assms(1) unfolding client_inv_def owners_ok_def by blast
  then have nd: "\<not> future_done f c" and fs: "futs ?c = (futs c)[f := ?v]"
    using assms(3) by (auto simp: future_done_def fut_done_def fut_settle_def free_pid_def)
  have pok: "pids_ok c" using assms(1) by (simp add: client_inv_def)
  have p: "?pt \<in> set ack_types" using pok assms(2) unfolding pids_ok_def by blast
  have one: "map_of (packet_ids c SUBACK) ?pid = None \<or> map_of (packet_ids c PUBACK) ?pid = None"
    using pok [unfolded pids_ok_def, THEN conjunct2, THEN conjunct2, THEN conjunct2, THEN conjunct2] by (rule spec)
  have look: "map_of (packet_ids ?c pt) pid = (if pt = ?pt \<and> pid = ?pid then None else map_of (packet_ids c pt) pid)" for pt pid
    by (simp add: free_pid_def delete_lookup)
  have fl: "in_flight ?c pid \<longleftrightarrow> in_flight c pid \<and> pid \<noteq> ?pid" for pid
    using p one assms(2) unfolding in_flight_def look by (auto simp: ack_types_def)
  have "handle_broker_ack pkt c = (Inr (), ?c)" using assms(2) nd by (simp add: broker_ack_app)
  moreover have "handle_broker_ack pkt ?c = (Inr (), ?c)"
    unfolding broker_ack_app look by simp
  ultimately show ?thesis using fs fl by (intro exI [of _ ?c]) auto
qed

lemma demo_client_inv: "client_inv demo_client"
  unfolding demo_client_def by (rule new_client_inv)

theorem broker_ack_frees_witness:
  "\<exists>c c'. publish demo_lib ''ab'' (PyBytes [1]) False demo_client = (Inr ([0x32, 7, 0, 2, 97, 98, 0, 1, 1], 0), c) \<and>
     handle_broker_ack (parsed PUBACK 0 [0, 1]) c = (Inr (), c') \<and> futs c' = [Result FTrue] \<and> \<not> in_flight c' [0, 1]"
proof -
  obtain c where c: "publish demo_lib ''ab'' (PyBytes [1]) False demo_client = (Inr ([0x32, 7, 0, 2, 97, 98, 0, 1, 1], 0), c)"
    using demo_publish by blast
  then have fs: "futs c = [Pending]" and ids: "packet_ids c PUBACK = [([0, 1], 0)]"
    by (auto simp: publish_def py_simps packet_ack_future_def new_future_def get_packet_id_def gpid_step Let_def
        in_flight_def ack_types_def demo_client_def new_client_def next_pid_def pid_bytes_def be_encode_widths
        split: sum.splits prod.splits)
  have "client_inv c" using keeps_snd [OF publish_inv demo_client_inv, of demo_lib "''ab''" "PyBytes [1]" False] c by simp
  from broker_ack_frees [OF this, of "parsed PUBACK 0 [0, 1]" 0] show ?thesis
    using c fs ids by auto
qed

text \<open>
  C15: a duplicate is acknowledged again and not delivered again. When the acknowledgement for
  a message's queue and number is queued, processing the message publishes exactly the stored
  acknowledgement to the stored destination, calls no handler, and drops the queued
  acknowledgements of earlier numbers of that queue, no other.
\<close>

theorem duplicate_resends_ack:
  assumes "find_meta c (MSGACK, a_queue_id_hex p) (a_seq_no p) = Some m"
    and "process_app_msg L p c = (Inr (), c')" and "pipe c = Some q" and "pipe_send_exn L (length (trace c)) = None"
  shows "\<exists>pid raw. build_publish L (m_dest_pk_hex m) (PyBytes (m_out m)) pid False = Inr raw \<and>
    trace c' = trace c @ [Sent q raw] \<and>
    (\<forall>k j. find_meta c' k j = (if k = (MSGACK, a_queue_id_hex p) \<and> j < a_seq_no p then None else find_meta c k j))"
proof -
  let ?c = "drop_old_acks (a_queue_id_hex p) (a_seq_no p) c"
  have found: "find_meta ?c (MSGACK, a_queue_id_hex p) (a_seq_no p) = Some m"
    using assms(1) by (simp add: find_meta_drop_old)
  obtain r c1 where pub: "publish L (m_dest_pk_hex m) (PyBytes (m_out m)) False ?c = (r, c1)" by fastforce
  from assms(2) found pub obtain raw f where r: "r = Inr (raw, f)"
    by (auto simp: process_app_msg_def Let_def resend_ack_def py_simps split: sum.splits)
  from pub [unfolded r] obtain pid n ids where b: "build_publish L (m_dest_pk_hex m) (PyBytes (m_out m)) pid False = Inr raw"
    and c1: "c1 = ?c\<lparr>packet_id := n, futs := futs ?c @ [Pending], packet_ids := ids\<rparr>"
    by (auto simp: publish_def py_simps split: prod.splits sum.splits if_splits dest!: packet_ack_future_Inr)
  have "pipe c1 = Some q" "trace c1 = trace c"
    using assms(3) by (simp_all add: c1 drop_old_acks_def set_queue_def split: option.split)
  then have "c' = c1\<lparr>trace := trace c @ [Sent q raw]\<rparr>"
    using assms(2,4) found pub r
    by (simp add: process_app_msg_def Let_def resend_ack_def py_simps wrapped_send_def async_wrap_errors_def
        pipe_send_def split: sum.splits)
  moreover have "find_meta (c1\<lparr>trace := x\<rparr>) = find_meta ?c" for x
    by (simp add: c1 find_meta_alt fun_eq_iff)
  ultimately show ?thesis using b by (intro exI conjI) (auto simp: find_meta_drop_old)
qed

definition demo_acked :: client where
  "demo_acked = demo_online\<lparr>msg_queues := (\<lambda>t. if t = MSGACK
     then [(hex_of (replicate 32 1), [(0, new_meta ''ab'' 0 [1] 0 0)])] else [])\<rparr>"

lemma demo_acked_found:
  "find_meta demo_acked (MSGACK, a_queue_id_hex demo_in) (a_seq_no demo_in) = Some (new_meta ''ab'' 0 [1] 0 0)"
  by (simp add: demo_acked_def find_meta_alt demo_in_def)

lemma set_queue_same: "map_of (msg_queues c t) qid = Some q \<Longrightarrow> set_queue t qid q c = c"
  by (simp add: set_queue_def update_triv)

lemma demo_resend: "\<exists>c'. process_app_msg demo_lib demo_in demo_acked = (Inr (), c')"
proof -
  have "map_of (msg_queues demo_acked MSGACK) (hex_of (replicate 32 1)) = Some [(0, new_meta ''ab'' 0 [1] 0 0)]"
    by (simp add: demo_acked_def)
  then have old: "drop_old_acks (hex_of (replicate 32 1)) 0 demo_acked = demo_acked"
    by (simp add: drop_old_acks_def set_queue_same)
  have "get_packet_id demo_acked = (Inr [0, 1], demo_acked\<lparr>packet_id := 1\<rparr>)"
    by (simp add: get_packet_id_def gpid_step Let_def in_flight_def ack_types_def next_pid_def pid_bytes_def
        be_encode_widths demo_acked_def demo_online_def demo_client_def new_client_def add_msg_handler_def)
  then obtain c1 where "publish demo_lib ''ab'' (PyBytes [1]) False demo_acked = (Inr ([0x32, 7, 0, 2, 97, 98, 0, 1, 1], 0), c1)"
    and "pipe c1 = Some 0"
    by (simp add: publish_def py_simps packet_ack_future_def new_future_def build_publish_frame
        mqtt_enc_str_def struct_pack_def be_encode_widths frame_def build_header_Cons header_byte_val encode_small
        demo_acked_def demo_online_def demo_client_def new_client_def add_msg_handler_def)
  then show ?thesis
    using demo_acked_found old
    by (simp add: process_app_msg_def Let_def resend_ack_def py_simps wrapped_send_def async_wrap_errors_def
        pipe_send_def demo_in_def)
qed

theorem duplicate_resends_ack_witness:
  "\<exists>c' raw. process_app_msg demo_lib demo_in demo_acked = (Inr (), c') \<and>
     trace c' = trace demo_acked @ [Sent 0 raw]"
proof -
  obtain c' where c': "process_app_msg demo_lib demo_in demo_acked = (Inr (), c')" using demo_resend by blast
  have "pipe demo_acked = Some 0" by (simp add: demo_acked_def)
  from duplicate_resends_ack [OF demo_acked_found c' this] c' show ?thesis by auto
qed



end
