(* ===== verification/Dispatch.thy ===== *)
theory Dispatch
  imports Connect Acks
begin

text \<open>
  The background dispatcher (\<open>mqtt/mqtt_dispatch.py\<close>): it keeps the connection up, publishes
  queued messages again until they expire (or, with \<open>ignore_acked\<close>, are acknowledged), and sends
  the keep-alive pings. The generator \<open>iter_all_messages\<close> that it walks is modelled with its snapshots of
  keys, because other tasks may change the queues at every \<open>await\<close> of the loop's body.
\<close>

section \<open>Sending and publishing again\<close>

definition safe_pipe_send :: "lib \<Rightarrow> bytes \<Rightarrow> (client, bool) py" where
  "safe_pipe_send L b =
     py_bind (py_get pipe_open) (\<lambda>ok.
     if \<not> ok then py_return False
     else py_seq (async_wrap_errors L (pipe_send L b)) (py_return True))"

definition backoff :: "real \<Rightarrow> real \<Rightarrow> nat \<Rightarrow> real" where
  "backoff interval duration attempts =
     (let backoff_limit = min 60 duration
      in min (interval * 2 ^ attempts) backoff_limit)"

text \<open>
  \<open>republish_meta\<close> on the object \<open>meta\<close>, which stands under a key of a queue unless it has been
  removed meanwhile. An assignment to the fields of the object is one to the entry under its key,
  as long as there is one.
\<close>

definition touch_meta :: "msg_enum \<times> string \<Rightarrow> int \<Rightarrow> real \<Rightarrow> nat \<Rightarrow> client \<Rightarrow> client" where
  "touch_meta k i updated attempts c = (case find_meta c k i of
     None \<Rightarrow> c
   | Some m \<Rightarrow> queue_put k i (m\<lparr>m_updated := updated, m_attempts := attempts\<rparr>) c)"

definition republish_meta ::
  "lib \<Rightarrow> msg_enum \<times> string \<Rightarrow> int \<Rightarrow> meta \<Rightarrow> real \<Rightarrow> real \<Rightarrow> real \<Rightarrow> bool \<Rightarrow> (client, unit) py" where
  "republish_meta L k i meta now interval duration ignore_acked =
     (if m_probe_one_shot meta then py_return ()
     else py_bind (py_get (future_done (m_app_ack meta))) (\<lambda>acked.
     if ignore_acked \<and> acked then py_return ()
     else
       let attempts = m_attempts meta;
           current_backoff = backoff interval duration attempts
       in py_bind (uniform_draw L 0 current_backoff) (\<lambda>jittered_interval.
          if now - m_updated meta < jittered_interval then py_return ()
          else if now - m_created meta \<ge> duration then py_return ()
          else
            py_seq (py_modify (touch_meta k i now (attempts + 1)))
            (py_bind (publish L (m_dest_pk_hex meta) (PyBytes (m_out meta)) False) (\<lambda>(b, _).
             py_bind (safe_pipe_send L b) (\<lambda>_. py_return ()))))))"

section \<open>The walk over the queues\<close>

text \<open>
  \<open>for meta in iter_all_messages(client.msg_queues)\<close> with a body \<open>visit\<close>: the types in order;
  for each, the queue ids there are when its turn comes; for each of these the queue, which
  must still be in the table; its numbers at that time, sorted; and the entry, if there still
  is one. The generator holds on to the queue: when it has been deleted from the table meanwhile, the
  entries it had when the walk last saw it are yielded all the same. The result is whether the walk
  went to the end: it stops when the pipe is gone.
\<close>

definition held_queue :: "msg_enum \<times> string \<Rightarrow> queue \<Rightarrow> client \<Rightarrow> queue" where
  "held_queue k q c = (case map_of (msg_queues c (fst k)) (snd k) of Some q' \<Rightarrow> q' | None \<Rightarrow> q)"

fun walk_seqs :: "(msg_enum \<times> string \<Rightarrow> int \<Rightarrow> meta \<Rightarrow> (client, unit) py) \<Rightarrow> msg_enum \<times> string \<Rightarrow> queue \<Rightarrow> int list \<Rightarrow> (client, bool) py" where
  "walk_seqs visit k q [] = py_return True"
| "walk_seqs visit k q (i # is) =
     py_bind (py_get (held_queue k q)) (\<lambda>queue.
     case map_of queue i of
       None \<Rightarrow> walk_seqs visit k queue is
     | Some meta \<Rightarrow> py_bind (py_get pipe_open) (\<lambda>ok.
         if \<not> ok then py_return False else py_seq (visit k i meta) (walk_seqs visit k queue is)))"

fun walk_queues :: "(msg_enum \<times> string \<Rightarrow> int \<Rightarrow> meta \<Rightarrow> (client, unit) py) \<Rightarrow> msg_enum \<Rightarrow> string list \<Rightarrow> (client, bool) py" where
  "walk_queues visit t [] = py_return True"
| "walk_queues visit t (qid # qids) =
     py_bind (get_queue t qid) (\<lambda>q.
     py_bind (walk_seqs visit (t, qid) q (sort (map fst q))) (\<lambda>go.
     if go then walk_queues visit t qids else py_return False))"

fun walk_types :: "(msg_enum \<times> string \<Rightarrow> int \<Rightarrow> meta \<Rightarrow> (client, unit) py) \<Rightarrow> msg_enum list \<Rightarrow> (client, bool) py" where
  "walk_types visit [] = py_return True"
| "walk_types visit (t # ts) =
     py_bind (py_get (\<lambda>c. map fst (msg_queues c t))) (\<lambda>qids.
     py_bind (walk_queues visit t qids) (\<lambda>go.
     if go then walk_types visit ts else py_return False))"

definition walk :: "(msg_enum \<times> string \<Rightarrow> int \<Rightarrow> meta \<Rightarrow> (client, unit) py) \<Rightarrow> (client, unit) py" where
  "walk visit = py_bind (walk_types visit msg_types) (\<lambda>_. py_return ())"

section \<open>The loop\<close>

definition dispatch_exn :: "exn \<Rightarrow> bool" where
  "dispatch_exn e \<longleftrightarrow> e = TimeoutError \<or> is_OSError e"

definition keep_alive_ping :: "lib \<Rightarrow> real \<Rightarrow> int \<Rightarrow> real \<Rightarrow> (client, real) py" where
  "keep_alive_ping L last_ping keep_alive now =
     py_bind (get_time L) (\<lambda>t.
     case build_ping last_ping (real_of_int keep_alive) t of
       (last_ping', None) \<Rightarrow> py_return last_ping'
     | (last_ping', Some ping_buf) \<Rightarrow>
         py_bind (safe_pipe_send L ping_buf) (\<lambda>_.
         py_seq (py_modify (prune_msg_ids now)) (py_return last_ping')))"

text \<open>One turn after the connection is up: the walk, then the heartbeat.\<close>

definition dispatch_turn :: "lib \<Rightarrow> int \<Rightarrow> real \<Rightarrow> int \<Rightarrow> bool \<Rightarrow> real \<Rightarrow> (client, real) py" where
  "dispatch_turn L duration interval keep_alive ignore_acked last_ping =
     py_bind (get_time L) (\<lambda>now.
     py_seq (walk (\<lambda>k i meta. republish_meta L k i meta now interval (real_of_int duration) ignore_acked))
     (keep_alive_ping L last_ping keep_alive now))"

text \<open>
  The loop \<open>while not client.is_closed.is_set()\<close>; an error of the connection is logged and the
  loop goes on, one of a turn ends it, logged when it is of the network and raised otherwise.
  \<open>fuel\<close> bounds the turns and the turns of each reconnect loop.
\<close>

fun dispatcher_loop ::
  "lib \<Rightarrow> int \<Rightarrow> real \<Rightarrow> int \<Rightarrow> bool \<Rightarrow> real \<Rightarrow> nat \<Rightarrow> client \<Rightarrow> (unit res \<times> client) option" where
  "dispatcher_loop L duration interval keep_alive ignore_acked last_ping 0 c = None"
| "dispatcher_loop L duration interval keep_alive ignore_acked last_ping (Suc fuel) c =
     (if is_closed c then Some (Inr (), c)
      else case reconnect_loop L keep_alive 0 fuel c of
        None \<Rightarrow> None
      | Some (Inl e, c') \<Rightarrow>
          if dispatch_exn e
          then dispatcher_loop L duration interval keep_alive ignore_acked last_ping fuel c'
          else Some (Inl e, c')
      | Some (Inr _, c') \<Rightarrow>
          (case dispatch_turn L duration interval keep_alive ignore_acked last_ping c' of
             (Inl e, c'') \<Rightarrow> if dispatch_exn e then Some (Inr (), c'') else Some (Inl e, c'')
           | (Inr last_ping', c'') \<Rightarrow>
               dispatcher_loop L duration interval keep_alive ignore_acked last_ping' fuel c''))"

definition dispatcher ::
  "lib \<Rightarrow> int \<Rightarrow> real \<Rightarrow> int \<Rightarrow> bool \<Rightarrow> nat \<Rightarrow> client \<Rightarrow> (unit res \<times> client) option" where
  "dispatcher L duration interval keep_alive ignore_acked fuel c =
     (let last_ping = clock L (ticks c)
      in dispatcher_loop L duration interval keep_alive ignore_acked last_ping fuel
           (c\<lparr>ticks := ticks c + 1\<rparr>))"

section \<open>The walk by keys\<close>

text \<open>
  A reference for the walk: every entry is looked up in the table when it is visited. While nobody
  deletes a queue, the two are the same, so that the proofs about turns of the dispatcher, which
  do not delete any, can go by the keys.
\<close>

definition republish_entry ::
  "lib \<Rightarrow> msg_enum \<times> string \<Rightarrow> int \<Rightarrow> real \<Rightarrow> real \<Rightarrow> real \<Rightarrow> bool \<Rightarrow> (client, unit) py" where
  "republish_entry L k i now interval duration ignore_acked =
     py_bind (py_get (\<lambda>c. find_meta c k i)) (\<lambda>found. case found of
       None \<Rightarrow> py_return ()
     | Some meta \<Rightarrow> republish_meta L k i meta now interval duration ignore_acked)"

fun walk_seqs_by_key :: "(msg_enum \<times> string \<Rightarrow> int \<Rightarrow> (client, unit) py) \<Rightarrow> msg_enum \<times> string \<Rightarrow> int list \<Rightarrow> (client, bool) py" where
  "walk_seqs_by_key visit k [] = py_return True"
| "walk_seqs_by_key visit k (i # is) =
     py_bind (py_get (\<lambda>c. find_meta c k i)) (\<lambda>meta.
     if meta = None then walk_seqs_by_key visit k is
     else py_bind (py_get pipe_open) (\<lambda>ok.
       if \<not> ok then py_return False else py_seq (visit k i) (walk_seqs_by_key visit k is)))"

fun walk_queues_by_key :: "(msg_enum \<times> string \<Rightarrow> int \<Rightarrow> (client, unit) py) \<Rightarrow> msg_enum \<Rightarrow> string list \<Rightarrow> (client, bool) py" where
  "walk_queues_by_key visit t [] = py_return True"
| "walk_queues_by_key visit t (qid # qids) =
     py_bind (get_queue t qid) (\<lambda>q.
     py_bind (walk_seqs_by_key visit (t, qid) (sort (map fst q))) (\<lambda>go.
     if go then walk_queues_by_key visit t qids else py_return False))"

fun walk_types_by_key :: "(msg_enum \<times> string \<Rightarrow> int \<Rightarrow> (client, unit) py) \<Rightarrow> msg_enum list \<Rightarrow> (client, bool) py" where
  "walk_types_by_key visit [] = py_return True"
| "walk_types_by_key visit (t # ts) =
     py_bind (py_get (\<lambda>c. map fst (msg_queues c t))) (\<lambda>qids.
     py_bind (walk_queues_by_key visit t qids) (\<lambda>go.
     if go then walk_types_by_key visit ts else py_return False))"

definition walk_entries :: "(msg_enum \<times> string \<Rightarrow> int \<Rightarrow> (client, unit) py) \<Rightarrow> (client, unit) py" where
  "walk_entries visit = py_bind (walk_types_by_key visit msg_types) (\<lambda>_. py_return ())"

section \<open>The contract of a walk\<close>

text \<open>
  What a walk asks of the body of its loop: it neither adds nor removes entries and does not
  close the pipe. Then the walk visits every entry once: the types in order, the queues in the
  order they were made, the numbers of a queue ascending.
\<close>

definition shape :: "client \<Rightarrow> msg_enum \<Rightarrow> (string \<times> int list) list" where
  "shape c t = map (\<lambda>(qid, q). (qid, map fst q)) (msg_queues c t)"

definition entry_keys :: "(msg_enum \<Rightarrow> (string \<times> int list) list) \<Rightarrow> ((msg_enum \<times> string) \<times> int) list" where
  "entry_keys sh = concat (map (\<lambda>t. concat (map (\<lambda>(qid, is). map (\<lambda>i. ((t, qid), i)) (sort is)) (sh t))) msg_types)"

lemma shape_lookup: "map_of (shape c t) qid = map_option (map fst) (map_of (msg_queues c t) qid)"
  by (simp add: shape_def map_of_map comp_def)

lemma find_meta_shape:
  "find_meta c (t, qid) i \<noteq> None \<longleftrightarrow> (\<exists>is. map_of (shape c t) qid = Some is \<and> i \<in> set is)"
proof (cases "map_of (msg_queues c t) qid")
  case (Some q)
  then have "find_meta c (t, qid) i = map_of q i" by (simp add: find_meta_alt)
  moreover have "map_of q i \<noteq> None \<longleftrightarrow> i \<in> set (map fst q)" by (metis key_iff list.set_map)
  ultimately show ?thesis using Some by (simp add: shape_lookup)
qed (simp add: find_meta_alt shape_lookup)

lemma get_queue_shape:
  "map_of (shape c t) qid = Some is \<Longrightarrow> \<exists>q. get_queue t qid c = (Inr q, c) \<and> map fst q = is"
  by (auto simp: shape_lookup get_queue_def)

locale entry_visitor =
  fixes visit :: "msg_enum \<times> string \<Rightarrow> int \<Rightarrow> (client, unit) py"
  assumes visit_shape: "leaves shape (visit k i)"
    and visit_open: "leaves pipe_open (visit k i)"
begin

abbreviation visit_all :: "((msg_enum \<times> string) \<times> int) list \<Rightarrow> (client, unit) py" where
  "visit_all ks \<equiv> py_for ks (\<lambda>(k, i). visit k i)"

lemma visit_all_leaves: "leaves shape (visit_all ks)" "leaves pipe_open (visit_all ks)"
  by (intro leaves_for leaves_case_prod visit_shape visit_open)+

lemma walk_seqs_visits:
  "pipe_open c \<Longrightarrow> map_of (shape c t) qid = Some ks \<Longrightarrow> set is \<subseteq> set ks \<Longrightarrow>
   walk_seqs_by_key visit (t, qid) is c = py_seq (visit_all (map (\<lambda>i. ((t, qid), i)) is)) (py_return True) c"
proof (induction "is" arbitrary: c)
  case (Cons i "is")
  then have "find_meta c (t, qid) i \<noteq> None" unfolding find_meta_shape by auto
  moreover obtain r c1 where v: "visit (t, qid) i c = (r, c1)" by fastforce
  moreover have "shape c1 = shape c" "pipe_open c1 = pipe_open c"
    using leaves_run [OF visit_shape v] leaves_run [OF visit_open v] .
  ultimately show ?case using Cons by (cases r) (auto simp: py_simps)
qed (simp add: py_simps)

lemma walk_queues_visits:
  "pipe_open c \<Longrightarrow> \<forall>(qid, is) \<in> set qs. map_of (shape c t) qid = Some is \<Longrightarrow>
   walk_queues_by_key visit t (map fst qs) c =
     py_seq (visit_all (concat (map (\<lambda>(qid, is). map (\<lambda>i. ((t, qid), i)) (sort is)) qs))) (py_return True) c"
proof (induction qs arbitrary: c)
  case (Cons x qs)
  obtain qid "is" where x: "x = (qid, is)" by (cases x)
  with Cons.prems have sh: "map_of (shape c t) qid = Some is" by auto
  then obtain q where q: "get_queue t qid c = (Inr q, c)" "map fst q = is" using get_queue_shape by blast
  let ?ks = "map (\<lambda>i. ((t, qid), i)) (sort is)"
  have w: "walk_seqs_by_key visit (t, qid) (sort is) c = py_seq (visit_all ?ks) (py_return True) c"
    by (rule walk_seqs_visits [OF Cons.prems(1) sh]) simp
  obtain r c1 where v: "visit_all ?ks c = (r, c1)" by fastforce
  have c1: "shape c1 = shape c" "pipe_open c1 = pipe_open c"
    using leaves_run [OF visit_all_leaves(1) v] leaves_run [OF visit_all_leaves(2) v] .
  show ?case
  proof (cases r)
    case (Inr u)
    have "walk_queues_by_key visit t (map fst qs) c1 =
        py_seq (visit_all (concat (map (\<lambda>(qid, is). map (\<lambda>i. ((t, qid), i)) (sort is)) qs))) (py_return True) c1"
      using Cons c1 by auto
    with Inr show ?thesis using q w v by (simp add: x py_simps py_for_append split: prod.split sum.split)
  qed (use q w v in \<open>simp add: x py_simps py_for_append\<close>)
qed (simp add: py_simps)

lemma walk_types_visits:
  "pipe_open c \<Longrightarrow> \<forall>t. distinct (map fst (shape c t)) \<Longrightarrow>
   walk_types_by_key visit ts c = py_seq (visit_all (concat (map (\<lambda>t. concat (map
     (\<lambda>(qid, is). map (\<lambda>i. ((t, qid), i)) (sort is)) (shape c t))) ts))) (py_return True) c"
proof (induction ts arbitrary: c)
  case (Cons t ts)
  let ?ks = "concat (map (\<lambda>(qid, is). map (\<lambda>i. ((t, qid), i)) (sort is)) (shape c t))"
  have "map fst (msg_queues c t) = map fst (shape c t)" by (simp add: shape_def comp_def case_prod_beta)
  moreover have "\<forall>(qid, is) \<in> set (shape c t). map_of (shape c t) qid = Some is"
    using Cons.prems(2) by auto
  ultimately have w: "walk_queues_by_key visit t (map fst (msg_queues c t)) c = py_seq (visit_all ?ks) (py_return True) c"
    using walk_queues_visits [OF Cons.prems(1), of "shape c t" t] by simp
  obtain r c1 where v: "visit_all ?ks c = (r, c1)" by fastforce
  have c1: "shape c1 = shape c" "pipe_open c1 = pipe_open c"
    using leaves_run [OF visit_all_leaves(1) v] leaves_run [OF visit_all_leaves(2) v] .
  show ?case
    using w v Cons.IH [of c1] Cons.prems c1
    by (cases r) (simp_all add: py_simps py_for_append)
qed (simp add: py_simps)

lemma walk_visits:
  assumes "pipe_open c" and "\<forall>t. distinct (map fst (shape c t))"
  shows "walk_entries visit c = visit_all (entry_keys (shape c)) c"
  unfolding walk_entries_def py_bind_app walk_types_visits [OF assms] entry_keys_def
  by (simp add: py_simps split: prod.split sum.split)

end

text \<open>A walk over the queues it holds is the walk by keys, if the body leaves the entries in place.\<close>

lemma leaves_shape_queue:
  assumes "leaves shape m" and "m c = (r, c')" and "map_of (msg_queues c t) qid \<noteq> None"
  shows "map_of (msg_queues c' t) qid \<noteq> None"
  using assms(3) leaves_run [OF assms(1,2)] shape_lookup [of c t qid] shape_lookup [of c' t qid] by (metis option.map_disc_iff)

lemma walk_seqs_same:
  assumes "\<And>k i. leaves shape (visit' k i)" and "\<And>k i m c. find_meta c k i = Some m \<Longrightarrow> visit k i m c = visit' k i c"
  shows "map_of (msg_queues c t) qid \<noteq> None \<Longrightarrow> walk_seqs visit (t, qid) q is c = walk_seqs_by_key visit' (t, qid) is c"
proof (induction "is" arbitrary: c q)
  case (Cons i "is")
  then obtain q' where q': "map_of (msg_queues c t) qid = Some q'" by blast
  then have entry: "find_meta c (t, qid) i = map_of q' i" and held: "held_queue (t, qid) q c = q'"
    by (simp_all add: find_meta_alt held_queue_def)
  show ?case
  proof (cases "map_of q' i")
    case None
    with Cons entry held show ?thesis by (simp add: py_simps)
  next
    case (Some m)
    obtain r c1 where run: "visit' (t, qid) i c = (r, c1)" by fastforce
    with Some entry have "visit (t, qid) i m c = (r, c1)" using assms(2) [of c "(t, qid)" i m] by simp
    moreover have "walk_seqs visit (t, qid) q' is c1 = walk_seqs_by_key visit' (t, qid) is c1"
      by (rule Cons.IH [OF leaves_shape_queue [OF assms(1) run Cons.prems]])
    ultimately show ?thesis using Some entry held run by (simp add: py_simps split: sum.split)
  qed
qed simp

lemma walk_same:
  assumes "\<And>k i. leaves shape (visit' k i)" and "\<And>k i m c. find_meta c k i = Some m \<Longrightarrow> visit k i m c = visit' k i c"
  shows "walk visit = walk_entries visit'"
proof -
  have q: "walk_queues visit t qids = walk_queues_by_key visit' t qids" for t qids
  proof (induction qids)
    case (Cons qid qids)
    show ?case
    proof
      fix c
      have "walk_seqs visit (t, qid) q (sort (map fst q)) c = walk_seqs_by_key visit' (t, qid) (sort (map fst q)) c"
        if "map_of (msg_queues c t) qid = Some q" for q
        by (rule walk_seqs_same [OF assms]) (use that in simp_all)
      then show "walk_queues visit t (qid # qids) c = walk_queues_by_key visit' t (qid # qids) c"
        unfolding walk_queues.simps walk_queues_by_key.simps Cons.IH
        by (auto simp: py_bind_app get_queue_def split: option.split)
    qed
  qed simp
  have "walk_types visit ts = walk_types_by_key visit' ts" for ts by (induction ts) (simp_all add: q cong: if_cong)
  then show ?thesis by (simp add: walk_def walk_entries_def)
qed

text \<open>Publishing again is such a body.\<close>

lemma republish_entry_alt:
  "republish_entry L k i now interval duration ignore_acked =
     py_bind (py_get (\<lambda>c. find_meta c k i)) (\<lambda>found. case found of None \<Rightarrow> py_return () | Some meta \<Rightarrow>
     if m_probe_one_shot meta then py_return ()
     else py_bind (py_get (future_done (m_app_ack meta))) (\<lambda>acked.
     if ignore_acked \<and> acked then py_return ()
     else
       let attempts = m_attempts meta;
           current_backoff = backoff interval duration attempts
       in py_bind (uniform_draw L 0 current_backoff) (\<lambda>jittered_interval.
          if now - m_updated meta < jittered_interval then py_return ()
          else if now - m_created meta \<ge> duration then py_return ()
          else
            py_seq (put_meta (fst k) (snd k) i (meta\<lparr>m_updated := now, m_attempts := attempts + 1\<rparr>))
            (py_bind (publish L (m_dest_pk_hex meta) (PyBytes (m_out meta)) False) (\<lambda>(b, _).
             py_bind (safe_pipe_send L b) (\<lambda>_. py_return ()))))))"
    (is "_ = ?rhs")
proof
  fix c
  show "republish_entry L k i now interval duration ignore_acked c = ?rhs c"
  proof (cases "find_meta c k i")
    case (Some m)
    obtain t qid where k: "k = (t, qid)" by (cases k)
    from Some obtain q where q: "map_of (msg_queues c t) qid = Some q" "map_of q i = Some m"
      by (auto simp: k find_meta_alt split: option.splits)
    let ?d = "c\<lparr>draws := Suc (draws c)\<rparr>"
    have "find_meta ?d k i = Some m" using q by (simp add: k find_meta_alt)
    then show ?thesis
      using Some q by (simp add: republish_entry_def republish_meta_def py_simps uniform_draw_def Let_def touch_meta_def queue_put_def put_meta_def k)
  qed (simp add: republish_entry_def py_simps)
qed

lemma shape_put_meta:
  assumes "find_meta c k i \<noteq> None"
  shows "shape (snd (put_meta (fst k) (snd k) i m c)) = shape c"
proof (cases "map_of (msg_queues c (fst k)) (snd k)")
  case None
  then show ?thesis by (simp add: put_meta_def)
next
  case (Some q)
  with assms have "map_of q i \<noteq> None" by (simp add: find_meta_alt)
  then have "i \<in> set (map fst q)" by (metis key_iff list.set_map)
  then have keys: "map fst (AList.update i m q) = map fst q" by (simp add: update_keys)
  have "map (\<lambda>(qid, q). (qid, map fst q)) (AList.update (snd k) q' al) = map (\<lambda>(qid, q). (qid, map fst q)) al"
    if "map_of al (snd k) = Some q" "map fst q' = map fst q" for al q'
    using that by (induction al) auto
  from this [OF Some keys] Some show ?thesis
    by (simp add: put_meta_def set_queue_def shape_def fun_eq_iff)
qed

lemma leaves_via: "leaves g m \<Longrightarrow> (\<And>s s'. g s = g s' \<Longrightarrow> f s = f s') \<Longrightarrow> leaves f m"
  by (rule leavesI) (metis leavesD)

lemma shape_of_queues: "leaves msg_queues m \<Longrightarrow> leaves shape m"
  by (erule leaves_via) (simp add: shape_def fun_eq_iff)

lemma shape_free:
  "leaves shape (publish L topic payload dup)" "leaves shape (safe_pipe_send L b)"
  "leaves shape (uniform_draw L x y)"
proof -
  have q: "leaves msg_queues (publish L topic payload dup)"
  proof (rule leavesI)
    fix c obtain n where "snd (get_packet_id c) = c\<lparr>packet_id := n\<rparr>"
      using gpid_loop_snd [of 0 c] by (auto simp: get_packet_id_def)
    then show "msg_queues (snd (publish L topic payload dup c)) = msg_queues c"
      by (cases "get_packet_id c") (auto simp: publish_def packet_ack_future_def py_simps new_future_def
          split: sum.split prod.split)
  qed
  have s: "leaves msg_queues (safe_pipe_send L b)"
    unfolding safe_pipe_send_def async_wrap_errors_def
    by (intro leaves_rules leavesI) (simp add: pipe_send_def split: option.split)
  have u: "leaves msg_queues (uniform_draw L x y)" by (rule leavesI) (simp add: uniform_draw_def)
  from q s u show "leaves shape (publish L topic payload dup)" "leaves shape (safe_pipe_send L b)"
    "leaves shape (uniform_draw L x y)"
    by (auto intro: shape_of_queues)
qed

lemma pipe_open_free: "leaves conn m \<Longrightarrow> leaves pipe_open m"
  by (erule leaves_via) (rule pipe_open_conn)

lemma conn_safe_pipe_send: "leaves conn (safe_pipe_send L b)"
  unfolding safe_pipe_send_def by (intro leaves_rules conn.free_wrap conn.free_steps)

lemma conn_republish: "leaves conn (republish_entry L k i now interval duration ignore_acked)"
  unfolding republish_entry_alt Let_def
  by (intro leaves_rules conn.free_steps conn.free_publish conn_safe_pipe_send)

lemma shape_republish: "leaves shape (republish_entry L k i now interval duration ignore_acked)"
proof (rule leavesI)
  fix c
  show "shape (snd (republish_entry L k i now interval duration ignore_acked c)) = shape c"
  proof (cases "find_meta c k i")
    case None
    then show ?thesis by (simp add: republish_entry_alt py_simps)
  next
    case (Some meta)
    let ?m = "meta\<lparr>m_updated := now, m_attempts := m_attempts meta + 1\<rparr>"
    let ?c1 = "c\<lparr>draws := draws c + 1\<rparr>"
    have "find_meta ?c1 k i \<noteq> None" using Some by (simp add: find_meta_alt)
    from shape_put_meta [OF this, of ?m] have put: "shape (snd (put_meta (fst k) (snd k) i ?m ?c1)) = shape c"
      by (simp add: shape_def fun_eq_iff)
    let ?rest = "py_bind (publish L (m_dest_pk_hex meta) (PyBytes (m_out meta)) False) (\<lambda>(b, _).
             py_bind (safe_pipe_send L b) (\<lambda>_. py_return ()))"
    have "leaves shape ?rest" by (intro leaves_rules shape_free)
    from leavesD [OF this] have rest: "shape (snd (?rest d)) = shape d" for d .
    have draw: "shape ?c1 = shape c" by (simp add: shape_def fun_eq_iff)
    obtain r c2 where run: "put_meta (fst k) (snd k) i ?m ?c1 = (r, c2)" by fastforce
    have "shape (snd (py_seq (put_meta (fst k) (snd k) i ?m) ?rest ?c1)) = shape c"
      using put rest [of c2] run by (cases r) (simp_all add: py_seq_app)
    with draw Some show ?thesis
      by (simp add: republish_entry_alt py_bind_app [of "py_get f" for f] py_get_app py_return_app Let_def
          uniform_draw_def py_bind_app [of "\<lambda>c. (Inr (h c), g c)" for h g])
  qed
qed

interpretation republish: entry_visitor "\<lambda>k i. republish_entry L k i now interval duration ignore_acked"
  by unfold_locales (rule shape_republish, rule pipe_open_free [OF conn_republish])

text \<open>A turn by keys.\<close>

lemma dispatch_turn_alt:
  "dispatch_turn L duration interval keep_alive ignore_acked last_ping =
     py_bind (get_time L) (\<lambda>now.
     py_seq (walk_entries (\<lambda>k i. republish_entry L k i now interval (real_of_int duration) ignore_acked))
     (keep_alive_ping L last_ping keep_alive now))"
proof -
  have "walk (\<lambda>k i meta. republish_meta L k i meta now interval d ignore_acked) =
      walk_entries (\<lambda>k i. republish_entry L k i now interval d ignore_acked)" for now d
    by (rule walk_same [OF shape_republish]) (simp add: republish_entry_def py_simps)
  then show ?thesis by (simp add: dispatch_turn_def)
qed

end
