(* ===== verification/Republish.thy ===== *)
theory Republish
  imports Dispatch
begin

text \<open>
  What the dispatcher's loop over the queues does: which entries it publishes again and when,
  how long the waits between two attempts get, and that one turn looks at every entry once.
\<close>

section \<open>Publishing depends on the packet ids only\<close>

definition set_queues :: "nat \<Rightarrow> (msg_enum \<Rightarrow> (string \<times> queue) list) \<Rightarrow> client \<Rightarrow> client" where
  "set_queues n qs c = c\<lparr>draws := n, msg_queues := qs\<rparr>"

lemma set_queues_sel [simp]:
  "packet_id (set_queues n qs c) = packet_id c" "packet_ids (set_queues n qs c) = packet_ids c"
  "futs (set_queues n qs c) = futs c" "trace (set_queues n qs c) = trace c" "pipe (set_queues n qs c) = pipe c"
  "pipe_open (set_queues n qs c) = pipe_open c" "msg_queues (set_queues n qs c) = qs"
  "in_flight (set_queues n qs c) pid = in_flight c pid"
  by (simp_all add: set_queues_def pipe_open_def in_flight_def split: option.split)

lemma set_queues_upd [simp]:
  "(set_queues n qs c)\<lparr>packet_id := x\<rparr> = set_queues n qs (c\<lparr>packet_id := x\<rparr>)"
  "(set_queues n qs c)\<lparr>packet_ids := y\<rparr> = set_queues n qs (c\<lparr>packet_ids := y\<rparr>)"
  "(set_queues n qs c)\<lparr>futs := z\<rparr> = set_queues n qs (c\<lparr>futs := z\<rparr>)"
  by (simp_all add: set_queues_def)

lemma gpid_queues: "gpid_loop i (set_queues n qs c) = (fst (gpid_loop i c), set_queues n qs (snd (gpid_loop i c)))"
proof (induction i c rule: gpid_loop.induct)
  case (1 i c)
  then show ?case
    by (subst (1 2 3) gpid_loop.simps) (auto simp: Let_def split: sum.split)
qed

lemma publish_queues [commutes_rules]: "commutes (set_queues n qs) (publish L topic payload dup)"
proof -
  have "commutes (set_queues n qs) get_packet_id" "commutes (set_queues n qs) new_future"
    unfolding get_packet_id_def by (rule commutesI, rule gpid_queues) (rule commutesI, simp add: new_future_def)
  then show ?thesis
    unfolding publish_def packet_ack_future_def by (intro commutes_rules) simp_all
qed

text \<open>All of a client but the packet ids and the futures, which is what publishing leaves alone.\<close>

definition rest :: "client \<Rightarrow> client" where
  "rest c = c\<lparr>packet_id := 0, packet_ids := (\<lambda>_. []), futs := []\<rparr>"

lemma rest_sel:
  assumes "rest c' = rest c"
  shows "msg_queues c' = msg_queues c" "trace c' = trace c" "pipe c' = pipe c" "pipe_open c' = pipe_open c"
    "find_meta c' = find_meta c"
proof -
  note fields = assms [THEN arg_cong]
  show "msg_queues c' = msg_queues c" "trace c' = trace c" "pipe c' = pipe c"
    using fields [of msg_queues] fields [of trace] fields [of pipe] by (simp_all add: rest_def)
  moreover have "pipe_closed c' = pipe_closed c" using fields [of pipe_closed] by (simp add: rest_def)
  ultimately show "pipe_open c' = pipe_open c" and "find_meta c' = find_meta c"
    by (cases "pipe c"; simp add: pipe_open_def) (intro ext, simp add: find_meta_alt \<open>msg_queues c' = msg_queues c\<close>)
qed

lemma publish_rest [leaves_rules]: "leaves rest (publish L topic payload dup)"
proof -
  have "leaves rest get_packet_id"
  proof (rule leavesI)
    fix c
    obtain n where "snd (get_packet_id c) = c\<lparr>packet_id := n\<rparr>"
      using gpid_loop_snd [of 0 c] by (auto simp: get_packet_id_def)
    then show "rest (snd (get_packet_id c)) = rest c" by (simp add: rest_def)
  qed
  moreover have "leaves rest new_future" by (rule leavesI) (simp add: new_future_def rest_def)
  moreover have "leaves rest (py_modify (\<lambda>c. c\<lparr>packet_ids := h c\<rparr>))" for h by (rule leaves_modify) (simp add: rest_def)
  ultimately show ?thesis
    unfolding publish_def packet_ack_future_def by (intro leaves_rules)
qed

section \<open>One entry\<close>

lemma safe_pipe_send_app:
  "safe_pipe_send L b c = (if pipe_open c then (case pipe_send_exn L (length (trace c)) of
       None \<Rightarrow> (Inr True, c\<lparr>trace := trace c @ [Sent (the (pipe c)) b]\<rparr>)
     | Some e \<Rightarrow> (if swallows L e then Inr True else Inl e, c\<lparr>trace := trace c @ [SendFailed (the (pipe c)) b e]\<rparr>))
   else (Inr False, c))"
  by (auto simp: safe_pipe_send_def py_simps async_wrap_errors_def pipe_send_def pipe_open_def split: option.splits)

text \<open>
  When an entry is due: it is no one-shot probe, not acknowledged (where that matters), its
  last attempt is at least the jittered wait ago and its life is not over.
\<close>

definition republish_due :: "meta \<Rightarrow> bool \<Rightarrow> real \<Rightarrow> real \<Rightarrow> real \<Rightarrow> bool" where
  "republish_due m acked jitter now duration \<longleftrightarrow>
     \<not> m_probe_one_shot m \<and> \<not> acked \<and> jitter \<le> now - m_updated m \<and> now - m_created m < duration"

definition sends :: "lib \<Rightarrow> meta \<Rightarrow> client \<Rightarrow> client \<Rightarrow> bool" where
  "sends L m c c' \<longleftrightarrow> (\<exists>p b pid. pipe c = Some p \<and>
     build_publish L (m_dest_pk_hex m) (PyBytes (m_out m)) pid False = Inr b \<and>
     (trace c' = trace c @ [Sent p b] \<or> (\<exists>e. trace c' = trace c @ [SendFailed p b e])))"

definition attempt :: "lib \<Rightarrow> meta \<Rightarrow> (client, unit) py" where
  "attempt L m = py_bind (publish L (m_dest_pk_hex m) (PyBytes (m_out m)) False) (\<lambda>(b, _).
     py_bind (safe_pipe_send L b) (\<lambda>_. py_return ()))"

abbreviation attempted :: "meta \<Rightarrow> real \<Rightarrow> meta" where
  "attempted m now \<equiv> m\<lparr>m_updated := now, m_attempts := m_attempts m + 1\<rparr>"

lemma republish_app:
  assumes "find_meta c k i = Some m"
  shows "republish_entry L k i now interval duration ignore_acked c =
    (if m_probe_one_shot m \<or> ignore_acked \<and> future_done (m_app_ack m) c then (Inr (), c)
     else if republish_due m (ignore_acked \<and> future_done (m_app_ack m) c)
         (uniform L (draws c) 0 (backoff interval duration (m_attempts m))) now duration
     then attempt L m (queue_put k i (attempted m now) (c\<lparr>draws := draws c + 1\<rparr>))
     else (Inr (), c\<lparr>draws := draws c + 1\<rparr>))"
proof -
  from assms obtain q where q: "map_of (msg_queues c (fst k)) (snd k) = Some q" "map_of q i = Some m"
    by (auto simp: find_meta_alt split: option.splits)
  have put: "put_meta (fst k) (snd k) i m' (c\<lparr>draws := n\<rparr>) = (Inr (), queue_put k i m' (c\<lparr>draws := n\<rparr>))" for m' n
    using q by (cases k) (simp add: queue_put_def put_meta_def)
  show ?thesis
    using assms put
    by (auto simp: republish_entry_alt py_simps Let_def uniform_draw_def republish_due_def attempt_def)
qed

lemma republish_now:
  "find_meta c k i = Some m \<Longrightarrow> republish_meta L k i m now interval duration ignore_acked c = republish_entry L k i now interval duration ignore_acked c"
  by (simp add: republish_entry_def py_simps)

lemma publish_Inr: "publish L topic payload dup c = (Inr (b, f), c') \<Longrightarrow> \<exists>pid. build_publish L topic payload pid dup = Inr b"
  by (auto simp: publish_def py_simps packet_ack_future_def split: if_splits sum.splits prod.splits)

lemma attempt_run:
  assumes "attempt L m c = (r, c')"
  shows "find_meta c' = find_meta c \<and> (trace c' = trace c \<or> sends L m c c')"
proof -
  obtain pr c1 where p: "publish L (m_dest_pk_hex m) (PyBytes (m_out m)) False c = (pr, c1)" by fastforce
  note same = rest_sel [OF leaves_run [OF publish_rest p]]
  show ?thesis
  proof (cases pr)
    case (Inl e)
    with assms p same show ?thesis by (simp add: attempt_def py_simps)
  next
    case (Inr bf)
    then obtain b f where bf: "pr = Inr (b, f)" by (cases bf) auto
    with p have made: "\<exists>pid. build_publish L (m_dest_pk_hex m) (PyBytes (m_out m)) pid False = Inr b"
      by (auto dest: publish_Inr)
    have c': "c' = snd (safe_pipe_send L b c1)"
      using assms p bf by (auto simp: attempt_def py_simps split: prod.splits sum.splits)
    have "find_meta c' = find_meta c1" unfolding c' safe_pipe_send_app
      by (intro ext) (simp add: find_meta_alt split: option.split)
    moreover have "trace c' = trace c1 \<or> (\<exists>p. pipe c1 = Some p \<and>
        (trace c' = trace c1 @ [Sent p b] \<or> (\<exists>e. trace c' = trace c1 @ [SendFailed p b e])))"
      unfolding c' safe_pipe_send_app by (auto simp: pipe_open_def split: option.split)
    ultimately show ?thesis using same made unfolding sends_def by auto
  qed
qed

lemma find_meta_draws [simp]: "find_meta (c\<lparr>draws := n\<rparr>) = find_meta c"
  by (intro ext) (simp add: find_meta_alt)

lemma pipe_open_draws [simp]: "pipe_open (c\<lparr>draws := n\<rparr>) = pipe_open c"
  by (cases "pipe c") (simp_all add: pipe_open_def)

lemma found_queue: "find_meta c k i = Some m \<Longrightarrow> queue_seqs c k \<noteq> None"
  by (cases k) (auto simp: find_meta_alt queue_seqs_def split: option.splits)

lemma queue_put_line [simp]:
  "trace (queue_put k i m c) = trace c" "pipe (queue_put k i m c) = pipe c" "pipe_open (queue_put k i m c) = pipe_open c"
  by (auto simp: queue_put_def put_meta_def set_queue_def pipe_open_def split: option.split)

text \<open>Publishing does not depend on the queues.\<close>

lemma publish_put:
  "fst (publish L topic payload dup (queue_put k i m (c\<lparr>draws := n\<rparr>))) = fst (publish L topic payload dup c)"
proof -
  let ?c1 = "queue_put k i m (c\<lparr>draws := n\<rparr>)"
  have "?c1 = set_queues n (msg_queues ?c1) c"
    by (simp add: queue_put_def put_meta_def set_queue_def set_queues_def split: option.split)
  with commutesD [OF publish_queues, of L topic payload dup c _ _ n "msg_queues ?c1"] show ?thesis
    by (metis prod.collapse fst_conv)
qed

text \<open>What goes out when an entry is sent: nothing if there is no packet or no pipe, and else the packet, or an attempt to send it.\<close>

definition goes_out :: "lib \<Rightarrow> meta \<Rightarrow> client \<Rightarrow> unit res \<Rightarrow> client \<Rightarrow> bool" where
  "goes_out L m c r c' \<longleftrightarrow> (case fst (publish L (m_dest_pk_hex m) (PyBytes (m_out m)) False c) of
     Inl e \<Rightarrow> r = Inl e \<and> trace c' = trace c
   | Inr (b, f) \<Rightarrow> (\<exists>pid. build_publish L (m_dest_pk_hex m) (PyBytes (m_out m)) pid False = Inr b) \<and>
       (case pipe c of
          Some p \<Rightarrow> if pipe_open c
            then (case pipe_send_exn L (length (trace c)) of
                None \<Rightarrow> r = Inr () \<and> trace c' = trace c @ [Sent p b]
              | Some e \<Rightarrow> r = (if swallows L e then Inr () else Inl e) \<and> trace c' = trace c @ [SendFailed p b e])
            else r = Inr () \<and> trace c' = trace c
        | None \<Rightarrow> r = Inr () \<and> trace c' = trace c))"

lemma attempt_goes_out:
  assumes "attempt L m (queue_put k i m' (c\<lparr>draws := n\<rparr>)) = (r, c')"
  shows "goes_out L m c r c'"
proof -
  let ?c1 = "queue_put k i m' (c\<lparr>draws := n\<rparr>)"
  obtain pr c2 where p: "publish L (m_dest_pk_hex m) (PyBytes (m_out m)) False ?c1 = (pr, c2)" by fastforce
  then have fst: "fst (publish L (m_dest_pk_hex m) (PyBytes (m_out m)) False c) = pr" using publish_put by (metis fst_conv)
  note same = rest_sel [OF leaves_run [OF publish_rest p]]
  show ?thesis
  proof (cases pr)
    case (Inl e)
    with assms p fst same show ?thesis by (simp add: goes_out_def attempt_def py_simps)
  next
    case (Inr bf)
    then obtain b f where bf: "pr = Inr (b, f)" by (cases bf) auto
    with p have "\<exists>pid. build_publish L (m_dest_pk_hex m) (PyBytes (m_out m)) pid False = Inr b" by (auto dest: publish_Inr)
    moreover have "pipe_open c \<Longrightarrow> pipe c \<noteq> None" by (auto simp: pipe_open_def split: option.splits)
    ultimately show ?thesis using assms p fst same bf
      by (auto simp: goes_out_def attempt_def py_simps safe_pipe_send_app split: option.splits if_splits)
  qed
qed

text \<open>
  C24: publishing again, exactly when due. For an entry in the queues, the dispatcher's body draws
  the jittered wait. If the entry is due, its time and its number of attempts are updated and,
  with the pipe open, exactly one packet goes out (or is attempted, when the send fails): the
  PUBLISH of the bytes packed when the message was queued, to the key it was queued for; only if
  no such packet can be made, the exception is raised instead. If it is not due, nothing is sent
  and the entry stays. No other entry ever changes.
\<close>

theorem republish_meta_spec:
  assumes "find_meta c k i = Some m" and "republish_meta L k i m now interval duration ignore_acked c = (r, c')"
  shows "(if republish_due m (ignore_acked \<and> future_done (m_app_ack m) c)
             (uniform L (draws c) 0 (backoff interval duration (m_attempts m))) now duration
          then find_meta c' k i = Some (attempted m now) \<and> goes_out L m c r c'
          else r = Inr () \<and> find_meta c' k i = Some m \<and> trace c' = trace c) \<and>
    (\<forall>k' j. (k', j) \<noteq> (k, i) \<longrightarrow> find_meta c' k' j = find_meta c k' j)"
proof -
  let ?acked = "ignore_acked \<and> future_done (m_app_ack m) c"
  let ?due = "republish_due m ?acked (uniform L (draws c) 0 (backoff interval duration (m_attempts m))) now duration"
  let ?c1 = "queue_put k i (attempted m now) (c\<lparr>draws := draws c + 1\<rparr>)"
  have put: "find_meta ?c1 k' j = (if k' = k \<and> j = i then Some (attempted m now) else find_meta c k' j)" for k' j
    using find_meta_put [of "c\<lparr>draws := draws c + 1\<rparr>" k i "attempted m now"] found_queue [of "c\<lparr>draws := draws c + 1\<rparr>" k i m]
      assms(1) by simp
  note run = assms(2) [unfolded republish_now [OF assms(1)] republish_app [OF assms(1)]]
  show ?thesis
  proof (cases ?due)
    case True
    then have go: "attempt L m ?c1 = (r, c')" using run by (auto simp: republish_due_def split: if_splits)
    from attempt_run [OF go] attempt_goes_out [OF go] put True show ?thesis by auto
  next
    case False
    then have "r = Inr () \<and> (c' = c \<or> c' = c\<lparr>draws := draws c + 1\<rparr>)" using run by (auto split: if_splits)
    with False assms(1) show ?thesis by auto
  qed
qed

lemma demo_entry: "find_meta demo_sent (MSG, hex_of (replicate 32 1)) 0 = Some (new_meta (hex_of (replicate 33 2)) 0 [] 0 0)"
  by (simp add: demo_sent_def find_meta_alt)

theorem republish_meta_spec_witness:
  "\<exists>r c'. republish_meta demo_lib (MSG, hex_of (replicate 32 1)) 0 (new_meta (hex_of (replicate 33 2)) 0 [] 0 0) 5 2 60 True demo_sent = (r, c') \<and>
     find_meta c' (MSG, hex_of (replicate 32 1)) 0 = Some (attempted (new_meta (hex_of (replicate 33 2)) 0 [] 0 0) 5)"
proof -
  obtain r c' where run: "republish_meta demo_lib (MSG, hex_of (replicate 32 1)) 0 (new_meta (hex_of (replicate 33 2)) 0 [] 0 0) 5 2 60 True demo_sent = (r, c')"
    by fastforce
  from republish_meta_spec [OF demo_entry this] show ?thesis using run
    by (simp add: republish_due_def demo_sent_def future_done_def fut_done_def new_meta_def)
qed

section \<open>How long it waits\<close>

text \<open>
  the backoff. The wait is never negative and never longer than a minute or the message's
  life; it doubles with every attempt until it gets there, and then stays.
\<close>

theorem backoff_bounds:
  assumes "0 < interval" and "0 \<le> duration"
  shows "0 \<le> backoff interval duration n \<and> backoff interval duration n \<le> min 60 duration \<and>
    backoff interval duration (Suc n) = min (2 * backoff interval duration n) (min 60 duration) \<and>
    (\<exists>N. \<forall>n \<ge> N. backoff interval duration n = min 60 duration)"
proof -
  obtain N where N: "60 / interval < (2::real) ^ N"
    using real_arch_pow [of 2 "60 / interval"] by auto
  have "backoff interval duration n = min 60 duration" if "n \<ge> N" for n
  proof -
    have "60 < interval * 2 ^ N" using N assms(1) by (simp add: divide_less_eq mult.commute)
    also have "... \<le> interval * 2 ^ n" using that assms(1) by (simp add: power_increasing)
    finally show ?thesis by (simp add: backoff_def)
  qed
  moreover have "backoff interval duration (Suc n) = min (2 * backoff interval duration n) (min 60 duration)"
    using assms by (auto simp: backoff_def Let_def min_def)
  moreover have "0 \<le> backoff interval duration n" using assms by (simp add: backoff_def Let_def)
  ultimately show ?thesis by (auto simp: backoff_def Let_def)
qed

theorem backoff_bounds_witness:
  "backoff 2 60 3 = 16 \<and> backoff 2 60 9 = 60 \<and> 0 \<le> backoff 2 60 3 \<and> backoff 2 60 3 \<le> min 60 60"
proof -
  have "0 \<le> backoff 2 60 3 \<and> backoff 2 60 3 \<le> min 60 60" using backoff_bounds [of 2 60 3] by simp
  then show ?thesis by (simp add: backoff_def)
qed

text \<open>
  C26: a message that is waited for goes out. An entry that is not a one-shot probe, whose future
  is pending (or acknowledgements are not looked at), whose life is not over and whose last
  attempt is as long ago as the longest wait, is sent, whatever the random draw: one packet
  leaves on the open pipe, or the send on the pipe fails.
\<close>

theorem overdue_message_is_sent:
  assumes "find_meta c k i = Some m" and "\<not> m_probe_one_shot m" and "ignore_acked \<Longrightarrow> \<not> future_done (m_app_ack m) c"
    and "min 60 duration \<le> now - m_updated m" and "now - m_created m < duration"
    and "\<And>n b. 0 \<le> b \<Longrightarrow> uniform L n 0 b \<le> b" and "0 < interval" and "0 \<le> duration"
    and "pipe c = Some p" and "pipe_open c"
    and "fst (publish L (m_dest_pk_hex m) (PyBytes (m_out m)) False c) = Inr (b, f)"
  shows "\<exists>e. trace (snd (republish_meta L k i m now interval duration ignore_acked c)) \<in>
    {trace c @ [Sent p b], trace c @ [SendFailed p b e]}"
proof -
  let ?wait = "backoff interval duration (m_attempts m)" and ?c1 = "queue_put k i (attempted m now) (c\<lparr>draws := draws c + 1\<rparr>)"
  have "0 \<le> ?wait" and w: "?wait \<le> min 60 duration"
    using assms(7,8) by (simp_all add: backoff_def Let_def min_le_iff_disj)
  then have "uniform L (draws c) 0 ?wait \<le> now - m_updated m" using assms(6) [of ?wait "draws c"] assms(4) by linarith
  then have due: "republish_due m (ignore_acked \<and> future_done (m_app_ack m) c) (uniform L (draws c) 0 ?wait) now duration"
    using assms(2,3,5) by (auto simp: republish_due_def)
  obtain r c' where go: "attempt L m ?c1 = (r, c')" by fastforce
  then have "republish_meta L k i m now interval duration ignore_acked c = (r, c')"
    unfolding republish_now [OF assms(1)] republish_app [OF assms(1)] using due assms(2,3) by auto
  with attempt_goes_out [OF go] assms(9-11) show ?thesis by (auto simp: goes_out_def split: option.splits)
qed

definition demo_queued :: client where
  "demo_queued = demo_client\<lparr>pipe := Some 0, futs := [Pending],
     msg_queues := (\<lambda>t. if t = MSG then [(hex_of (replicate 32 1), [(0, new_meta ''ab'' 0 [1] 0 0)])] else [])\<rparr>"

theorem overdue_message_is_sent_witness:
  "\<exists>e. trace (snd (republish_meta demo_lib (MSG, hex_of (replicate 32 1)) 0 ((new_meta ''ab'' 0 [1] 0 0)\<lparr>m_created := 20, m_updated := -10\<rparr>) 50 2 60 True
     (demo_queued\<lparr>msg_queues := (\<lambda>t. [(hex_of (replicate 32 1), [(0, (new_meta ''ab'' 0 [1] 0 0)\<lparr>m_created := 20, m_updated := -10\<rparr>)])])\<rparr>)))
   \<in> {[Sent 0 [0x32, 7, 0, 2, 97, 98, 0, 1, 1]], [SendFailed 0 [0x32, 7, 0, 2, 97, 98, 0, 1, 1] e]}"
proof -
  let ?m = "(new_meta ''ab'' 0 [1] 0 0)\<lparr>m_created := 20, m_updated := -10\<rparr>"
  let ?c = "demo_queued\<lparr>msg_queues := (\<lambda>t. [(hex_of (replicate 32 1), [(0, ?m)])])\<rparr>"
  have found: "find_meta ?c (MSG, hex_of (replicate 32 1)) 0 = Some ?m" by (simp add: find_meta_alt)
  have pid: "get_packet_id ?c = (Inr [0, 1], ?c\<lparr>packet_id := 1\<rparr>)"
    by (simp add: get_packet_id_def gpid_step Let_def in_flight_def ack_types_def demo_queued_def demo_client_def
        new_client_def next_pid_def pid_bytes_def be_encode_widths)
  have pub: "fst (publish demo_lib (m_dest_pk_hex ?m) (PyBytes (m_out ?m)) False ?c) =
      Inr ([0x32, 7, 0, 2, 97, 98, 0, 1, 1], 1)"
    using pid by (simp add: publish_def py_simps packet_ack_future_def new_future_def build_publish_frame
        mqtt_enc_str_def struct_pack_def be_encode_widths frame_def build_header_Cons header_byte_val encode_small
        demo_queued_def demo_client_def new_client_def new_meta_def)
  have line: "pipe ?c = Some 0" "pipe_open ?c" "trace ?c = []" "futs ?c = [Pending]"
    by (simp_all add: demo_queued_def demo_client_def new_client_def pipe_open_def)
  have m: "\<not> m_probe_one_shot ?m" "m_app_ack ?m = 0" "m_updated ?m = -10" "m_created ?m = 20" by (simp_all add: new_meta_def)
  show ?thesis
    using overdue_message_is_sent [OF found m(1) _ _ _ _ _ _ line(1,2) pub, where ignore_acked = True and duration = 60
        and now = 50 and interval = 2] line(3,4) m
    by (simp add: future_done_def fut_done_def)
qed

section \<open>The walk\<close>

lemma walk_now:
  "walk (\<lambda>k i meta. republish_meta L k i meta now interval duration ignore_acked) =
   walk_entries (\<lambda>k i. republish_entry L k i now interval duration ignore_acked)"
  by (rule walk_same [OF shape_republish]) (simp add: republish_entry_def py_simps)

lemma entry_keys_entries:
  assumes "\<And>t. distinct (map fst (msg_queues c t))"
  shows "map (\<lambda>(k, i). the (find_meta c k i)) (entry_keys (shape c)) = iter_all_messages (msg_queues c)"
proof -
  have one: "map (\<lambda>i. the (find_meta c (t, qid) i)) (sort (map fst q)) = iter_queue q"
    if "(qid, q) \<in> set (msg_queues c t)" for t qid q
  proof -
    have q: "map_of (msg_queues c t) qid = Some q" using that assms by auto
    then have look: "find_meta c (t, qid) i = map_of q i" for i by (simp add: find_meta_alt)
    have "map_of q i \<noteq> None" if "i \<in> set (sort (map fst q))" for i using that key_iff [of i q] by simp
    then have "(case map_of q i of None \<Rightarrow> [] | Some meta \<Rightarrow> [meta]) = [the (map_of q i)]"
      if "i \<in> set (sort (map fst q))" for i using that by force
    then have "iter_queue q = concat (map (\<lambda>i. [the (map_of q i)]) (sort (map fst q)))"
      unfolding iter_queue_def by (metis (lifting) map_cong)
    then show ?thesis by (simp add: look)
  qed
  show ?thesis
    unfolding entry_keys_def iter_all_messages_def shape_def map_concat
    by (simp add: comp_def case_prod_beta map_concat, intro arg_cong [of _ _ concat] map_cong refl)
      (auto simp: one)
qed

lemma entry_keys_set:
  assumes "\<And>t. distinct (map fst (msg_queues c t))"
  shows "set (entry_keys (shape c)) = {(k, i). find_meta c k i \<noteq> None}"
proof -
  have types: "set msg_types = UNIV" by (auto simp: msg_types_def) (metis msg_enum.exhaust)
  have look: "map_of (shape c t) qid = Some is \<longleftrightarrow> (qid, is) \<in> set (shape c t)" for t qid "is"
    by (rule map_of_eq_Some_iff) (use assms in \<open>simp add: shape_def comp_def case_prod_beta\<close>)
  have "((t, qid), i) \<in> set (entry_keys (shape c)) \<longleftrightarrow> find_meta c (t, qid) i \<noteq> None" for t qid i
    unfolding find_meta_shape look entry_keys_def using types by fastforce
  then show ?thesis by auto
qed

lemma distinct_concat_keyed:
  assumes "distinct xs" and "\<And>x. x \<in> set xs \<Longrightarrow> distinct (f x)" and "\<And>x y. x \<in> set xs \<Longrightarrow> y \<in> set (f x) \<Longrightarrow> key y = x"
  shows "distinct (concat (map f xs))"
  using assms
proof (induction xs)
  case (Cons x xs)
  have "x = z" if "y \<in> set (f x)" "z \<in> set xs" "y \<in> set (f z)" for y z
    using Cons.prems(3) [of x y] Cons.prems(3) [of z y] that by simp
  then have "set (f x) \<inter> (\<Union>z \<in> set xs. set (f z)) = {}" using Cons.prems(1) by auto
  moreover have "distinct (concat (map f xs))" using Cons.prems by (intro Cons.IH) auto
  ultimately show ?case using Cons.prems(2) [of x] by simp
qed simp

lemma entry_keys_distinct:
  assumes "queues_ok c"
  shows "distinct (entry_keys (shape c))"
proof -
  have ks: "distinct (concat (map (\<lambda>(qid, is). map (\<lambda>i. ((t, qid), i)) (sort is)) (shape c t)))" for t
  proof (rule distinct_concat_keyed [where key = "\<lambda>((t, qid), i). (qid, the (map_of (shape c t) qid))"])
    have d: "distinct (map fst (shape c t))"
      using assms by (simp add: queues_ok_def shape_def comp_def case_prod_beta)
    then show "distinct (shape c t)" by (simp add: distinct_map)
    fix x assume x: "x \<in> set (shape c t)"
    obtain qid "is" where qi: "x = (qid, is)" by (cases x)
    then obtain q where "(qid, q) \<in> set (msg_queues c t)" "is = map fst q" using x by (auto simp: shape_def)
    moreover have "distinct (map fst (msg_queues c t))" using assms by (simp add: queues_ok_def)
    ultimately have "distinct is" using assms unfolding queues_ok_def by (metis map_of_eq_Some_iff)
    then show "distinct (case x of (qid, is) \<Rightarrow> map (\<lambda>i. ((t, qid), i)) (sort is))"
      by (simp add: qi distinct_map inj_on_def)
    fix y assume "y \<in> set (case x of (qid, is) \<Rightarrow> map (\<lambda>i. ((t, qid), i)) (sort is))"
    then show "(\<lambda>((t, qid), i). (qid, the (map_of (shape c t) qid))) y = x"
      using x d by (auto simp: qi)
  qed
  have "distinct msg_types" by (simp add: msg_types_def)
  from distinct_concat_keyed [where key = "\<lambda>((t, qid), i). t", OF this ks] show ?thesis
    unfolding entry_keys_def by fastforce
qed

text \<open>
  C25: one turn of the dispatcher looks at every queued entry once. With the pipe open, the walk
  is the republishing of the entries one after another: every entry of every queue, none
  twice, in the order in which \<open>iter_all_messages\<close> lists them for the queues at the start.
\<close>

theorem walk_republishes_each_entry:
  assumes "client_inv c" and "pipe_open c"
  shows "walk (\<lambda>k i meta. republish_meta L k i meta now interval duration ignore_acked) c =
      py_for (entry_keys (shape c)) (\<lambda>(k, i). republish_entry L k i now interval duration ignore_acked) c \<and>
    distinct (entry_keys (shape c)) \<and> set (entry_keys (shape c)) = {(k, i). find_meta c k i \<noteq> None} \<and>
    map (\<lambda>(k, i). the (find_meta c k i)) (entry_keys (shape c)) = iter_all_messages (msg_queues c)"
proof -
  from assms have ok: "queues_ok c" by (simp add: client_inv_def)
  then have d: "distinct (map fst (msg_queues c t))" for t by (simp add: queues_ok_def)
  then have "distinct (map fst (shape c t))" for t by (simp add: shape_def comp_def case_prod_beta)
  with republish.walk_visits [OF assms(2)] entry_keys_distinct [OF ok] entry_keys_set [of c, OF d] entry_keys_entries [of c, OF d]
  show ?thesis unfolding walk_now by blast
qed

lemma demo_queued_inv: "client_inv demo_queued"
proof -
  have find: "find_meta demo_queued k i = (if k = (MSG, hex_of (replicate 32 1)) \<and> i = 0 then Some (new_meta ''ab'' 0 [1] 0 0) else None)" for k i
    by (cases k) (auto simp: find_meta_alt demo_queued_def demo_client_def new_client_def)
  have pids: "packet_ids demo_queued = (\<lambda>_. [])" "packet_id demo_queued = 0" and fs: "futs demo_queued = [Pending]"
    and qs: "msg_queues demo_queued = (\<lambda>t. if t = MSG then [(hex_of (replicate 32 1), [(0, new_meta ''ab'' 0 [1] 0 0)])] else [])"
    by (simp_all add: demo_queued_def demo_client_def new_client_def)
  have own: "owned demo_queued w = (if w = Entry (MSG, hex_of (replicate 32 1)) 0 then Some 0 else None)" for w
    by (cases w) (auto simp: owned.simps find pids)
  show ?thesis
    unfolding client_inv_def queues_ok_def entries_ok_def pids_ok_def owners_ok_def
    by (auto simp: find own pids fs qs split: if_splits)
qed

theorem walk_republishes_each_entry_witness:
  "walk (\<lambda>k i meta. republish_meta demo_lib k i meta 0 2 60 True) demo_queued =
     py_for [((MSG, hex_of (replicate 32 1)), 0)] (\<lambda>(k, i). republish_entry demo_lib k i 0 2 60 True) demo_queued"
proof -
  have "pipe_open demo_queued" by (simp add: pipe_open_def demo_queued_def demo_client_def new_client_def)
  moreover have "entry_keys (shape demo_queued) = [((MSG, hex_of (replicate 32 1)), 0)]"
    by (simp add: entry_keys_def shape_def demo_queued_def msg_types_def)
  ultimately show ?thesis using walk_republishes_each_entry [OF demo_queued_inv] by metis
qed

section \<open>A queue that disappears\<close>

definition without :: "msg_enum \<Rightarrow> string \<Rightarrow> (msg_enum \<Rightarrow> (string \<times> int list) list) \<Rightarrow> msg_enum \<Rightarrow> (string \<times> int list) list" where
  "without t gone sh = (\<lambda>t'. if t' = t then filter (\<lambda>(qid, _). qid \<noteq> gone) (sh t') else sh t')"

lemma without_twice [simp]: "without t gone (without t gone sh) = without t gone sh"
  by (auto simp: without_def fun_eq_iff)

lemma without_lookup: "map_of (without t gone sh t') qid = (if t' = t \<and> qid = gone then None else map_of (sh t') qid)"
proof -
  have "map_of (filter (\<lambda>(q, _). q \<noteq> gone) al) qid = (if qid = gone then None else map_of al qid)" for qid and al :: "(string \<times> int list) list"
    by (induction al) auto
  then show ?thesis unfolding without_def by auto
qed

text \<open>The body of the loop deletes the queue \<open>gone\<close> when it is at one entry, and none otherwise.\<close>

locale deleting =
  fixes visit :: "msg_enum \<times> string \<Rightarrow> int \<Rightarrow> meta \<Rightarrow> (client, unit) py" and t :: msg_enum and qid :: string and i :: int and gone :: string
  assumes returns: "fst (visit k j m c) = Inr ()" and keeps_open: "leaves pipe_open (visit k j m)"
    and deletes: "shape (snd (visit k j m c)) = (if (k, j) = ((t, qid), i) then without t gone (shape c) else shape c)"
begin

definition hit :: "msg_enum \<Rightarrow> string list \<Rightarrow> client \<Rightarrow> bool" where
  "hit t' qids c \<longleftrightarrow> t' = t \<and> qid \<in> set qids \<and> (\<exists>ks. map_of (shape c t) qid = Some ks \<and> i \<in> set ks)"

lemma visited: "pipe_open c \<Longrightarrow> \<exists>c'. visit k j m c = (Inr (), c') \<and> pipe_open c' \<and>
    shape c' = (if (k, j) = ((t, qid), i) then without t gone (shape c) else shape c)"
  using returns [of k j m c] deletes [of k j m c] leavesD [OF keeps_open, of k j m c] by (cases "visit k j m c") auto

lemma through_seqs:
  "pipe_open c \<Longrightarrow> map_of (shape c t') q = Some ks \<Longrightarrow> \<not> (t' = t \<and> q = gone) \<Longrightarrow>
   \<exists>c'. walk_seqs visit (t', q) held is c = (Inr True, c') \<and> pipe_open c' \<and>
     shape c' = (if (t', q) = (t, qid) \<and> i \<in> set is \<and> i \<in> set ks then without t gone (shape c) else shape c)"
proof (induction "is" arbitrary: c held)
  case (Cons j "is")
  from Cons.prems(2) obtain q' where q': "map_of (msg_queues c t') q = Some q'" "ks = map fst q'" by (auto simp: shape_lookup)
  then have held: "held_queue (t', q) held c = q'" by (simp add: held_queue_def)
  have key: "map_of q' j = None \<longleftrightarrow> j \<notin> set ks" by (simp add: q'(2) map_of_eq_None_iff)
  show ?case
  proof (cases "map_of q' j")
    case None
    from Cons.IH [OF Cons.prems, of q'] None key held show ?thesis by (auto simp: py_simps)
  next
    case (Some m)
    obtain c1 where c1: "visit (t', q) j m c = (Inr (), c1)" "pipe_open c1"
      "shape c1 = (if ((t', q), j) = ((t, qid), i) then without t gone (shape c) else shape c)"
      using visited [OF Cons.prems(1)] by blast
    then have "map_of (shape c1 t') q = Some ks" using Cons.prems(2,3) by (auto simp: without_lookup)
    from Cons.IH [OF c1(2) this Cons.prems(3), of q'] obtain c2 where c2: "walk_seqs visit (t', q) q' is c1 = (Inr True, c2)" "pipe_open c2"
      "shape c2 = (if (t', q) = (t, qid) \<and> i \<in> set is \<and> i \<in> set ks then without t gone (shape c1) else shape c1)" by blast
    have "walk_seqs visit (t', q) held (j # is) c = (Inr True, c2)"
      using held Some c1(1) c2(1) Cons.prems(1) by (simp add: py_simps)
    moreover have "j \<in> set ks" using Some key by auto
    ultimately show ?thesis using c2 c1(3) by auto
  qed
qed (simp add: py_simps)

lemma through_queues:
  "pipe_open c \<Longrightarrow> \<forall>q \<in> set qids. map_of (shape c t') q \<noteq> None \<and> \<not> (t' = t \<and> q = gone) \<Longrightarrow>
   \<exists>c'. walk_queues visit t' qids c = (Inr True, c') \<and> pipe_open c' \<and>
     shape c' = (if hit t' qids c then without t gone (shape c) else shape c)"
proof (induction qids arbitrary: c)
  case (Cons q qids)
  from Cons.prems(2) obtain ks where ks: "map_of (shape c t') q = Some ks" "\<not> (t' = t \<and> q = gone)" by auto
  from get_queue_shape [OF ks(1)] obtain q' where q': "get_queue t' q c = (Inr q', c)" "map fst q' = ks" by blast
  obtain c1 where c1: "walk_seqs visit (t', q) q' (sort (map fst q')) c = (Inr True, c1)" "pipe_open c1"
    "shape c1 = (if (t', q) = (t, qid) \<and> i \<in> set ks then without t gone (shape c) else shape c)"
    using through_seqs [OF Cons.prems(1) ks, of q' "sort (map fst q')"] q'(2) by auto
  then have "\<forall>q \<in> set qids. map_of (shape c1 t') q \<noteq> None \<and> \<not> (t' = t \<and> q = gone)"
    using Cons.prems(2) by (auto simp: without_lookup)
  from Cons.IH [OF c1(2) this] obtain c2 where c2: "walk_queues visit t' qids c1 = (Inr True, c2)" "pipe_open c2"
    "shape c2 = (if hit t' qids c1 then without t gone (shape c1) else shape c1)" by blast
  have "hit t' qids c1 \<longleftrightarrow> t' = t \<and> qid \<in> set qids \<and> (\<exists>ks. map_of (shape c t) qid = Some ks \<and> i \<in> set ks)"
    using c1(3) ks(2) by (auto simp: hit_def without_lookup)
  then have "shape c2 = (if hit t' (q # qids) c then without t gone (shape c) else shape c)"
    using c2(3) c1(3) ks(1) by (auto simp: hit_def)
  with q'(1) c1(1) c2(1,2) show ?case by (simp add: py_simps)
qed (simp add: py_simps hit_def)

lemma through_types:
  "pipe_open c \<Longrightarrow> t \<notin> set ts \<Longrightarrow> \<exists>c'. walk_types visit ts c = (Inr True, c') \<and> pipe_open c' \<and> shape c' = shape c"
proof (induction ts arbitrary: c)
  case (Cons t' ts)
  have "map_of (shape c t') q \<noteq> None" if "q \<in> set (map fst (msg_queues c t'))" for q
    using that by (auto simp: shape_lookup map_of_eq_None_iff)
  then obtain c1 where c1: "walk_queues visit t' (map fst (msg_queues c t')) c = (Inr True, c1)" "pipe_open c1" "shape c1 = shape c"
    using through_queues [OF Cons.prems(1), of "map fst (msg_queues c t')" t'] Cons.prems(2) by (auto simp: hit_def)
  with Cons.IH [OF c1(2)] Cons.prems(2) show ?case by (simp add: py_simps)
qed (simp add: py_simps)

lemma queues_append:
  "walk_queues visit t' (xs @ ys) = py_bind (walk_queues visit t' xs) (\<lambda>go. if go then walk_queues visit t' ys else py_return False)"
  by (induction xs) (auto simp: py_simps fun_eq_iff split: prod.split sum.split)

lemma types_append:
  "walk_types visit (xs @ ys) = py_bind (walk_types visit xs) (\<lambda>go. if go then walk_types visit ys else py_return False)"
  by (induction xs) (auto simp: py_simps fun_eq_iff split: prod.split sum.split)

lemma walk_stops:
  assumes "pipe_open c" and "map fst (msg_queues c t) = before @ gone # after" and "gone \<notin> set before" and "qid \<in> set before"
    and "map_of (msg_queues c t) qid = Some q" and "map_of q i = Some m"
  shows "\<exists>c'. walk visit c = (Inl KeyError, c')"
proof -
  have "t \<in> set msg_types" "distinct msg_types" by (cases t; simp add: msg_types_def)+
  then obtain ts us where types: "msg_types = ts @ t # us" "t \<notin> set ts" using split_list_first by metis
  from through_types [OF assms(1) types(2)] obtain c1 where c1: "walk_types visit ts c = (Inr True, c1)" "pipe_open c1" "shape c1 = shape c"
    by blast
  have ids: "map fst (msg_queues c1 t) = map fst (msg_queues c t)"
    using arg_cong [OF c1(3), of "\<lambda>sh. map fst (sh t)"] by (simp add: shape_def comp_def case_prod_beta)
  have "\<forall>q \<in> set before. map_of (shape c1 t) q \<noteq> None"
  proof
    fix q assume "q \<in> set before"
    then have "q \<in> set (map fst (msg_queues c t))" unfolding assms(2) by simp
    then show "map_of (shape c1 t) q \<noteq> None" unfolding c1(3) shape_lookup by (simp add: map_of_eq_None_iff)
  qed
  moreover have "\<forall>q \<in> set before. q \<noteq> gone" using assms(3) by auto
  ultimately obtain c2 where c2: "walk_queues visit t before c1 = (Inr True, c2)"
    "shape c2 = (if hit t before c1 then without t gone (shape c1) else shape c1)"
    using through_queues [OF c1(2), of before t] by auto
  have "i \<in> set (map fst q)" using assms(6) by (metis key_iff list.set_map option.distinct(1))
  then have "hit t before c1" using assms(4,5) by (simp add: hit_def c1(3) shape_lookup)
  then have "map_of (shape c2 t) gone = None" using c2(2) by (simp add: without_lookup)
  then have "get_queue t gone c2 = (Inl KeyError, c2)" by (simp add: shape_lookup get_queue_def)
  then have "walk_queues visit t (before @ gone # after) c1 = (Inl KeyError, c2)" by (simp add: queues_append py_simps c2(1))
  then have "walk_types visit msg_types c = (Inl KeyError, c2)" by (simp add: types types_append py_simps c1(1) ids assms(2))
  then show ?thesis by (simp add: walk_def py_simps)
qed

end

text \<open>A send that ends deletes the queue of its message; the dispatcher may be at any entry then.\<close>

definition sender_ends :: "msg_enum \<times> string \<Rightarrow> int \<Rightarrow> string \<Rightarrow> msg_enum \<times> string \<Rightarrow> int \<Rightarrow> meta \<Rightarrow> (client, unit) py" where
  "sender_ends k i gone k' j m = py_when (k' = k \<and> j = i) (dequeue_msg gone None (fst k))"

lemma dequeue_shape: "fst (dequeue_msg gone None t c) = Inr () \<and> shape (snd (dequeue_msg gone None t c)) = without t gone (shape c)"
proof -
  have "map (\<lambda>(qid, q). (qid, map fst q)) (AList.delete gone al) = filter (\<lambda>(qid, _). qid \<noteq> gone) (map (\<lambda>(qid, q). (qid, map fst q)) al)"
    for al :: "(string \<times> queue) list"
    by (induction al) auto
  note del = this
  show ?thesis
  proof (cases "map_of (msg_queues c t) gone")
    case None
    then have "filter (\<lambda>(qid, _). qid \<noteq> gone) (map (\<lambda>(qid, q). (qid, map fst q)) (msg_queues c t)) = map (\<lambda>(qid, q). (qid, map fst q)) (msg_queues c t)"
      by (auto simp: filter_id_conv map_of_eq_None_iff) (metis fst_conv image_iff)
    with None show ?thesis by (auto simp: dequeue_msg_def shape_def without_def fun_eq_iff)
  next
    case (Some q)
    then show ?thesis by (auto simp: dequeue_msg_def del_queue_def shape_def without_def fun_eq_iff del)
  qed
qed

interpretation sender: deleting "sender_ends (t, qid) i gone" t qid i gone for t qid i gone
proof
  fix k j m c
  show "fst (sender_ends (t, qid) i gone k j m c) = Inr ()"
    and "shape (snd (sender_ends (t, qid) i gone k j m c)) = (if (k, j) = ((t, qid), i) then without t gone (shape c) else shape c)"
    using dequeue_shape by (simp_all add: sender_ends_def py_simps)
  show "leaves pipe_open (sender_ends (t, qid) i gone k j m)"
    by (rule leavesI) (simp add: sender_ends_def py_simps dequeue_msg_def del_queue_def pipe_open_def split: option.split)
qed



end
