(* ===== verification/Client_Life.thy ===== *)
theory Client_Life
  imports Republish
begin

text \<open>
  The life of a client (\<open>MQTTClient.connect\<close> and \<open>MQTTClient.close\<close>): connecting with a
  timeout, starting the dispatcher, and closing for good.
\<close>

section \<open>Connecting\<close>

text \<open>
  \<open>await asyncio.wait_for(mqtt_connect(...), timeout)\<close> with its handler: when the timeout
  strikes, \<open>mqtt_connect\<close> is cancelled where it waits and \<open>wait_for\<close> raises \<open>TimeoutError\<close>,
  which becomes a \<open>ConnectionError\<close>; so does a timeout inside \<open>mqtt_connect\<close>. A cancellation of
  the caller itself (\<open>outside\<close>) passes through.
\<close>

definition within_timeout :: "bool \<Rightarrow> (client, 'a) py \<Rightarrow> (client, 'a) py" where
  "within_timeout outside m =
     py_except m (\<lambda>e. e = TimeoutError \<or> e = CancelledError \<and> \<not> outside) (py_raise ConnectionError)"

text \<open>\<open>if pipe and self.dispatcher_task is None: self.dispatcher_task = create_task(...)\<close>\<close>

definition start_dispatcher :: "client \<Rightarrow> client" where
  "start_dispatcher c = (if dispatcher_task c = None then c\<lparr>dispatcher_task := Some Running\<rparr> else c)"

text \<open>A dispatcher that has run, or raised, to its end: the attribute keeps the finished task.\<close>

definition dispatcher_ended :: "client \<Rightarrow> client" where
  "dispatcher_ended c = c\<lparr>dispatcher_task := map_option (\<lambda>_. Finished) (dispatcher_task c)\<rparr>"

definition connect :: "lib \<Rightarrow> bool \<Rightarrow> int \<Rightarrow> int \<Rightarrow> (client, nat option) py" where
  "connect L outside duration keep_alive =
     py_bind (py_get dispatcher_task) (\<lambda>t.
     if t = Some Running then py_get pipe
     else
       py_seq (py_modify (\<lambda>c. c\<lparr>republish_duration := max duration (2 * keep_alive)\<rparr>))
       (py_bind (within_timeout outside (mqtt_connect L keep_alive)) (\<lambda>p.
        py_seq (py_modify start_dispatcher) (py_return (Some p)))))"

section \<open>Closing\<close>

text \<open>
  \<open>await cancel_task(self.dispatcher_task)\<close>. A dispatcher that is cancelled while it waits for its
  subscription in \<open>mqtt_connect\<close> (the environment says whether it does) runs the handler there: it
  drops the pipe and closes it, whatever that raises. At a sleep, a send or before the CONNACK, its
  cancellation has no effect of its own on the client. The future of the subscription, which nobody
  else waits for, is left as it is.
\<close>

definition cancel_dispatcher :: "lib \<Rightarrow> (client, unit) py" where
  "cancel_dispatcher L =
     py_bind (py_get (\<lambda>c. if dispatcher_task c = Some Running \<and> cut_off L (length (trace c)) then pipe c else None)) (\<lambda>p.
     case p of
       None \<Rightarrow> py_return ()
     | Some p \<Rightarrow> py_seq (py_modify (\<lambda>c. c\<lparr>pipe := None\<rparr>)) (py_except (pipe_close L p) (\<lambda>_. True) (py_return ())))"

definition close :: "lib \<Rightarrow> (client, unit) py" where
  "close L =
     py_bind (py_get is_closed) (\<lambda>closed.
     if closed then py_return ()
     else
       py_seq (py_modify (\<lambda>c. c\<lparr>is_closed := True\<rparr>))
       (py_seq (cancel_dispatcher L)
       (py_seq (py_modify (\<lambda>c. c\<lparr>dispatcher_task := None\<rparr>))
       (py_bind (py_get pipe) (\<lambda>p. case p of
          None \<Rightarrow> py_return ()
        | Some p \<Rightarrow>
            py_seq (async_wrap_errors L (send_on L p build_disconnect))
            (py_seq (pipe_close L p)
            (py_modify (\<lambda>c. c\<lparr>pipe := None\<rparr>))))))))"

section \<open>The client as a context manager\<close>

definition MQTT_KEEP_ALIVE :: int where
  "MQTT_KEEP_ALIVE = 10"

text \<open>\<open>await client\<close> and \<open>async with client\<close>: connecting with the defaults, and closing at the end.\<close>

definition client_await :: "lib \<Rightarrow> bool \<Rightarrow> (client, nat option) py" where
  "client_await L outside = connect L outside 60 MQTT_KEEP_ALIVE"

definition client_aenter :: "lib \<Rightarrow> bool \<Rightarrow> (client, unit) py" where
  "client_aenter L outside = py_bind (connect L outside 60 MQTT_KEEP_ALIVE) (\<lambda>_. py_return ())"

definition client_aexit :: "lib \<Rightarrow> (client, bool) py" where
  "client_aexit L = py_seq (close L) (py_return False)"

section \<open>What connecting leaves alone\<close>

definition life :: "client \<Rightarrow> bool \<times> task option \<times> int \<times> nat list \<times> real option \<times> string \<times> int \<times> int \<times> keypair" where
  "life c = (is_closed c, dispatcher_task c, republish_duration c, msg_handlers c, last_connect c, host c, port c, af c, kp c)"

interpretation life: traffic_free life
  by unfold_locales (simp_all add: life_def)

lemma life_pipe_close [leaves_rules]: "leaves life (pipe_close L p)"
  by (rule leavesI) (simp add: pipe_close_def life_def)

lemma leaves_cleanup [leaves_rules]: "leaves f m \<Longrightarrow> leaves f h \<Longrightarrow> leaves f (py_cleanup m h)"
proof (rule leavesI)
  fix s assume m: "leaves f m" and h: "leaves f h"
  show "f (snd (py_cleanup m h s)) = f s"
    using leavesD [OF m, of s] leaves_run [OF h]
    by (cases "m s") (auto simp: py_cleanup_def split: sum.split prod.split)
qed

lemma life_mqtt_connect: "leaves life (mqtt_connect L keep_alive)"
proof -
  have "leaves life (ensure_client_id L)" "leaves life (tcp_pipe L)"
    by (rule leavesI, simp add: ensure_client_id_def tcp_pipe_def life_def Let_def split: option.split list.split sum.split)+
  moreover have "leaves life (read_connack L p)" for p
    unfolding read_connack_def by (cases "recv_n L p 4") (auto intro!: leaves_rules)
  moreover have "leaves life (py_modify (\<lambda>c. c\<lparr>pipe := x\<rparr>))" for x by (rule leaves_modify) (simp add: life_def)
  ultimately show ?thesis
    unfolding mqtt_connect_def mqtt_connect_with_def
    by (intro leaves_rules life.free_steps life.free_publish life.free_subscribe)
qed

section \<open>What connect establishes\<close>

lemma connect_app:
  "connect L outside duration keep_alive c =
    (if dispatcher_task c = Some Running then (Inr (pipe c), c)
     else case mqtt_connect L keep_alive (c\<lparr>republish_duration := max duration (2 * keep_alive)\<rparr>) of
       (Inl e, c') \<Rightarrow> (Inl (if e = TimeoutError \<or> e = CancelledError \<and> \<not> outside then ConnectionError else e), c')
     | (Inr p, c') \<Rightarrow> (Inr (Some p), start_dispatcher c'))"
  by (auto simp: connect_def within_timeout_def py_simps split: prod.split sum.split)

lemma set_duration [simp]:
  "pipes_ok (c\<lparr>republish_duration := d\<rparr>) = pipes_ok c" "pipe_open (c\<lparr>republish_duration := d\<rparr>) = pipe_open c"
  "pipes_ok (start_dispatcher c) = pipes_ok c" "pipe_open (start_dispatcher c) = pipe_open c"
  "pipe (start_dispatcher c) = pipe c" "republish_duration (start_dispatcher c) = republish_duration c"
  "last_connect (start_dispatcher c) = last_connect c"
  "dispatcher_task (start_dispatcher c) = Some (case dispatcher_task c of None \<Rightarrow> Running | Some t \<Rightarrow> t)"
  by (auto simp: pipes_ok_def pipe_open_def start_dispatcher_def split: option.split)

lemma connect_connected_aux:
  assumes "connect L outside duration keep_alive c = (Inr r, c')" and "pipes_ok c"
  shows "if dispatcher_task c = Some Running then r = pipe c \<and> c' = c
    else \<exists>p. r = Some p \<and> pipe c' = Some p \<and> pipe_open c' \<and> pipes_ok c' \<and>
      republish_duration c' = max duration (2 * keep_alive) \<and>
      last_connect c' = last_connect c \<and>
      dispatcher_task c' = Some (case dispatcher_task c of None \<Rightarrow> Running | Some t \<Rightarrow> t)"
proof (cases "dispatcher_task c = Some Running")
  case False
  let ?c = "c\<lparr>republish_duration := max duration (2 * keep_alive)\<rparr>"
  from assms(1) False obtain p c1 where con: "mqtt_connect L keep_alive ?c = (Inr p, c1)"
    and r: "r = Some p" "c' = start_dispatcher c1"
    by (auto simp: connect_app split: prod.splits sum.splits)
  have ok: "pipes_ok ?c" using assms(2) by simp
  have "life c1 = life ?c" using leaves_run [OF life_mqtt_connect con] .
  then have "dispatcher_task c1 = dispatcher_task c" "republish_duration c1 = max duration (2 * keep_alive)"
    "last_connect c1 = last_connect c"
    by (simp_all add: life_def)
  with connected_means_subscribed_aux [OF con ok] r False show ?thesis by simp
qed (use assms in \<open>auto simp: connect_app\<close>)

text \<open>
  what \<open>connect\<close> establishes. If it returns while the dispatcher runs, it has only handed out
  the pipe. Otherwise the client has a new open pipe, ages messages by the larger of the
  duration asked for and two keep-alive intervals, and has a dispatcher: a new one if it had
  none. A dispatcher that has ended is not replaced.
\<close>

theorem connect_connected:
  assumes "connect L outside duration keep_alive c = (Inr r, c')" and "pipes_ok c"
  shows "if dispatcher_task c = Some Running then r = pipe c \<and> c' = c
    else \<exists>p. r = Some p \<and> pipe c' = Some p \<and> pipe_open c' \<and> pipes_ok c' \<and>
      republish_duration c' = max duration (2 * keep_alive) \<and>
      last_connect c' = last_connect c \<and>
      dispatcher_task c' = Some (case dispatcher_task c of None \<Rightarrow> Running | Some t \<Rightarrow> t)"
  using assms by (rule connect_connected_aux)

theorem connect_connected_witness:
  "\<exists>c'. connect demo_lib False 60 10 (demo_client\<lparr>republish_duration := 60\<rparr>) = (Inr (Some 0), c') \<and>
     dispatcher_task c' = Some Running \<and> pipe_open c'"
proof -
  obtain c1 where con: "mqtt_connect demo_lib 10 (demo_client\<lparr>republish_duration := 60\<rparr>) = (Inr 0, c1)"
    using demo_connect_any [of 60] by blast
  have ok: "pipes_ok (demo_client\<lparr>republish_duration := 60\<rparr>)" by (simp add: pipes_ok_def demo_client_def new_client_def)
  have d: "dispatcher_task (demo_client\<lparr>republish_duration := 60\<rparr>) = None" by (simp add: demo_client_def new_client_def)
  have run: "connect demo_lib False 60 10 (demo_client\<lparr>republish_duration := 60\<rparr>) = (Inr (Some 0), start_dispatcher c1)"
    using con d by (simp add: connect_app)
  from connect_connected [OF run ok] d run show ?thesis by auto
qed

lemma connect_fails_aux:
  assumes "connect L outside duration keep_alive c = (Inl e, c')"
  shows "e \<noteq> TimeoutError \<and> (e = CancelledError \<longrightarrow> outside) \<and> dispatcher_task c' = dispatcher_task c \<and>
    dispatcher_task c \<noteq> Some Running \<and> (pipe c' = pipe c \<or> pipe c' = None)"
proof -
  let ?c = "c\<lparr>republish_duration := max duration (2 * keep_alive)\<rparr>"
  from assms obtain e' where con: "mqtt_connect L keep_alive ?c = (Inl e', c')" and d: "dispatcher_task c \<noteq> Some Running"
    and e: "e = (if e' = TimeoutError \<or> e' = CancelledError \<and> \<not> outside then ConnectionError else e')"
    by (auto simp: connect_app split: prod.splits sum.splits if_splits)
  have "life c' = life ?c" using leaves_run [OF life_mqtt_connect con] .
  then have "dispatcher_task c' = dispatcher_task c" by (simp add: life_def)
  with failed_connect_aux [OF con] e d show ?thesis by auto
qed

text \<open>
  how \<open>connect\<close> fails. No timeout gets out of it, and a cancellation only if the caller was
  cancelled; the dispatcher is not started, and the client keeps the pipe it had or has none.
\<close>

theorem connect_fails:
  assumes "connect L outside duration keep_alive c = (Inl e, c')"
  shows "e \<noteq> TimeoutError \<and> (e = CancelledError \<longrightarrow> outside) \<and> dispatcher_task c' = dispatcher_task c \<and>
    dispatcher_task c \<noteq> Some Running \<and> (pipe c' = pipe c \<or> pipe c' = None)"
  using assms by (rule connect_fails_aux)

theorem connect_fails_witness:
  "\<exists>c'. connect (demo_lib\<lparr>recv_n := (\<lambda>_ _. Inl CancelledError)\<rparr>) False 60 10 demo_client = (Inl ConnectionError, c') \<and>
     dispatcher_task c' = None"
proof -
  let ?L = "demo_lib\<lparr>recv_n := (\<lambda>_ _. Inl CancelledError)\<rparr>" and ?c = "demo_client\<lparr>republish_duration := 60\<rparr>"
  obtain c1 where o: "open_line ?L 10 ?c = (Inr 0, c1)"
    by (simp add: open_line_def py_simps ensure_client_id_def Let_def tcp_pipe_def send_on_def build_connect_def
        mqtt_enc_str_def struct_pack_def demo_client_def new_client_def)
  then have "mqtt_connect ?L 10 ?c = (Inl CancelledError, c1)"
    by (simp add: mqtt_connect_parts py_simps use_line_def read_connack_def)
  then have run: "connect ?L False 60 10 demo_client = (Inl ConnectionError, c1)"
    by (simp add: connect_app demo_client_def new_client_def)
  from connect_fails [OF run] run show ?thesis by (auto simp: demo_client_def new_client_def)
qed

section \<open>What close establishes\<close>

text \<open>The DISCONNECT on the pipe: sent, or attempted.\<close>

lemma disconnect_app:
  "async_wrap_errors L (send_on L p b) c = (case pipe_send_exn L (length (trace c)) of
     None \<Rightarrow> (Inr (), c\<lparr>trace := trace c @ [Sent p b]\<rparr>)
   | Some e \<Rightarrow> (if swallows L e then Inr () else Inl e, c\<lparr>trace := trace c @ [SendFailed p b e]\<rparr>))"
  by (simp add: async_wrap_errors_def send_on_def py_simps split: option.split)

text \<open>What the cancellation of the dispatcher leaves behind, and \<open>close\<close> after it.\<close>

abbreviation cut :: "lib \<Rightarrow> client \<Rightarrow> bool" where
  "cut L c \<equiv> dispatcher_task c = Some Running \<and> cut_off L (length (trace c))"

definition cancelled :: "lib \<Rightarrow> client \<Rightarrow> client" where
  "cancelled L c = (case pipe c of
     Some p \<Rightarrow> if cut L c then c\<lparr>pipe := None, pipe_closed := (pipe_closed c)(p := True), trace := trace c @ [PipeShut p]\<rparr> else c
   | None \<Rightarrow> c)"

lemma cancel_dispatcher_app: "cancel_dispatcher L c = (Inr (), cancelled L c)"
  by (simp add: cancel_dispatcher_def cancelled_def py_simps pipe_close_def split: option.split)

lemma close_app:
  "close L c = (if is_closed c then (Inr (), c)
    else let d = (cancelled L (c\<lparr>is_closed := True\<rparr>))\<lparr>dispatcher_task := None\<rparr> in
      case pipe d of None \<Rightarrow> (Inr (), d)
      | Some p \<Rightarrow> py_seq (async_wrap_errors L (send_on L p build_disconnect))
            (py_seq (pipe_close L p) (py_modify (\<lambda>c. c\<lparr>pipe := None\<rparr>))) d)"
  by (simp add: close_def py_simps cancel_dispatcher_app Let_def split: option.split)

lemma cancelled_fields [simp]:
  "is_closed (cancelled L c) = is_closed c" "dispatcher_task (cancelled L c) = dispatcher_task c"
  by (simp_all add: cancelled_def split: option.split)

text \<open>
  what \<open>close\<close> establishes. On a client that is closed it does nothing. Otherwise the client
  is closed and has no dispatcher, whatever happens; if the send of the DISCONNECT is wrapped
  (as it is, for every exception the wrapper catches) the pipe is shut, and its last message
  is a DISCONNECT, sent or attempted, unless the dispatcher, cut off in its subscription, has shut
  the pipe before; if \<open>close\<close> returns, the client has no pipe. After that nothing moves any more: a
  second \<open>close\<close>, a reconnect loop and a dispatcher return at once.
\<close>

theorem close_spec:
  assumes "close L c = (r, c')" and "\<And>e. swallows L e"
  shows "if is_closed c then r = Inr () \<and> c' = c
    else is_closed c' \<and> dispatcher_task c' = None \<and> (r = Inr () \<longrightarrow> pipe c' = None) \<and>
      pipe c' \<in> {None, pipe c} \<and> (pipe c = None \<longrightarrow> trace c' = trace c) \<and>
      (\<forall>p. pipe c = Some p \<longrightarrow> pipe_closed c' p \<and>
        (if cut L c then trace c' = trace c @ [PipeShut p]
         else \<exists>x e. trace c' = trace c @ [x, PipeShut p] \<and> x \<in> {Sent p [0xE0, 0], SendFailed p [0xE0, 0] e})) \<and>
      close L c' = (Inr (), c') \<and> reconnect_loop L keep_alive a (Suc n) c' = Some (Inr (), c') \<and>
      dispatcher L duration interval keep_alive ignore_acked (Suc n) c' = Some (Inr (), c'\<lparr>ticks := ticks c' + 1\<rparr>)"
proof (cases "is_closed c")
  case True
  with assms(1) show ?thesis by (simp add: close_def py_simps)
next
  case False
  have closed: "close L d = (Inr (), d)" "reconnect_loop L keep_alive a (Suc n) d = Some (Inr (), d)"
    "dispatcher L duration interval keep_alive ignore_acked (Suc n) d = Some (Inr (), d\<lparr>ticks := ticks d + 1\<rparr>)"
    if "is_closed d" for d
    using that by (simp_all add: close_app dispatcher_def)
  show ?thesis
  proof (cases "pipe c = None \<or> cut L c")
    case True
    then have "c' = (cancelled L (c\<lparr>is_closed := True\<rparr>))\<lparr>dispatcher_task := None\<rparr>" "r = Inr ()"
      using assms(1) False by (auto simp: close_app cancelled_def Let_def split: option.splits)
    with True False show ?thesis using closed [of c'] by (auto simp: cancelled_def split: option.split)
  next
    case go: False
    then obtain p where p: "pipe c = Some p" by auto
    let ?x = "case pipe_send_exn L (length (trace c)) of None \<Rightarrow> Sent p [0xE0, 0] | Some e \<Rightarrow> SendFailed p [0xE0, 0] e"
    let ?d = "c\<lparr>is_closed := True, dispatcher_task := None\<rparr>"
    let ?e = "?d\<lparr>pipe_closed := (pipe_closed c)(p := True), trace := trace c @ [?x, PipeShut p]\<rparr>"
    have "(cancelled L (c\<lparr>is_closed := True\<rparr>))\<lparr>dispatcher_task := None\<rparr> = ?d" using go p by (auto simp: cancelled_def)
    then have run: "close L c = py_seq (async_wrap_errors L (send_on L p build_disconnect))
            (py_seq (pipe_close L p) (py_modify (\<lambda>c. c\<lparr>pipe := None\<rparr>))) ?d"
      using False p by (simp add: close_app)
    have "async_wrap_errors L (send_on L p build_disconnect) ?d = (Inr (), ?d\<lparr>trace := trace c @ [?x]\<rparr>)"
      using assms(2) by (simp add: disconnect_app build_disconnect_def split: option.split)
    then have "close L c = (case pipe_close_exn L (Suc (length (trace c))) of
        None \<Rightarrow> (Inr (), ?e\<lparr>pipe := None\<rparr>) | Some e \<Rightarrow> (Inl e, ?e))"
      using run by (simp add: py_simps pipe_close_def split: option.split)
    then have c': "c' = ?e\<lparr>pipe := None\<rparr> \<or> c' = ?e \<and> r \<noteq> Inr ()" using assms(1) by (auto split: option.splits)
    have "\<exists>e. ?x \<in> {Sent p [0xE0, 0], SendFailed p [0xE0, 0] e}" by (auto split: option.split)
    then have x: "\<exists>x e. trace c @ [?x, PipeShut p] = trace c @ [x, PipeShut p] \<and> x \<in> {Sent p [0xE0, 0], SendFailed p [0xE0, 0] e}"
      by blast
    have "is_closed c'" "dispatcher_task c' = None" "pipe_closed c' p" "trace c' = trace c @ [?x, PipeShut p]"
      "r = Inr () \<longrightarrow> pipe c' = None" "pipe c' \<in> {None, pipe c}"
      using c' p by auto
    with x p go False closed [of c'] show ?thesis by auto
  qed
qed

theorem close_spec_witness:
  "\<exists>c'. close demo_lib (demo_client\<lparr>pipe := Some 0\<rparr>) = (Inr (), c') \<and> is_closed c' \<and> pipe c' = None \<and> pipe_closed c' 0 \<and>
     close demo_lib c' = (Inr (), c')"
proof -
  let ?c = "demo_client\<lparr>pipe := Some 0\<rparr>"
  obtain r c' where run: "close demo_lib ?c = (r, c')" by fastforce
  moreover have "r = Inr ()"
    using run by (simp add: close_app cancelled_def py_simps disconnect_app pipe_close_def demo_client_def new_client_def)
  moreover have "\<not> is_closed ?c" by (simp add: demo_client_def new_client_def)
  ultimately show ?thesis using close_spec [OF run] by simp
qed

section \<open>How the dispatcher ends\<close>

lemma reconnect_fuel:
  "reconnect_loop L keep_alive a fuel c = Some rc \<Longrightarrow> reconnect_loop L keep_alive a (fuel + k) c = Some rc"
proof (induction fuel arbitrary: a c)
  case (Suc fuel)
  then show ?case by (auto split: if_splits prod.splits sum.splits)
qed simp

text \<open>
  the dispatcher is its turns. Whatever number of turns it was given, if it ends it ends with
  that outcome for every larger number; it ends normally, or with an exception that is no
  network error.
\<close>

theorem dispatcher_ends:
  assumes "dispatcher L duration interval keep_alive ignore_acked fuel c = Some (r, c')"
  shows "dispatcher L duration interval keep_alive ignore_acked (fuel + k) c = Some (r, c') \<and>
    (\<forall>e. r = Inl e \<longrightarrow> e \<noteq> TimeoutError \<and> e \<noteq> OSError \<and> e \<noteq> ConnectionError)"
proof -
  have "dispatcher_loop L duration interval keep_alive ignore_acked ping (fuel + k) d = Some (r, c') \<and>
    (\<forall>e. r = Inl e \<longrightarrow> \<not> dispatch_exn e)"
    if "dispatcher_loop L duration interval keep_alive ignore_acked ping fuel d = Some (r, c')" for ping d
    using that
  proof (induction fuel arbitrary: ping d)
    case (Suc fuel)
    show ?case
    proof (cases "is_closed d \<or> reconnect_loop L keep_alive 0 fuel d = None")
      case False
      then obtain x d1 where rl: "reconnect_loop L keep_alive 0 fuel d = Some (x, d1)" by auto
      note more = reconnect_fuel [OF rl, of k]
      show ?thesis
        using Suc False rl more by (auto split: if_splits sum.splits prod.splits)
    qed (use Suc.prems in auto)
  qed simp
  from this [of "clock L (ticks c)" "c\<lparr>ticks := ticks c + 1\<rparr>"] assms show ?thesis
    by (auto simp: dispatcher_def Let_def dispatch_exn_def)
qed

theorem dispatcher_ends_witness:
  "dispatcher demo_lib 60 2 10 False (1 + 5) (demo_client\<lparr>is_closed := True\<rparr>) =
     Some (Inr (), demo_client\<lparr>is_closed := True, ticks := 1\<rparr>)"
  using dispatcher_ends [of demo_lib 60 2 10 False 1 "demo_client\<lparr>is_closed := True\<rparr>" "Inr ()" _ 5]
  by (simp add: dispatcher_def demo_client_def new_client_def)

end
