(* ===== verification/Session.thy ===== *)
theory Session
  imports Client_Life
begin

text \<open>
  The client as a whole: whatever sequence of operations, packets, reconnects and turns of the
  dispatcher it goes through, what stays true. A property is shown for the single operations
  once; the locale carries it to every run.
\<close>

section \<open>Properties that connecting keeps\<close>

locale connecting = receiving +
  assumes id_ok: "P c \<Longrightarrow> P (c\<lparr>client_id := y1\<rparr>)" and draw_ok: "P c \<Longrightarrow> P (c\<lparr>draws := y2\<rparr>)"
    and next_ok: "P c \<Longrightarrow> P (c\<lparr>next_pipe := y3\<rparr>)" and log_ok: "P c \<Longrightarrow> P (c\<lparr>trace := y4\<rparr>)"
    and pipe_ok: "P c \<Longrightarrow> P (c\<lparr>pipe := y5\<rparr>)" and shut_ok: "P c \<Longrightarrow> P (c\<lparr>pipe_closed := y6\<rparr>)"
begin

lemma shutting: "keeps P (pipe_close L p)"
  by (rule keepsI) (simp add: pipe_close_def shut_ok log_ok)

lemma mqtt_connecting: "keeps P (mqtt_connect L keep_alive)"
proof -
  have "keeps P (ensure_client_id L)" "keeps P (tcp_pipe L)"
    by (rule keepsI, simp add: ensure_client_id_def tcp_pipe_def Let_def id_ok draw_ok next_ok log_ok
        split: option.split list.split sum.split)+
  moreover have "keeps P (read_connack L p)" for p
    unfolding read_connack_def by (cases "recv_n L p 4") (auto intro!: valid_rules shutting)
  moreover have "keeps P (py_modify (\<lambda>c. c\<lparr>pipe := x\<rparr>))" for x by (rule keeps_modify) (rule pipe_ok)
  ultimately show ?thesis
    unfolding mqtt_connect_def mqtt_connect_with_def
    by (intro valid_rules shutting subscribing subscribe_ok send_ok) (simp_all add: pipe_ok)
qed

end

section \<open>Runs\<close>

text \<open>
  One step of a client: an operation the application or the router calls, a chunk that arrives,
  a turn of the dispatcher or of its reconnect loop, or the end of the dispatcher by an exception.
\<close>

inductive client_step :: "lib \<Rightarrow> client \<Rightarrow> client \<Rightarrow> bool" for L where
  Handler: "client_step L c (add_msg_handler h c)"
| Queue: "queue_msg L msg dest qid t seq c = (r, c') \<Longrightarrow> client_step L c c'"
| QueueAsync: "queue_msg_async L msg dest qid t seq c = (r, c') \<Longrightarrow> client_step L c c'"
| Probe: "send_probe L dest qid c = (r, c') \<Longrightarrow> client_step L c c'"
| Dequeue: "dequeue_msg qid seq t c = (r, c') \<Longrightarrow> client_step L c c'"
| Receive: "mqtt_packet_reader L chunk c = (r, c') \<Longrightarrow> client_step L c c'"
| Connect: "connect L outside duration keep_alive c = (r, c') \<Longrightarrow> client_step L c c'"
| Reconnect: "reconnect_once L keep_alive a c = (r, c') \<Longrightarrow> client_step L c c'"
| Dispatch: "dispatch_turn L duration interval keep_alive ignore_acked last_ping c = (r, c') \<Longrightarrow> client_step L c c'"
| Ended: "client_step L c (dispatcher_ended c)"
| Close: "close L c = (r, c') \<Longrightarrow> client_step L c c'"

text \<open>The runs of a client from its construction.\<close>

inductive reachable :: "lib \<Rightarrow> client \<Rightarrow> client \<Rightarrow> bool" for L where
  Start: "reachable L c c"
| Step: "reachable L c c' \<Longrightarrow> client_step L c' c'' \<Longrightarrow> reachable L c c''"

text \<open>
  What the sending of queued messages keeps, what a whole turn of the dispatcher does (it may
  prune the tables of message ids), what the other operations do, and all of them.
\<close>

locale transmitting =
  fixes P :: "client \<Rightarrow> bool" and L :: lib
  assumes republish_ok: "keeps P (republish_entry L k i now interval d ignore_acked)"
    and transmit_ok: "keeps P (send_on L p x)" and read_clock_ok: "keeps P (get_time L)"
begin

lemma wrapped: "keeps P m \<Longrightarrow> keeps P (async_wrap_errors L m)"
  unfolding async_wrap_errors_def by (intro valid_rules)

lemma safe_send: "keeps P (safe_pipe_send L b)"
proof (rule keepsI)
  fix c assume "P c"
  then show "P (snd (safe_pipe_send L b c))"
    using keeps_snd [OF transmit_ok, of c "the (pipe c)" b]
    by (auto simp: safe_pipe_send_app send_on_def split: option.splits)
qed

lemma walking: "(\<And>k i. keeps P (visit k i)) \<Longrightarrow> keeps P (walk_entries visit)"
proof -
  assume v: "\<And>k i. keeps P (visit k i)"
  have g: "keeps P (get_queue t qid)" for t qid by (rule keepsI) (simp add: get_queue_def split: option.split)
  have s: "keeps P (walk_seqs_by_key visit k is)" for k "is" by (induction "is") (auto intro!: valid_rules v)
  have q: "keeps P (walk_queues_by_key visit t qids)" for t qids by (induction qids) (auto intro!: valid_rules s g)
  have "keeps P (walk_types_by_key visit ts)" for ts by (induction ts) (auto intro!: valid_rules q)
  then show ?thesis unfolding walk_entries_def by (intro valid_rules)
qed

end

locale dispatching = transmitting +
  assumes prune_ok: "P c \<Longrightarrow> P (prune_msg_ids now c)"
begin

lemma turning: "keeps P (dispatch_turn L d interval keep_alive ignore_acked last_ping)"
proof -
  have "keeps P (py_modify (prune_msg_ids now))" for now by (rule keeps_modify) (rule prune_ok)
  with read_clock_ok have "keeps P (keep_alive_ping L last_ping keep_alive now)" for now
    unfolding keep_alive_ping_def by (auto intro!: valid_rules safe_send prune_ok split: prod.split option.split)
  with read_clock_ok show ?thesis
    unfolding dispatch_turn_alt by (intro valid_rules walking republish_ok)
qed

end

locale living = transmitting +
  assumes read_ok: "keeps P (mqtt_packet_reader L chunk)"
    and mqtt_connect_ok: "keeps P (mqtt_connect L keep_alive)"
    and reset_ok: "P c \<Longrightarrow> P (reset_session_state c)"
    and queue_ok: "keeps P (queue_msg L msg dest qid t seq)" and queue_async_ok: "keeps P (queue_msg_async L msg dest qid t seq)"
    and probe_ok: "keeps P (send_probe L dest qid)" and dequeue_ok: "keeps P (dequeue_msg q seq t)"
    and close_pipe_ok: "P c \<Longrightarrow> pipe c = Some p \<Longrightarrow> P (snd (pipe_close L p c))"
    and drop_ok: "P c \<Longrightarrow> P (c\<lparr>pipe := None\<rparr>)" and draw_ok: "P c \<Longrightarrow> P (c\<lparr>draws := z2\<rparr>)"
    and closed_ok: "P c \<Longrightarrow> P (c\<lparr>is_closed := z3\<rparr>)" and task_ok: "P c \<Longrightarrow> P (c\<lparr>dispatcher_task := z4\<rparr>)"
    and duration_ok: "P c \<Longrightarrow> P (c\<lparr>republish_duration := z5\<rparr>)" and failed_ok: "P c \<Longrightarrow> P (c\<lparr>last_connect := z6\<rparr>)"
    and handlers_ok: "P c \<Longrightarrow> P (add_msg_handler h c)"
begin

lemma reconnecting: "keeps P (reconnect_once L keep_alive a)"
proof -
  have "keeps P (close_old L)"
    by (rule keepsI) (auto simp: close_old_def py_simps close_pipe_ok split: option.split)
  moreover have "keeps P (uniform_draw L x y)" for x y by (rule keepsI) (simp add: uniform_draw_def draw_ok)
  moreover have "keeps P (py_modify reset_session_state)" by (rule keeps_modify) (rule reset_ok)
  ultimately show ?thesis
    unfolding reconnect_once_def Let_def by (intro valid_rules mqtt_connect_ok reset_ok) simp_all
qed

lemma connecting_client: "keeps P (connect L outside d keep_alive)"
proof (rule keepsI)
  fix c assume "P c"
  then have "P (c\<lparr>republish_duration := max d (2 * keep_alive)\<rparr>)" by (rule duration_ok)
  from keeps_snd [OF mqtt_connect_ok this, of keep_alive] \<open>P c\<close>
  show "P (snd (connect L outside d keep_alive c))"
    by (auto simp: connect_app start_dispatcher_def task_ok split: prod.split sum.split)
qed

lemma closing: "keeps P (close L)"
proof (rule keepsI)
  fix c assume P: "P c"
  let ?b = "c\<lparr>is_closed := True\<rparr>"
  let ?d = "(cancelled L ?b)\<lparr>dispatcher_task := None\<rparr>"
  have Pb: "P ?b" using closed_ok [OF P, of True] by simp
  have "P (cancelled L ?b)"
  proof (cases "pipe c")
    case (Some p)
    then have "P (snd (pipe_close L p ?b))" using close_pipe_ok [OF Pb] by simp
    from drop_ok [OF this] have "P ((snd (pipe_close L p ?b))\<lparr>pipe := None\<rparr>)" .
    moreover have "cancelled L ?b = (if cut L c then (snd (pipe_close L p ?b))\<lparr>pipe := None\<rparr> else ?b)"
      using Some by (simp add: cancelled_def pipe_close_def)
    ultimately show ?thesis using Pb by (simp split: if_splits)
  qed (use Pb in \<open>simp add: cancelled_def\<close>)
  then have Pd: "P ?d" by (rule task_ok)
  show "P (snd (close L c))"
  proof (cases "is_closed c \<or> pipe ?d = None")
    case True
    with P Pd show ?thesis by (auto simp: close_app Let_def)
  next
    case False
    then obtain p where p: "pipe ?d = Some p" by auto
    let ?m = "async_wrap_errors L (send_on L p build_disconnect)"
    have run: "close L c = py_seq ?m (py_seq (pipe_close L p) (py_modify (\<lambda>c. c\<lparr>pipe := None\<rparr>))) ?d"
      unfolding close_app Let_def using False p by simp
    have P1: "P (snd (?m ?d))" by (rule keeps_snd [OF wrapped [OF transmit_ok] Pd])
    moreover have "pipe (snd (?m ?d)) = Some p" using p by (simp add: disconnect_app split: option.split)
    ultimately have "P (snd (pipe_close L p (snd (?m ?d))))" by (rule close_pipe_ok)
    with P1 run show ?thesis by (auto simp: py_simps drop_ok split: prod.splits sum.splits)
  qed
qed

lemma other_step: "client_step L c c' \<Longrightarrow> P c \<Longrightarrow> P c' \<or>
  (\<exists>d interval keep_alive ignore_acked last_ping r. dispatch_turn L d interval keep_alive ignore_acked last_ping c = (r, c'))"
proof (induction rule: client_step.induct)
  case (Handler c h)
  then show ?case by (simp add: handlers_ok)
next
  case (Dispatch duration interval keep_alive ignore_acked last_ping c r c')
  then show ?case by blast
next
  case (Ended c)
  then show ?case by (simp add: dispatcher_ended_def task_ok)
next
  case (Close c r c')
  with keeps_snd [OF closing] show ?case by (metis snd_conv)
qed (use keeps_snd [OF queue_ok] keeps_snd [OF queue_async_ok] keeps_snd [OF probe_ok] keeps_snd [OF dequeue_ok]
    keeps_snd [OF read_ok] keeps_snd [OF connecting_client] keeps_snd [OF reconnecting]
    in \<open>metis snd_conv\<close>)+

end

locale session = living + dispatching
begin

theorem every_step: "client_step L c c' \<Longrightarrow> P c \<Longrightarrow> P c'"
  using other_step [of c c'] keeps_snd [OF turning] by (metis snd_conv)

theorem every_run: "reachable L c c' \<Longrightarrow> P c \<Longrightarrow> P c'"
  by (induction rule: reachable.induct) (auto dest: every_step)

end

section \<open>The invariant of the client\<close>

text \<open>An entry may be replaced by one with the same number and the same future.\<close>

lemma put_again_inv:
  assumes inv: "client_inv c" and old: "find_meta c k i = Some m" and new: "m_app_ack m' = m_app_ack m" "m_seq_no m' = m_seq_no m"
  shows "client_inv (queue_put k i m' c)"
proof -
  from old obtain q where q: "map_of (msg_queues c (fst k)) (snd k) = Some q" "map_of q i = Some m"
    by (auto simp: find_meta_alt split: option.splits)
  then have c': "queue_put k i m' c = set_queue (fst k) (snd k) (AList.update i m' q) c"
    by (simp add: queue_put_def put_meta_def)
  have put: "find_meta (queue_put k i m' c) k' j = (if k' = k \<and> j = i then Some m' else find_meta c k' j)" for k' j
    by (rule find_meta_put [OF found_queue [OF old]])
  have own: "owned (queue_put k i m' c) = owned c"
  proof
    fix w show "owned (queue_put k i m' c) w = owned c w"
      using old new(1) by (cases w) (simp_all add: owned.simps put, simp add: c')
  qed
  have "distinct (map fst (AList.update i m' q))" using inv q unfolding inv_defs by (simp add: distinct_update)
  then have "queues_ok (queue_put k i m' c)" using inv by (simp add: c' queues_ok_set client_inv_def)
  moreover have "entries_ok (queue_put k i m' c)"
    using inv old new(2) unfolding client_inv_def entries_ok_def put by auto
  moreover have "pids_ok (queue_put k i m' c)" "owners_ok (queue_put k i m' c)"
    using inv own by (simp_all add: client_inv_def c' pids_ok_def, simp add: owners_ok_def)
  ultimately show ?thesis by (simp add: client_inv_def)
qed

lemma core_fields [simp]:
  "client_inv (c\<lparr>client_id := x1\<rparr>) = client_inv c" "client_inv (c\<lparr>draws := x2\<rparr>) = client_inv c"
  "client_inv (c\<lparr>next_pipe := x3\<rparr>) = client_inv c" "client_inv (c\<lparr>trace := x4\<rparr>) = client_inv c"
  "client_inv (c\<lparr>pipe := x5\<rparr>) = client_inv c" "client_inv (c\<lparr>pipe_closed := x6\<rparr>) = client_inv c"
  "client_inv (c\<lparr>ticks := x7\<rparr>) = client_inv c" "client_inv (c\<lparr>is_closed := x8\<rparr>) = client_inv c"
  "client_inv (c\<lparr>dispatcher_task := x9\<rparr>) = client_inv c" "client_inv (c\<lparr>republish_duration := x10\<rparr>) = client_inv c"
  "client_inv (c\<lparr>last_connect := x11\<rparr>) = client_inv c" "client_inv (c\<lparr>msg_handlers := x12\<rparr>) = client_inv c"
  "client_inv (c\<lparr>buf := x13\<rparr>) = client_inv c" "client_inv (c\<lparr>futs := fut_settle i v (futs c)\<rparr>) = client_inv c"
  "client_inv (c\<lparr>last_send := x14\<rparr>) = client_inv c" "client_inv (c\<lparr>recv_msg_ids := x15\<rparr>) = client_inv c"
  "client_inv (c\<lparr>sent_msg_ids := x16\<rparr>) = client_inv c"
  by (rule client_inv_core, simp add: core_def)+

lemma attempt_inv: "keeps client_inv (attempt L m)"
proof -
  have "keeps client_inv (safe_pipe_send L b)" for b
    by (rule keepsI) (simp add: safe_pipe_send_app split: option.split)
  then show ?thesis unfolding attempt_def by (intro valid_rules publish_inv)
qed

lemma republish_inv: "keeps client_inv (republish_entry L k i now interval d ignore_acked)"
proof (rule keepsI)
  fix c assume inv: "client_inv c"
  show "client_inv (snd (republish_entry L k i now interval d ignore_acked c))"
  proof (cases "find_meta c k i")
    case None
    then show ?thesis using inv by (simp add: republish_entry_alt py_simps)
  next
    case (Some m)
    have "client_inv (queue_put k i (attempted m now) (c\<lparr>draws := draws c + 1\<rparr>))"
      by (rule put_again_inv [where m = m]) (use inv Some in simp_all)
    from keeps_snd [OF attempt_inv this] inv show ?thesis by (simp add: republish_app [OF Some])
  qed
qed

interpretation linked: connecting client_inv L for L
proof
  show "keeps client_inv (handle_mqtt_packet L p)" for p by (rule keeps_handle)
  show "keeps client_inv (subscribe L topic)" for topic by (rule subscribe_inv)
  show "keeps client_inv (send_on L i x)" for i x by (rule keepsI) (simp add: send_on_def split: option.split)
qed simp_all

interpretation inv: session client_inv L for L
proof
  show "keeps client_inv (get_time L)" by (rule keepsI) (simp add: get_time_def)
  show "keeps client_inv (mqtt_packet_reader L x)" for x by (rule linked.reading)
  show "keeps client_inv (mqtt_connect L keep_alive)" for keep_alive by (rule linked.mqtt_connecting)
  show "keeps client_inv (republish_entry L k i now interval d ignore_acked)" for k i now interval d ignore_acked
    by (rule republish_inv)
  show "keeps client_inv (queue_msg L msg dest qid t seq)" "keeps client_inv (queue_msg_async L msg dest qid t seq)"
    for msg dest qid t seq by (rule queue_msg_inv, rule queue_msg_async_inv)
  show "keeps client_inv (send_probe L dest qid)" for dest qid by (rule send_probe_inv)
  show "keeps client_inv (dequeue_msg q seq t)" for q seq t by (rule dequeue_msg_inv)
  show "keeps client_inv (send_on L p x)" for p x by (rule linked.send_ok)
  show "client_inv (snd (pipe_close L p c))" if "client_inv c" for p c using that by (simp add: pipe_close_def)
  show "client_inv (reset_session_state c)" "client_inv (prune_msg_ids now c)" if "client_inv c" for c now
    using that by (rule reset_inv, rule prune_inv)
qed (simp_all add: add_msg_handler_def)

section \<open>Settled futures\<close>

text \<open>The future \<open>i\<close> is done with \<open>w\<close> (a pending one is asked nothing of).\<close>

definition settled_with :: "fut \<Rightarrow> nat \<Rightarrow> client \<Rightarrow> bool" where
  "settled_with w i c \<longleftrightarrow> w = Pending \<or> fut_peek (futs c) i = Some w"

lemma settled_fields: "futs c' = futs c \<Longrightarrow> settled_with w i c \<Longrightarrow> settled_with w i c'"
  by (simp add: settled_with_def)

interpretation settled: settling "settled_with w i" for w i
proof
  fix c v j assume "settled_with w i c" and "v \<noteq> Pending"
  then show "settled_with w i (c\<lparr>futs := fut_settle j v (futs c)\<rparr>)"
    by (auto simp: settled_with_def intro: futures.settle_stable)
next
  fix c assume "settled_with w i c"
  then show "settled_with w i (c\<lparr>futs := futs c @ [Pending]\<rparr>)"
    using futures.new_stable [of "futs c" i w "length (futs c)" "futs c @ [Pending]"]
    by (auto simp: settled_with_def fut_new_def)
next
  show "keeps (settled_with w i) (deliver L msg src qid)" for L msg src qid
    by (rule keeps_deliver) (simp_all add: settled_with_def)
qed (simp_all add: settled_with_def)

context settling
begin

lemma republishing: "keeps P (republish_entry L k i now interval d ignore_acked)"
proof -
  have "keeps P (safe_pipe_send L b)" for b
    by (rule keepsI) (simp add: safe_pipe_send_app log_ok split: option.split)
  then show ?thesis
    unfolding republish_entry_alt Let_def by (intro rules publishing growing_entry)
qed

lemma dequeuing: "keeps P (dequeue_msg q seq t)"
  by (rule keepsI) (auto simp: dequeue_msg_def growing_queues set_result_def settle_ok split: option.split)

end

interpretation settled_link: connecting "settled_with w i" L for w i L
  by unfold_locales (simp_all add: settled_with_def)

interpretation settled_run: session "settled_with w i" L for w i L
proof
  show "keeps (settled_with w i) (get_time L)" by (rule settled.steps)
  show "keeps (settled_with w i) (mqtt_packet_reader L x)" for x by (rule settled.reading)
  show "keeps (settled_with w i) (mqtt_connect L keep_alive)" for keep_alive by (rule settled_link.mqtt_connecting)
  show "keeps (settled_with w i) (republish_entry L k j now interval d ignore_acked)" for k j now interval d ignore_acked
    by (rule settled.republishing)
  show "keeps (settled_with w i) (queue_msg L msg dest qid t seq)" "keeps (settled_with w i) (queue_msg_async L msg dest qid t seq)"
    "keeps (settled_with w i) (send_probe L dest qid)" for msg dest qid t seq
    by (rule settled.sending settled.probing)+
  show "keeps (settled_with w i) (dequeue_msg q seq t)" for q seq t by (rule settled.dequeuing)
  show "keeps (settled_with w i) (send_on L p x)" for p x by (rule settled.steps)
  show "settled_with w i (reset_session_state c)" if "settled_with w i c" for c
    using that by (rule settled.resetting)
qed (simp_all add: settled_with_def pipe_close_def add_msg_handler_def prune_msg_ids_def Let_def)

section \<open>Pipes\<close>

lemma pipes_kept:
  assumes "leaves conn m"
  shows "keeps pipes_ok m"
  by (rule keepsI) (simp add: pipes_ok_conn [OF leavesD [OF assms]])

lemma conn_dequeue: "leaves conn (dequeue_msg q seq t)"
  by (rule leavesI) (simp add: dequeue_msg_def set_result_def del_queue_def conn_def split: option.split)

interpretation pipes_run: session pipes_ok L for L
proof
  show "keeps pipes_ok (get_time L)" by (rule pipes_kept) (rule leavesI, simp add: get_time_def conn_def)
  show "keeps pipes_ok (mqtt_packet_reader L x)" for x by (rule pipes_kept [OF conn.free_reader])
  show "keeps pipes_ok (republish_entry L k i now interval d ignore_acked)" for k i now interval d ignore_acked
    by (rule pipes_kept [OF conn_republish])
  show "keeps pipes_ok (send_on L p x)" for p x using conn.free_steps by (intro pipes_kept)
  show "keeps pipes_ok (mqtt_connect L keep_alive)" for keep_alive
  proof (rule validI)
    fix c p c' assume ok: "pipes_ok c" and run: "mqtt_connect L keep_alive c = (Inr p, c')"
    then show "pipes_ok c'" using connected_means_subscribed_aux [OF run ok] by blast
  qed (rule failed_connect_pipes_ok)
  show "keeps pipes_ok (queue_msg L msg dest qid t seq)" "keeps pipes_ok (queue_msg_async L msg dest qid t seq)"
    "keeps pipes_ok (send_probe L dest qid)" for msg dest qid t seq
    by (rule pipes_kept, simp add: leaves_def conn.fixed.sending conn.fixed.probing)+
  show "keeps pipes_ok (dequeue_msg q seq t)" for q seq t by (rule pipes_kept [OF conn_dequeue])
  show "pipes_ok (reset_session_state c)" if "pipes_ok c" for c using that pipes_ok_conn [OF reset_conn] by blast
qed (auto simp: pipes_ok_def prune_msg_ids_def Let_def pipe_close_def add_msg_handler_def)

section \<open>What every run keeps\<close>

text \<open>
  C9: the invariant of the client. Whatever it goes through from its construction: queue ids and
  sequence numbers are unique and an entry knows its own number; packet ids in flight are
  distinct, in range and of one kind; no two entries or packet ids share a future; and its pipe
  is one it has opened.
\<close>

theorem reachable_invariant:
  assumes "reachable L (new_client a dest k) c"
  shows "client_inv c \<and> pipes_ok c"
proof -
  have "pipes_ok (new_client a dest k)" by (simp add: pipes_ok_def new_client_def)
  with assms inv.every_run new_client_inv pipes_run.every_run show ?thesis by blast
qed

theorem reachable_invariant_witness:
  "\<exists>c. reachable demo_lib demo_client c \<and> pipe c = Some 0 \<and> client_inv c \<and> pipes_ok c"
proof -
  obtain c1 where con: "mqtt_connect demo_lib 10 (demo_client\<lparr>republish_duration := 60\<rparr>) = (Inr 0, c1)"
    using demo_connect_any [of 60] by blast
  have "pipes_ok (demo_client\<lparr>republish_duration := 60\<rparr>)" by (simp add: pipes_ok_def demo_client_def new_client_def)
  from connected_means_subscribed_aux [OF con this] have p: "pipe (start_dispatcher c1) = Some 0" by simp
  have run: "connect demo_lib False 60 10 demo_client = (Inr (Some 0), start_dispatcher c1)"
    using con by (simp add: connect_app demo_client_def new_client_def)
  then have r: "reachable demo_lib demo_client (start_dispatcher c1)"
    by (blast intro: reachable.intros client_step.Connect)
  with reachable_invariant [of demo_lib 2 "(''broker'', 1883)" _ "start_dispatcher c1"] p show ?thesis
    unfolding demo_client_def by blast
qed

text \<open>
  A result is final. A future that has been resolved or cancelled keeps its result in every
  run: no duplicate acknowledgement, reset or reconnect changes what a caller has seen.
\<close>

theorem settled_forever:
  assumes "reachable L c c'" and "fut_peek (futs c) i = Some w" and "w \<noteq> Pending"
  shows "fut_peek (futs c') i = Some w"
  using settled_run.every_run [OF assms(1), of w i] assms(2,3) by (simp add: settled_with_def)

theorem settled_forever_witness:
  "\<exists>c'. reachable demo_lib (demo_client\<lparr>futs := [Result FTrue]\<rparr>) c' \<and> is_closed c' \<and> fut_peek (futs c') 0 = Some (Result FTrue)"
proof -
  let ?c = "demo_client\<lparr>futs := [Result FTrue]\<rparr>"
  obtain c' where run: "close demo_lib ?c = (Inr (), c')" "is_closed c'"
    by (simp add: close_app cancelled_def Let_def demo_client_def new_client_def)
  then have "reachable demo_lib ?c c'" by (blast intro: reachable.intros client_step.Close)
  with settled_forever [OF this, of 0 "Result FTrue"] run show ?thesis by (auto simp: fut_peek_def)
qed

end
