(* ===== verification/Discovery.thy ===== *)
theory Discovery
  imports Client_Life
begin

text \<open>
  Finding the brokers of a destination (\<open>utils.py\<close>): the rendezvous ranking of the servers of
  an address family, the attempt to connect to one, and the walk that takes the first few that
  answer. Clients live in a pool and are referred to by number, as the code refers to objects.
\<close>

section \<open>Servers and their ranking\<close>

record server =
  sv_af :: int
  sv_host :: string
  sv_port :: int

type_synonym servers = "(int \<times> (string \<times> server) list) list"

text \<open>
  The part of the outside that discovery uses: the platform's numbers of the address families,
  \<open>rendezvous_score\<close> of aionetiface, the families of the network interface, the time allowed
  for a walk, and the order in which the connects of a walk (of a pass and a family, over these
  clients) complete before that time is over.
\<close>

record disc =
  ip4 :: int
  ip6 :: int
  rendezvous_score :: "bytes \<Rightarrow> bytes \<Rightarrow> bytes \<Rightarrow> real"
  supported :: "int list"
  broker_walk_cap :: real
  completions :: "nat \<Rightarrow> int \<Rightarrow> nat list \<Rightarrow> nat list"

text \<open>\<open>bytes([int(af)])\<close>\<close>

definition af_byte :: "int \<Rightarrow> bytes res" where
  "af_byte a = (if 0 \<le> a \<and> a < 256 then Inr [word_of_int a] else Inl (ValueError ''bytes must be in range(0, 256)''))"

definition get_server_score :: "lib \<Rightarrow> disc \<Rightarrow> int \<Rightarrow> string \<Rightarrow> string \<Rightarrow> real res" where
  "get_server_score L D a h pub_key_hex =
     res_bind (af_byte a) (\<lambda>ab.
     res_bind (h_to_b L pub_key_hex) (\<lambda>pk.
     res_bind (to_b L (PyStr h)) (\<lambda>hb.
     Inr (rendezvous_score D ab pk hb))))"

text \<open>The bucket of one family: every server with its score, best first.\<close>

fun score_all :: "lib \<Rightarrow> disc \<Rightarrow> int \<Rightarrow> string \<Rightarrow> (string \<times> server) list \<Rightarrow> (real \<times> server) list res" where
  "score_all L D a pub_key_hex [] = Inr []"
| "score_all L D a pub_key_hex ((h, sv) # hosts) =
     res_bind (get_server_score L D a h pub_key_hex) (\<lambda>score.
     res_bind (score_all L D a pub_key_hex hosts) (\<lambda>rest.
     Inr ((score, sv) # rest)))"

definition rank_bucket :: "lib \<Rightarrow> disc \<Rightarrow> string \<Rightarrow> servers \<Rightarrow> int \<Rightarrow> (real \<times> server) list res" where
  "rank_bucket L D pub_key_hex servers a = (case map_of servers a of
     None \<Rightarrow> Inl KeyError
   | Some hosts \<Rightarrow> res_bind (score_all L D a pub_key_hex hosts) (\<lambda>bucket. Inr (sort_key fst bucket)))"

fun rank_afs ::
  "lib \<Rightarrow> disc \<Rightarrow> string \<Rightarrow> servers \<Rightarrow> int list \<Rightarrow> (int \<times> (real \<times> server) list) list \<Rightarrow> (int \<times> (real \<times> server) list) list res" where
  "rank_afs L D pub_key_hex servers [] af_buckets = Inr af_buckets"
| "rank_afs L D pub_key_hex servers (a # afs) af_buckets =
     res_bind (rank_bucket L D pub_key_hex servers a) (\<lambda>bucket.
     rank_afs L D pub_key_hex servers afs (AList.update a bucket af_buckets))"

definition rendezvous_hash :: "lib \<Rightarrow> disc \<Rightarrow> string \<Rightarrow> servers \<Rightarrow> (int \<times> (real \<times> server) list) list res" where
  "rendezvous_hash L D pub_key_hex servers = rank_afs L D pub_key_hex servers (supported D) []"

text \<open>The interleaving of the buckets, for position \<open>i\<close> of the loop and then for all.\<close>

definition bucket_row :: "(int \<times> 'a list) list \<Rightarrow> nat \<Rightarrow> 'a list" where
  "bucket_row af_buckets i = concat (map (\<lambda>a. let bucket = the (map_of af_buckets a) in
     if i < length bucket then [bucket ! i] else []) (sort (map fst af_buckets)))"

definition interleave_buckets :: "(int \<times> 'a list) list \<Rightarrow> 'a list" where
  "interleave_buckets af_buckets =
     (let max_len = foldr max (map (length \<circ> snd) af_buckets) 0
      in concat (map (bucket_row af_buckets) [0..<max_len]))"

text \<open>An entry of the infrastructure list, and the list normed by family and host.\<close>

record infra =
  infra_af :: int
  fqns :: "string list"
  ip :: string
  infra_port :: int

definition infra_host :: "infra \<Rightarrow> string" where
  "infra_host x = (case sort (fqns x) of h # _ \<Rightarrow> h | [] \<Rightarrow> ip x)"

fun norm_servers :: "infra list \<Rightarrow> (string \<times> server) list \<Rightarrow> (string \<times> server) list" where
  "norm_servers [] table = table"
| "norm_servers (x # xs) table =
     (let h = infra_host x
      in norm_servers xs (AList.update h \<lparr>sv_af = infra_af x, sv_host = h, sv_port = infra_port x\<rparr> table))"

definition get_mqtt_server_list :: "disc \<Rightarrow> infra list \<Rightarrow> infra list \<Rightarrow> servers" where
  "get_mqtt_server_list D v4 v6 = [(ip4 D, norm_servers v4 []), (ip6 D, norm_servers v6 [])]"

section \<open>One client\<close>

text \<open>
  \<open>try_client\<close>: whether the client is or gets connected. \<open>connect\<close> runs under a time limit of 15
  seconds, longer than its own: when it strikes, \<open>connect\<close> is cancelled from outside and
  \<open>wait_for\<close> raises \<open>TimeoutError\<close>; a cancellation by the caller passes through.
\<close>

definition try_client :: "lib \<Rightarrow> (client, bool) py" where
  "try_client L =
     py_bind (py_get dispatcher_task) (\<lambda>t.
     if t \<noteq> None then py_return True
     else
       py_bind (get_time L) (\<lambda>now.
       py_bind (py_get last_connect) (\<lambda>last.
       if (case last of None \<Rightarrow> False | Some t \<Rightarrow> now - t < 1200) then py_return False
       else py_except
         (py_bind
           (py_except (connect L (cancelled_by L \<noteq> Connect_Limit) 60 10)
              (\<lambda>e. e = CancelledError \<and> cancelled_by L = Try_Limit) (py_raise TimeoutError))
           (\<lambda>_. py_return True))
         (\<lambda>e. is_OSError e \<or> e = TimeoutError)
         (py_seq (py_modify (\<lambda>c. c\<lparr>last_connect := Some now\<rparr>)) (py_return False)))))"

section \<open>The pool and the walk\<close>

text \<open>
  The clients of a router, by number. They share one table of received message ids, as
  \<open>Router.ensure_client\<close> assigns it, so an operation on one of them reads and writes that table.
\<close>

record pool =
  members :: "nat \<Rightarrow> client"
  shared_ids :: "(string \<times> real) list"

definition on_client :: "nat \<Rightarrow> (client, 'a) py \<Rightarrow> (pool, 'a) py" where
  "on_client i m = (\<lambda>s. case m ((members s i)\<lparr>recv_msg_ids := shared_ids s\<rparr>) of
     (r, c) \<Rightarrow> (r, s\<lparr>members := (members s)(i := c), shared_ids := recv_msg_ids c\<rparr>))"

record hint =
  h_af :: int
  h_host :: string
  h_port :: int
  h_ts :: int

type_synonym clients_map = "(int \<times> (string \<times> nat) list) list"

text \<open>The table from IANA numbers to the platform's: \<open>{int(IP4): IP4, 10: IP6}\<close>.\<close>

definition norm_af :: "disc \<Rightarrow> int \<Rightarrow> int" where
  "norm_af D a = (if a = 10 then ip6 D else a)"

definition lookup_client :: "clients_map \<Rightarrow> int \<Rightarrow> string \<Rightarrow> nat option" where
  "lookup_client clients_map a h = (case map_of clients_map a of None \<Rightarrow> None | Some hosts \<Rightarrow> map_of hosts h)"

text \<open>The clients found, in order, each once.\<close>

fun add_candidates :: "nat option list \<Rightarrow> nat list \<Rightarrow> nat list" where
  "add_candidates [] candidates = candidates"
| "add_candidates (None # xs) candidates = add_candidates xs candidates"
| "add_candidates (Some i # xs) candidates =
     add_candidates xs (if i \<in> set candidates then candidates else candidates @ [i])"

definition candidate_clients ::
  "disc \<Rightarrow> clients_map \<Rightarrow> hint list \<Rightarrow> int \<Rightarrow> (real \<times> server) list \<Rightarrow> nat list" where
  "candidate_clients D clients_map hints nic_af sorted_servers =
     (let cached = filter (\<lambda>h. norm_af D (h_af h) = nic_af) hints
      in add_candidates
           (map (\<lambda>h. lookup_client clients_map nic_af (h_host h)) cached @
            map (\<lambda>(_, sv). lookup_client clients_map (norm_af D (sv_af sv)) (sv_host sv)) sorted_servers) [])"

fun bit_length :: "nat \<Rightarrow> nat" where
  "bit_length n = (if n = 0 then 0 else Suc (bit_length (n div 2)))"

declare bit_length.simps [simp del]

definition needed_clients :: "nat \<Rightarrow> nat" where
  "needed_clients serv_no = nat (min 3 (max 0 (int (bit_length serv_no) - 1)))"

text \<open>
  The connects that a walk does not wait for: those that are still pending when it ends are
  cancelled, those that completed too late are not looked at. Either way what the attempt does to
  its client is what its environment makes of it, and its outcome is lost.
\<close>

definition abandon :: "(nat \<Rightarrow> lib) \<Rightarrow> nat list \<Rightarrow> (pool, unit) py" where
  "abandon E tasks = py_for tasks (\<lambda>i. on_client i
     (py_except (py_bind (try_client (E i)) (\<lambda>_. py_return ())) (\<lambda>_. True) (py_return ())))"

text \<open>
  The loop \<open>for fut in asyncio.as_completed(tasks)\<close>, over the connects in the order they complete
  in time: the clients found, and the tasks it has not come to.
\<close>

fun collect :: "(nat \<Rightarrow> lib) \<Rightarrow> nat \<Rightarrow> nat list \<Rightarrow> nat list \<Rightarrow> (pool, nat list) py" where
  "collect E needed [] af_found = py_return af_found"
| "collect E needed (i # order) af_found =
     py_bind (py_cleanup (on_client i (try_client (E i))) (abandon E order)) (\<lambda>r.
     if r then
       if length af_found + 1 \<ge> needed then py_seq (abandon E order) (py_return (af_found @ [i]))
       else collect E needed order (af_found @ [i])
     else collect E needed order af_found)"

definition walk_af ::
  "(nat \<Rightarrow> lib) \<Rightarrow> disc \<Rightarrow> nat \<Rightarrow> clients_map \<Rightarrow> hint list \<Rightarrow> int \<times> (real \<times> server) list \<Rightarrow> (pool, nat list) py" where
  "walk_af E D pass clients_map hints bucket =
     (let cs = candidate_clients D clients_map hints (fst bucket) (snd bucket);
          needed = needed_clients (length cs);
          tasks = take 10 cs;
          order = completions D pass (fst bucket) tasks
      in if needed = 0 then py_return []
         else py_finally (collect E needed order []) (abandon E (filter (\<lambda>i. i \<notin> set order) tasks)))"

fun walk_afs ::
  "(nat \<Rightarrow> lib) \<Rightarrow> disc \<Rightarrow> nat \<Rightarrow> clients_map \<Rightarrow> hint list \<Rightarrow> (int \<times> (real \<times> server) list) list \<Rightarrow> (pool, nat list) py" where
  "walk_afs E D pass clients_map hints [] = py_return []"
| "walk_afs E D pass clients_map hints (b # bs) =
     py_bind (walk_af E D pass clients_map hints b) (\<lambda>af_found.
     py_bind (walk_afs E D pass clients_map hints bs) (\<lambda>rest.
     py_return (af_found @ rest)))"

text \<open>
  The walks of the families run concurrently over different clients; here they run one after
  another. A connect cut off when its walk ends is not followed further. When the first walks
  find nobody and were given less than four seconds, they are tried once more.
\<close>

definition retry_walk ::
  "(nat \<Rightarrow> lib) \<Rightarrow> disc \<Rightarrow> clients_map \<Rightarrow> hint list \<Rightarrow> (int \<times> (real \<times> server) list) list \<Rightarrow> nat list \<Rightarrow> (pool, nat list) py" where
  "retry_walk E D clients_map hints af_buckets found_clients =
     (if found_clients = [] \<and> broker_walk_cap D < 4
      then py_bind (walk_afs E D 1 clients_map hints af_buckets) (\<lambda>af_found. py_return (found_clients @ af_found))
      else py_return found_clients)"

definition get_dest_clients ::
  "lib \<Rightarrow> (nat \<Rightarrow> lib) \<Rightarrow> disc \<Rightarrow> string \<Rightarrow> servers \<Rightarrow> clients_map \<Rightarrow> hint list \<Rightarrow> (pool, nat list) py" where
  "get_dest_clients L E D dest_pub_hex servers clients_map cached_hints =
     py_bind (py_lift (rendezvous_hash L D dest_pub_hex servers)) (\<lambda>af_buckets.
     py_bind (walk_afs E D 0 clients_map cached_hints af_buckets) (\<lambda>found_clients.
     retry_walk E D clients_map cached_hints af_buckets found_clients))"

section \<open>The ranking\<close>

lemma score_all_Inr:
  "score_all L D a pk hosts = Inr b \<Longrightarrow>
   map snd b = map snd hosts \<and> map Inr (map fst b) = map (\<lambda>(h, _). get_server_score L D a h pk) hosts"
  by (induction L D a pk hosts arbitrary: b rule: score_all.induct) (auto simp: res_bind_Inr_conv)

text \<open>
  the ranking of a family. It lists every server of the family once, by ascending score, and
  the score beside a server is the one of its host for this key.
\<close>

theorem rank_bucket_spec:
  assumes "rank_bucket L D pk servers a = Inr bucket"
  shows "sorted (map fst bucket) \<and>
    (\<exists>hosts. map_of servers a = Some hosts \<and> mset (map snd bucket) = mset (map snd hosts) \<and>
      (\<forall>(score, sv) \<in> set bucket. \<exists>h. (h, sv) \<in> set hosts \<and> get_server_score L D a h pk = Inr score))"
proof -
  from assms obtain hosts b where h: "map_of servers a = Some hosts" "score_all L D a pk hosts = Inr b"
    "bucket = sort_key fst b"
    by (auto simp: rank_bucket_def res_bind_Inr_conv split: option.splits)
  note s = score_all_Inr [OF h(2)]
  then have len: "length b = length hosts" by (metis length_map)
  have "\<exists>h. (h, sv) \<in> set hosts \<and> get_server_score L D a h pk = Inr score" if "(score, sv) \<in> set b" for score sv
  proof -
    from that obtain i where i: "i < length b" "b ! i = (score, sv)" by (auto simp: in_set_conv_nth)
    have "map snd b ! i = map snd hosts ! i" and
      "map Inr (map fst b) ! i = map (\<lambda>(h, _). get_server_score L D a h pk) hosts ! i" using s by simp_all
    with i len have "snd (hosts ! i) = sv" "get_server_score L D a (fst (hosts ! i)) pk = Inr score"
      by (simp_all add: case_prod_beta)
    then show ?thesis using i len by (metis nth_mem prod.collapse)
  qed
  moreover have "mset (map snd bucket) = mset (map snd b)" using h(3) by (simp only: mset_map mset_sort)
  then have "mset (map snd bucket) = mset (map snd hosts)" using s by simp
  ultimately show ?thesis using h by (auto simp: sorted_sort_key)
qed

definition demo_disc :: disc where
  "demo_disc = \<lparr>ip4 = 2, ip6 = 10, rendezvous_score = (\<lambda>a k h. real (length h)), supported = [2, 10],
     broker_walk_cap = 2, completions = (\<lambda>_ _ cs. cs)\<rparr>"

lemma demo_disc_sel [simp]:
  "ip4 demo_disc = 2" "ip6 demo_disc = 10" "rendezvous_score demo_disc a k h = real (length h)"
  "supported demo_disc = [2, 10]" "broker_walk_cap demo_disc = 2" "completions demo_disc pass f cs = cs"
  by (simp_all add: demo_disc_def)

definition demo_servers :: servers where
  "demo_servers = [(2, [(''bbb'', \<lparr>sv_af = 2, sv_host = ''bbb'', sv_port = 1883\<rparr>), (''a'', \<lparr>sv_af = 2, sv_host = ''a'', sv_port = 1883\<rparr>)]),
     (10, [(''cc'', \<lparr>sv_af = 10, sv_host = ''cc'', sv_port = 1883\<rparr>)])]"

lemma demo_rank: "rank_bucket demo_lib demo_disc ''00'' demo_servers 2 =
    Inr [(1, \<lparr>sv_af = 2, sv_host = ''a'', sv_port = 1883\<rparr>), (3, \<lparr>sv_af = 2, sv_host = ''bbb'', sv_port = 1883\<rparr>)]"
proof -
  have "hex_to_bytes ''00'' = Inr [0]" by (simp add: Let_def)
  then show ?thesis
    by (simp add: rank_bucket_def demo_servers_def get_server_score_def af_byte_def)
qed

theorem rank_bucket_spec_witness:
  "\<exists>b. rank_bucket demo_lib demo_disc ''00'' demo_servers 2 = Inr b \<and> sorted (map fst b) \<and> length b = 2"
  using rank_bucket_spec [OF demo_rank] demo_rank by (intro exI [of _ "[(1, _), (3, _)]"]) auto

lemma score_all_total:
  "score_all L D a pk hosts = Inr b \<longleftrightarrow>
   (\<forall>x \<in> set hosts. \<exists>s. get_server_score L D a (fst x) pk = Inr s) \<and>
   b = map (\<lambda>x. (projr (get_server_score L D a (fst x) pk), snd x)) hosts"
  by (induction L D a pk hosts arbitrary: b rule: score_all.induct) (fastforce simp: res_bind_Inr_conv)+

lemma score_only: "rendezvous_score D' = rendezvous_score D \<Longrightarrow> get_server_score L D' a h pk = get_server_score L D a h pk"
  by (simp add: get_server_score_def)

text \<open>
  C32: convergence. Two peers whose server tables list the same hosts of a family, in whatever
  order, compute the same ranking for a key, if no two of these hosts have the same score;
  what else their tables hold and which other families their networks support does not matter.
\<close>

theorem rankings_converge:
  assumes "rank_bucket L D pk servers a = Inr bucket"
    and "map_of servers a = Some hosts" and "map_of servers' a = Some hosts'" and "mset hosts' = mset hosts"
    and "distinct (map fst hosts)" and "inj_on (\<lambda>h. get_server_score L D a h pk) (fst ` set hosts)"
    and "rendezvous_score D' = rendezvous_score D"
  shows "rank_bucket L D' pk servers' a = Inr bucket"
proof -
  define g where "g = (\<lambda>x. (projr (get_server_score L D a (fst x) pk), snd x :: server))"
  have all: "\<forall>x \<in> set hosts. \<exists>s. get_server_score L D a (fst x) pk = Inr s" and b: "bucket = sort_key fst (map g hosts)"
    using assms(1,2) by (auto simp: rank_bucket_def res_bind_Inr_conv score_all_total g_def)
  have same: "set hosts' = set hosts" using assms(4) by (rule mset_eq_setD)
  then have "score_all L D' a pk hosts' = Inr (map g hosts')"
    using all by (simp add: score_all_total score_only [OF assms(7)] g_def)
  then have "rank_bucket L D' pk servers' a = Inr (sort_key fst (map g hosts'))"
    using assms(3) by (simp add: rank_bucket_def)
  moreover have "inj_on fst (set (map g hosts))"
  proof (rule inj_onI)
    fix u v assume "u \<in> set (map g hosts)" "v \<in> set (map g hosts)" and eq: "fst u = fst v"
    then obtain x y where x: "x \<in> set hosts" "u = g x" and y: "y \<in> set hosts" "v = g y" by auto
    moreover from x y all obtain p q where "get_server_score L D a (fst x) pk = Inr p" "get_server_score L D a (fst y) pk = Inr q"
      by blast
    ultimately have "get_server_score L D a (fst x) pk = get_server_score L D a (fst y) pk"
      using eq by (simp add: g_def)
    with assms(6) x(1) y(1) have "fst x = fst y" by (auto dest: inj_onD)
    with assms(5) x y show "u = v" by (auto simp: distinct_map dest: inj_onD)
  qed
  moreover have "mset (map g hosts) = mset (map g hosts')" using assms(4) by simp
  ultimately have "sort_key fst (map g hosts) = sort_key fst (map g hosts')"
    using sort_key_inj_key_eq [of "map g hosts" "sort_key fst (map g hosts')" fst] by simp
  then show ?thesis using b \<open>rank_bucket L D' pk servers' a = _\<close> by simp
qed

theorem rankings_converge_witness:
  "rank_bucket demo_lib (demo_disc\<lparr>supported := [2]\<rparr>) ''00''
     [(2, [(''a'', \<lparr>sv_af = 2, sv_host = ''a'', sv_port = 1883\<rparr>), (''bbb'', \<lparr>sv_af = 2, sv_host = ''bbb'', sv_port = 1883\<rparr>)])] 2 =
   Inr [(1, \<lparr>sv_af = 2, sv_host = ''a'', sv_port = 1883\<rparr>), (3, \<lparr>sv_af = 2, sv_host = ''bbb'', sv_port = 1883\<rparr>)]"
proof -
  have hex: "hex_to_bytes ''00'' = Inr [0]" by (simp add: Let_def)
  have swap: "mset [x, y] = mset [y, x]" for x y :: "string \<times> server" by simp
  show ?thesis
    by (rule rankings_converge [OF demo_rank, where hosts = "[(''bbb'', \<lparr>sv_af = 2, sv_host = ''bbb'', sv_port = 1883\<rparr>),
        (''a'', \<lparr>sv_af = 2, sv_host = ''a'', sv_port = 1883\<rparr>)]"], rule_tac [3] swap)
      (use hex in \<open>simp_all add: demo_servers_def inj_on_def get_server_score_def af_byte_def\<close>)
qed

section \<open>The interleaving\<close>

lemma foldr_max_ge: "x \<in> set xs \<Longrightarrow> x \<le> foldr max xs (0::nat)"
  by (induction xs) (auto simp: le_max_iff_disj)

lemma mset_nth_sum: "length xs \<le> m \<Longrightarrow> (\<Sum>i<m. if i < length xs then {#xs ! i#} else {#}) = mset xs"
proof (induction m arbitrary: xs)
  case (Suc m)
  show ?case
  proof (cases "length xs = Suc m")
    case True
    then obtain ys y where xs: "xs = ys @ [y]" "length ys = m" by (metis length_Suc_conv_rev)
    have "(\<Sum>i<m. if i < length xs then {#xs ! i#} else {#}) = (\<Sum>i<m. if i < length ys then {#ys ! i#} else {#})"
      by (rule sum.cong) (auto simp: xs nth_append)
    moreover have "xs ! m = y" using xs by (metis nth_append_length)
    ultimately show ?thesis using Suc.IH [of ys] xs True by simp
  qed (use Suc in simp)
qed simp

lemma mset_concat_upt: "mset (concat (map f [0..<m])) = (\<Sum>i<m. mset (f i))"
  by (induction m) (auto simp: ac_simps)

lemma mset_concat_distinct: "distinct ks \<Longrightarrow> mset (concat (map f ks)) = (\<Sum>a \<in> set ks. mset (f a))"
  by (induction ks) auto

definition cell :: "'a list \<Rightarrow> nat \<Rightarrow> 'a list" where
  "cell xs i = (if i < length xs then [xs ! i] else [])"

lemma bucket_row_cells: "bucket_row bs i = concat (map (\<lambda>a. cell (the (map_of bs a)) i) (sort (map fst bs)))"
  by (simp add: bucket_row_def cell_def Let_def)

lemma interleave_mset:
  assumes "distinct (map fst bs)" and "\<forall>b \<in> set bs. length (snd b) \<le> m"
  shows "mset (concat (map (bucket_row bs) [0..<m])) = (\<Sum>a \<in> fst ` set bs. mset (the (map_of bs a)))"
proof -
  let ?b = "\<lambda>a. the (map_of bs a)"
  have row: "mset (bucket_row bs i) = (\<Sum>a \<in> fst ` set bs. mset (cell (?b a) i))" for i
    unfolding bucket_row_cells using assms(1) by (subst mset_concat_distinct) simp_all
  have "mset (concat (map (bucket_row bs) [0..<m])) = (\<Sum>i<m. \<Sum>a \<in> fst ` set bs. mset (cell (?b a) i))"
    by (simp add: mset_concat_upt row)
  also have "... = (\<Sum>a \<in> fst ` set bs. \<Sum>i<m. mset (cell (?b a) i))" by (rule sum.swap)
  also have "... = (\<Sum>a \<in> fst ` set bs. mset (?b a))"
  proof (rule sum.cong [OF refl])
    fix a assume "a \<in> fst ` set bs"
    then have "length (?b a) \<le> m" using assms by force
    have "(\<Sum>i<m. mset (cell (?b a) i)) = (\<Sum>i<m. if i < length (?b a) then {#?b a ! i#} else {#})"
      by (rule sum.cong) (simp_all add: cell_def)
    with mset_nth_sum [OF \<open>length (?b a) \<le> m\<close>] show "(\<Sum>i<m. mset (cell (?b a) i)) = mset (?b a)" by simp
  qed
  finally show ?thesis .
qed

lemma subseq_concat_member: "a \<in> set ks \<Longrightarrow> subseq (f a) (concat (map f ks))"
  by (induction ks) (auto intro: list_emb_append2 list_emb_append_mono)

lemma interleave_subseq:
  assumes "map_of bs a = Some b"
  shows "subseq (take m b) (concat (map (bucket_row bs) [0..<m]))"
proof (induction m)
  case (Suc m)
  have "a \<in> set (sort (map fst bs))" using assms by (force dest: map_of_SomeD)
  then have "subseq (cell b m) (bucket_row bs m)"
    using subseq_concat_member [of a "sort (map fst bs)" "\<lambda>a. cell (the (map_of bs a)) m"] assms
    by (simp add: bucket_row_cells)
  moreover have "take (Suc m) b = take m b @ cell b m"
    by (simp add: cell_def take_Suc_conv_app_nth)
  ultimately show ?case using Suc by (simp add: list_emb_append_mono)
qed simp

text \<open>
  the interleaving keeps everything and favours no family. It lists the servers of all
  buckets and nothing else, each bucket in its own order, and the best server of every family
  is among the first as many as there are families.
\<close>

theorem interleave_buckets_fair:
  assumes "distinct (map fst bs)"
  shows "mset (interleave_buckets bs) = (\<Sum>a \<in> fst ` set bs. mset (the (map_of bs a))) \<and>
    (\<forall>a b. map_of bs a = Some b \<longrightarrow> subseq b (interleave_buckets bs) \<and>
      (b \<noteq> [] \<longrightarrow> hd b \<in> set (take (length bs) (interleave_buckets bs))))"
proof -
  let ?m = "foldr max (map (length \<circ> snd) bs) 0"
  have i: "interleave_buckets bs = concat (map (bucket_row bs) [0..<?m])" by (simp add: interleave_buckets_def)
  have le: "\<forall>b \<in> set bs. length (snd b) \<le> ?m" by (force intro!: foldr_max_ge)
  have "subseq b (interleave_buckets bs) \<and> (b \<noteq> [] \<longrightarrow> hd b \<in> set (take (length bs) (interleave_buckets bs)))"
    if ab: "map_of bs a = Some b" for a b
  proof
    have "length b \<le> ?m" using le ab by (force dest: map_of_SomeD)
    then show "subseq b (interleave_buckets bs)" using interleave_subseq [OF ab, of ?m] i by simp
    show "b \<noteq> [] \<longrightarrow> hd b \<in> set (take (length bs) (interleave_buckets bs))"
    proof
      assume "b \<noteq> []"
      then have "0 < length b" by simp
      then have "0 < ?m" using \<open>length b \<le> ?m\<close> by (rule less_le_trans)
      then have "interleave_buckets bs = bucket_row bs 0 @ concat (map (bucket_row bs) [1..<?m])"
        unfolding i by (simp add: upt_conv_Cons)
      moreover have "length (bucket_row bs 0) \<le> length bs"
      proof -
        have "length (concat (map (\<lambda>a. cell (the (map_of bs a)) 0) ks)) \<le> length ks" for ks
          by (induction ks) (auto simp: cell_def)
        from this [of "sort (map fst bs)"] show ?thesis by (simp add: bucket_row_cells)
      qed
      moreover have "hd b \<in> set (bucket_row bs 0)"
      proof -
        have "a \<in> set (sort (map fst bs))" using ab by (force dest: map_of_SomeD)
        moreover have "hd b \<in> set (cell (the (map_of bs a)) 0)" using ab \<open>b \<noteq> []\<close> by (simp add: cell_def hd_conv_nth)
        ultimately show ?thesis unfolding bucket_row_cells by (auto simp del: set_sort)
      qed
      ultimately show "hd b \<in> set (take (length bs) (interleave_buckets bs))" by auto
    qed
  qed
  with interleave_mset [OF assms le] i show ?thesis by metis
qed

theorem interleave_buckets_fair_witness:
  "interleave_buckets [(10, [1, 2, 3]), (2, [7, 8::nat])] = [7, 1, 8, 2, 3] \<and>
     subseq [1, 2, 3] (interleave_buckets [(10, [1, 2, 3]), (2, [7, 8::nat])])"
proof -
  have "subseq [1, 2, 3] (interleave_buckets [(10, [1, 2, 3]), (2, [7, 8::nat])])"
    using interleave_buckets_fair [of "[(10, [1, 2, 3]), (2, [7, 8::nat])]"] by simp
  moreover have "interleave_buckets [(10, [1, 2, 3]), (2, [7, 8::nat])] = [7, 1, 8, 2, 3]"
    by (simp add: interleave_buckets_def bucket_row_def upt_conv_Cons)
  ultimately show ?thesis by simp
qed

end
