(* ===== verification/Broker_Walk.thy ===== *)
theory Broker_Walk
  imports Discovery
begin

text \<open>
  What the broker walk of \<open>utils.py\<close> promises: how many clients a family wants, when a client
  is tried at all, and which clients come out of the walk.
\<close>

section \<open>How many clients are wanted\<close>

text \<open>
  the number of clients wanted. It is the whole part of the binary logarithm of the number
  of candidates, at most three: none for fewer than two candidates, one for two or three, two
  for four to seven, three from eight on. It never exceeds the number of candidates.
\<close>

theorem needed_clients_spec:
  "needed_clients n = (if n < 2 then 0 else if n < 4 then 1 else if n < 8 then 2 else 3) \<and> needed_clients n \<le> n"
proof -
  have big: "needed_clients n = 3" if "8 \<le> n"
    using that by (simp add: needed_clients_def bit_length.simps [of n] bit_length.simps [of "n div 2"]
        bit_length.simps [of "n div 2 div 2"] bit_length.simps [of "n div 2 div 2 div 2"] div_eq_0_iff)
  have small: "\<forall>n \<in> {0..<8}. needed_clients n = (if n < 2 then 0 else if n < 4 then 1 else 2)"
    by code_simp
  show ?thesis
  proof (cases "n < 8")
    case True
    with small have "needed_clients n = (if n < 2 then 0 else if n < 4 then 1 else 2)" by auto
    with True show ?thesis by simp
  qed (use big in simp)
qed

section \<open>Trying one client\<close>

abbreviation limited :: "lib \<Rightarrow> exn \<Rightarrow> bool" where
  "limited L e \<equiv> is_OSError e \<or> e = TimeoutError \<or> e = CancelledError \<and> cancelled_by L = Try_Limit"

lemma try_client_app:
  "try_client L c =
    (if dispatcher_task c \<noteq> None then (Inr True, c)
     else let now = clock L (ticks c); c1 = c\<lparr>ticks := ticks c + 1\<rparr> in
       if \<exists>t. last_connect c = Some t \<and> now - t < 1200 then (Inr False, c1)
       else case connect L (cancelled_by L \<noteq> Connect_Limit) 60 10 c1 of
         (Inr _, c') \<Rightarrow> (Inr True, c')
       | (Inl e, c') \<Rightarrow> if limited L e then (Inr False, c'\<lparr>last_connect := Some now\<rparr>) else (Inl e, c'))"
  by (auto simp: try_client_def py_simps get_time_def Let_def split: option.splits prod.split sum.split)

text \<open>
  C29: trying a client. A client with a dispatcher counts as connected without further ado. One
  whose last failure is less than 1200 seconds ago is not tried: nothing goes out. Otherwise
  the outcome is that of connecting: with success the client has a dispatcher and an open pipe,
  and a network error is noted as a failure at the time the attempt began. No network error
  gets out, and a cancellation only when it comes from the caller.
\<close>

theorem try_client_spec:
  assumes "try_client L c = (r, c')" and "pipes_ok c"
  shows "if dispatcher_task c \<noteq> None then r = Inr True \<and> c' = c
    else if \<exists>t. last_connect c = Some t \<and> clock L (ticks c) - t < 1200
    then r = Inr False \<and> trace c' = trace c \<and> last_connect c' = last_connect c
    else case r of
      Inr True \<Rightarrow> dispatcher_task c' = Some Running \<and> pipe_open c' \<and> last_connect c' = last_connect c
    | Inr False \<Rightarrow> dispatcher_task c' = None \<and> last_connect c' = Some (clock L (ticks c))
    | Inl e \<Rightarrow> dispatcher_task c' = None \<and> e \<noteq> TimeoutError \<and> \<not> is_OSError e \<and> (e = CancelledError \<longrightarrow> cancelled_by L = Caller)"
proof (cases "dispatcher_task c \<noteq> None \<or> (\<exists>t. last_connect c = Some t \<and> clock L (ticks c) - t < 1200)")
  case True
  with assms(1) show ?thesis by (auto simp: try_client_app Let_def split: if_splits)
next
  case False
  let ?c = "c\<lparr>ticks := ticks c + 1\<rparr>"
  have ok: "pipes_ok ?c" and none: "dispatcher_task ?c = None" using assms(2) False by (simp_all add: pipes_ok_def)
  obtain x c1 where con: "connect L (cancelled_by L \<noteq> Connect_Limit) 60 10 ?c = (x, c1)" by fastforce
  show ?thesis
  proof (cases x)
    case (Inl e)
    from connect_fails_aux [OF con [unfolded Inl]] none
    have "dispatcher_task c1 = None" "e = CancelledError \<longrightarrow> cancelled_by L \<noteq> Connect_Limit" by simp_all
    moreover have "cancelled_by L = Caller" if "cancelled_by L \<noteq> Connect_Limit" "cancelled_by L \<noteq> Try_Limit"
      using that by (cases "cancelled_by L") simp_all
    ultimately show ?thesis using con Inl False assms(1) by (auto simp: try_client_app Let_def split: if_splits)
  next
    case (Inr p)
    from connect_connected_aux [OF con [unfolded Inr] ok] none
    have "dispatcher_task c1 = Some Running" "pipe_open c1" "last_connect c1 = last_connect c" by auto
    with con Inr False assms(1) show ?thesis by (auto simp: try_client_app Let_def split: if_splits)
  qed
qed

theorem try_client_spec_witness:
  "\<exists>c'. try_client demo_lib (demo_client\<lparr>last_connect := Some 0\<rparr>) = (Inr False, c') \<and> trace c' = []"
proof -
  obtain r c' where run: "try_client demo_lib (demo_client\<lparr>last_connect := Some 0\<rparr>) = (r, c')" by fastforce
  have "pipes_ok (demo_client\<lparr>last_connect := Some 0\<rparr>)" by (simp add: pipes_ok_def demo_client_def new_client_def)
  from try_client_spec [OF run this] run show ?thesis by (simp add: demo_client_def new_client_def)
qed

section \<open>The walk\<close>

text \<open>A client of the pool that has a dispatcher; trying clients never takes one away.\<close>

definition running :: "nat \<Rightarrow> pool \<Rightarrow> bool" where
  "running i s \<longleftrightarrow> dispatcher_task (members s i) \<noteq> None"

lemma keeps_True: "keeps (\<lambda>_. True) m"
  by (simp add: valid_def split: prod.split sum.split)

lemma try_keeps_running: "keeps (running i) (on_client j (try_client L))"
proof (rule keepsI)
  fix s assume "running i s"
  then show "running i (snd (on_client j (try_client L) s))"
    by (cases "j = i") (auto simp: running_def on_client_def try_client_app split: prod.splits)
qed

lemma try_True_running:
  assumes "on_client i (try_client L) s = (Inr True, s')"
  shows "running i s'"
proof -
  let ?c = "(members s i)\<lparr>recv_msg_ids := shared_ids s\<rparr>"
  from assms obtain c' where run: "try_client L ?c = (Inr True, c')" and s': "members s' i = c'"
    by (auto simp: on_client_def split: prod.splits)
  have "dispatcher_task c' \<noteq> None"
  proof (cases "dispatcher_task ?c")
    case None
    then obtain p where "connect L (cancelled_by L \<noteq> Connect_Limit) 60 10 (?c\<lparr>ticks := ticks ?c + 1\<rparr>) = (Inr p, c')"
      using run by (auto simp: try_client_app Let_def split: if_splits prod.splits sum.splits)
    then show ?thesis using None by (auto simp: connect_app start_dispatcher_def split: if_splits prod.splits sum.splits)
  qed (use run in \<open>auto simp: try_client_app\<close>)
  with s' show ?thesis by (simp add: running_def)
qed

lemma abandon_app: "fst (abandon E tasks s) = Inr ()"
proof (induction tasks arbitrary: s)
  case (Cons i tasks)
  have one: "fst (on_client i (py_except m (\<lambda>_. True) (py_return ())) s) = Inr ()" for m
    by (simp add: on_client_def py_simps split: prod.split sum.split)
  then show ?case using Cons
    by (auto simp: abandon_def py_seq_app split: prod.split sum.split) (metis fst_conv one sum.distinct(1))+
qed (simp add: abandon_def py_simps)

lemma quiet_same: "on_client i (py_except (py_bind m (\<lambda>_. py_return ())) (\<lambda>_. True) (py_return ())) s = (Inr (), snd (on_client i m s))"
  by (auto simp: on_client_def py_simps split: prod.split sum.split)

lemma abandon_keeps_running: "keeps (running i) (abandon E tasks)"
  unfolding abandon_def
proof (rule keeps_for, rule keepsI)
  fix j s assume "running i s"
  then have "running i (snd (on_client j (try_client (E j)) s))" by (rule keeps_snd [OF try_keeps_running])
  then show "running i (snd (on_client j (py_except (py_bind (try_client (E j)) (\<lambda>_. py_return ())) (\<lambda>_. True) (py_return ())) s))"
    by (simp add: quiet_same)
qed

lemma abandon_keeps_all: "keeps (\<lambda>s. \<forall>i \<in> S. running i s) (abandon E tasks)"
  by (rule keepsI) (use keeps_snd [OF abandon_keeps_running] in blast)

lemma cleanup_Inr: "py_cleanup m h s = (Inr x, s') \<longleftrightarrow> m s = (Inr x, s')"
  by (auto simp: py_cleanup_def split: prod.splits sum.splits)

lemma valid_finally:
  assumes "valid P m Q (\<lambda>_. True)" and "\<And>x. keeps (Q x) h"
  shows "valid P (py_finally m h) Q (\<lambda>_. True)"
proof (rule validI)
  fix s x s' assume "P s" and "py_finally m h s = (Inr x, s')"
  then obtain s1 u where s1: "m s = (Inr x, s1)" "h s1 = (Inr u, s')" by (auto simp: py_finally_def split: prod.splits sum.splits)
  have "Q x s1" by (rule valid_Inr [OF assms(1) \<open>P s\<close> s1(1)])
  from keeps_snd [OF assms(2) this] s1(2) show "Q x s'" by simp
qed simp

text \<open>What comes out of a walk over \<open>tasks\<close>, some of which had been found before.\<close>

definition found_ok :: "nat \<Rightarrow> nat list \<Rightarrow> nat list \<Rightarrow> pool \<Rightarrow> bool" where
  "found_ok m tasks found s \<longleftrightarrow> length found \<le> m \<and> set found \<subseteq> set tasks \<and> distinct found \<and> (\<forall>i \<in> set found. running i s)"

lemma collect_found:
  "length acc < needed \<Longrightarrow> distinct (acc @ order) \<Longrightarrow>
   valid (\<lambda>s. \<forall>i \<in> set acc. running i s) (collect E needed order acc) (found_ok needed (acc @ order)) (\<lambda>_. True)"
proof (induction order arbitrary: acc)
  case Nil
  then show ?case by (auto simp: valid_def py_simps found_ok_def)
next
  case (Cons i order)
  have step: "valid (\<lambda>s. \<forall>j \<in> set acc. running j s) (py_cleanup (on_client i (try_client (E i))) (abandon E order))
      (\<lambda>r s. (\<forall>j \<in> set acc. running j s) \<and> (r \<longrightarrow> running i s)) (\<lambda>_. True)"
  proof (rule validI)
    fix s r s' assume pre: "\<forall>j \<in> set acc. running j s"
      and "py_cleanup (on_client i (try_client (E i))) (abandon E order) s = (Inr r, s')"
    then have run: "on_client i (try_client (E i)) s = (Inr r, s')" by (simp add: cleanup_Inr)
    have "running j s'" if "j \<in> set acc" for j
      using keeps_snd [OF try_keeps_running, of j s i "E i"] pre that run by simp
    moreover have "r \<longrightarrow> running i s'" using run by (auto dest: try_True_running)
    ultimately show "(\<forall>j \<in> set acc. running j s') \<and> (r \<longrightarrow> running i s')" by blast
  qed simp
  have more: "valid (\<lambda>s. (\<forall>j \<in> set acc. running j s) \<and> (r \<longrightarrow> running i s))
      (if r then if length acc + 1 \<ge> needed then py_seq (abandon E order) (py_return (acc @ [i])) else collect E needed order (acc @ [i])
       else collect E needed order acc) (found_ok needed (acc @ i # order)) (\<lambda>_. True)" for r
  proof (cases r)
    case True
    have "valid (\<lambda>s. \<forall>j \<in> set (acc @ [i]). running j s) (collect E needed order (acc @ [i]))
        (found_ok needed ((acc @ [i]) @ order)) (\<lambda>_. True)" if "length acc + 1 < needed"
      using Cons.IH [of "acc @ [i]"] Cons.prems that by simp
    moreover have "valid (\<lambda>s. \<forall>j \<in> set (acc @ [i]). running j s) (py_seq (abandon E order) (py_return (acc @ [i])))
        (found_ok needed (acc @ i # order)) (\<lambda>_. True)"
    proof (rule valid_seq)
      show "valid (\<lambda>s. \<forall>j \<in> set (acc @ [i]). running j s) (abandon E order) (\<lambda>_ s. \<forall>j \<in> set (acc @ [i]). running j s) (\<lambda>_. True)"
        by (rule valid_weaken [OF abandon_keeps_all [of "set (acc @ [i])"]]) simp_all
      show "valid (\<lambda>s. \<forall>j \<in> set (acc @ [i]). running j s) (py_return (acc @ [i])) (found_ok needed (acc @ i # order)) (\<lambda>_. True)"
        using Cons.prems by (auto simp: valid_def py_simps found_ok_def)
    qed
    ultimately show ?thesis using True by (auto elim!: valid_pre)
  next
    case False
    have "valid (\<lambda>s. \<forall>j \<in> set acc. running j s) (collect E needed order acc) (found_ok needed (acc @ order)) (\<lambda>_. True)"
      using Cons.IH [of acc] Cons.prems by simp
    then have "valid (\<lambda>s. \<forall>j \<in> set acc. running j s) (collect E needed order acc)
        (found_ok needed (acc @ i # order)) (\<lambda>_. True)"
      by (rule valid_weaken) (auto simp: found_ok_def)
    with False show ?thesis by simp
  qed
  show ?case unfolding collect.simps by (rule valid_bind [OF step more])
qed

text \<open>The order in which connects complete lists some of them, each once.\<close>

definition completes :: "disc \<Rightarrow> bool" where
  "completes D \<longleftrightarrow> (\<forall>pass a cs. distinct cs \<longrightarrow> distinct (completions D pass a cs) \<and> set (completions D pass a cs) \<subseteq> set cs)"

lemma add_candidates_set:
  "distinct acc \<Longrightarrow> distinct (add_candidates xs acc) \<and> set (add_candidates xs acc) = set acc \<union> {i. Some i \<in> set xs}"
  by (induction xs acc rule: add_candidates.induct) auto

lemma candidates_known:
  "distinct (candidate_clients D cm hints a sv) \<and>
   (\<forall>i \<in> set (candidate_clients D cm hints a sv). \<exists>a h. lookup_client cm a h = Some i)"
  using add_candidates_set [of "[]"] by (auto simp: candidate_clients_def Let_def simp del: add_candidates.simps) metis+

lemma walk_af_found:
  assumes "completes D"
  shows "valid (\<lambda>_. True) (walk_af E D pass cm hints b)
    (\<lambda>found s. length found \<le> 3 \<and> (\<forall>i \<in> set found. running i s \<and> (\<exists>a h. lookup_client cm a h = Some i))) (\<lambda>_. True)"
proof -
  let ?cs = "candidate_clients D cm hints (fst b) (snd b)"
  let ?needed = "needed_clients (length ?cs)" and ?order = "completions D pass (fst b) (take 10 ?cs)"
  have le: "?needed \<le> 3" by (simp add: needed_clients_def)
  have "distinct (take 10 ?cs)" using candidates_known by (simp add: distinct_take)
  then have ord: "distinct ?order" "set ?order \<subseteq> set (take 10 ?cs)" using assms by (auto simp: completes_def)
  have "valid (\<lambda>s. \<forall>i \<in> set []. running i s) (collect E ?needed ?order []) (found_ok ?needed ([] @ ?order)) (\<lambda>_. True)"
    if "?needed \<noteq> 0"
    by (rule collect_found) (use ord that in auto)
  note coll = this
  have "set ?order \<subseteq> set ?cs" using ord(2) set_take_subset by fastforce
  then have known: "\<exists>a h. lookup_client cm a h = Some i" if "i \<in> set ?order" for i
    using that candidates_known by blast
  have "valid (\<lambda>_. True) (collect E ?needed ?order [])
      (\<lambda>found s. length found \<le> 3 \<and> (\<forall>i \<in> set found. running i s \<and> (\<exists>a h. lookup_client cm a h = Some i))) (\<lambda>_. True)"
    if "?needed \<noteq> 0"
    by (rule valid_weaken [OF coll [OF that]]) (use le known in \<open>auto simp: found_ok_def\<close>)
  moreover have "valid (\<lambda>_. True) (py_return [])
      (\<lambda>found s. length found \<le> 3 \<and> (\<forall>i \<in> set found. running i s \<and> (\<exists>a h. lookup_client cm a h = Some i))) (\<lambda>_. True)"
    by (simp add: valid_def py_simps)
  moreover have "keeps (\<lambda>s. length found \<le> 3 \<and> (\<forall>i \<in> set found. running i s \<and> (\<exists>a h. lookup_client cm a h = Some i))) (abandon E tasks)" for found tasks
    by (rule keepsI) (use keeps_snd [OF abandon_keeps_running] in blast)
  ultimately show ?thesis by (auto simp: walk_af_def Let_def intro!: valid_finally)
qed

lemma walk_keeps_running: "keeps (running i) (walk_afs E D pass cm hints bs)"
proof -
  have "keeps (running i) (collect E n order acc)" for n order acc
    by (induction order arbitrary: acc) (auto intro!: valid_rules try_keeps_running abandon_keeps_running)
  then have "keeps (running i) (walk_af E D pass cm hints b)" for b
    unfolding walk_af_def Let_def by (intro valid_rules abandon_keeps_running)
  then show ?thesis by (induction bs) (auto intro!: valid_rules)
qed

abbreviation walked :: "clients_map \<Rightarrow> nat \<Rightarrow> nat list \<Rightarrow> pool \<Rightarrow> bool" where
  "walked cm n found s \<equiv> length found \<le> 3 * n \<and> (\<forall>i \<in> set found. running i s \<and> (\<exists>a h. lookup_client cm a h = Some i))"

lemma walk_afs_found:
  assumes "completes D"
  shows "valid (\<lambda>_. True) (walk_afs E D pass cm hints bs) (walked cm (length bs)) (\<lambda>_. True)"
proof (induction bs)
  case (Cons b bs)
  have rest: "valid (walked cm 1 af_found) (walk_afs E D pass cm hints bs)
      (\<lambda>rest s. walked cm 1 af_found s \<and> walked cm (length bs) rest s) (\<lambda>_. True)" for af_found
  proof (rule validI)
    fix s rest s' assume pre: "walked cm 1 af_found s" and run: "walk_afs E D pass cm hints bs s = (Inr rest, s')"
    have "running i s'" if "i \<in> set af_found" for i
      using keeps_snd [OF walk_keeps_running, of i s E D pass cm hints bs] pre that run by simp
    moreover have "walked cm (length bs) rest s'" using valid_Inr [OF Cons.IH _ run] by simp
    ultimately show "walked cm 1 af_found s' \<and> walked cm (length bs) rest s'" using pre by blast
  qed simp
  have join: "valid (\<lambda>s. walked cm 1 x s \<and> walked cm (length bs) y s) (py_return (x @ y)) (walked cm (length (b # bs))) (\<lambda>_. True)" for x y
    by (auto simp: valid_def py_simps)
  have first: "valid (\<lambda>_. True) (walk_af E D pass cm hints b) (walked cm 1) (\<lambda>_. True)"
    using walk_af_found [OF assms] by simp
  show ?case unfolding walk_afs.simps by (rule valid_bind [OF first valid_bind [OF rest join]])
qed (simp add: valid_def py_simps)

lemma rank_afs_length: "rank_afs L D pk servers afs acc = Inr bs \<Longrightarrow> length bs \<le> length acc + length afs"
proof (induction afs arbitrary: acc)
  case (Cons a afs)
  have "length (AList.update a b acc) \<le> Suc (length acc)" for b by (induction acc) auto
  moreover from Cons.prems obtain b where "rank_afs L D pk servers afs (AList.update a b acc) = Inr bs"
    by (auto simp: res_bind_Inr_conv)
  ultimately show ?case using Cons.IH [of "AList.update a b acc"] by (metis add_Suc_right add_Suc add_le_mono1 le_trans length_Cons)
qed simp

lemma get_dest_clients_aux:
  assumes "get_dest_clients L E D pk servers cm hints s = (Inr found, s')" and "completes D"
  shows "length found \<le> 3 * length (supported D) \<and>
    (\<forall>i \<in> set found. dispatcher_task (members s' i) \<noteq> None \<and> (\<exists>a h. lookup_client cm a h = Some i))"
proof -
  from assms(1) obtain bs pass s1 where r: "rendezvous_hash L D pk servers = Inr bs"
    and w: "walk_afs E D pass cm hints bs s1 = (Inr found, s')"
    by (auto simp: get_dest_clients_def retry_walk_def py_simps split: sum.splits prod.splits if_splits)
  have "length bs \<le> length (supported D)" using rank_afs_length r by (fastforce simp: rendezvous_hash_def)
  with valid_Inr [OF walk_afs_found [OF assms(2)] _ w] show ?thesis by (fastforce simp: running_def)
qed

text \<open>
  C31: what discovery returns. The clients it returns are clients of the table, each has a
  dispatcher, and there are at most three for every address family the network supports;
  nothing above that is looked for, whatever number the caller asks for.
\<close>

theorem get_dest_clients_found:
  assumes "get_dest_clients L E D pk servers cm hints s = (Inr found, s')" and "completes D"
  shows "length found \<le> 3 * length (supported D) \<and>
    (\<forall>i \<in> set found. dispatcher_task (members s' i) \<noteq> None \<and> (\<exists>a h. lookup_client cm a h = Some i))"
  using assms by (rule get_dest_clients_aux)

text \<open>A pool of fresh clients, found without a candidate too many.\<close>

definition demo_pool :: pool where
  "demo_pool = \<lparr>members = (\<lambda>_. demo_client\<lparr>dispatcher_task := Some Running\<rparr>), shared_ids = []\<rparr>"

lemma demo_found:
  "\<exists>s'. get_dest_clients demo_lib (\<lambda>_. demo_lib) demo_disc ''00'' demo_servers [(2, [(''a'', 0), (''bbb'', 1)])] [] demo_pool =
     (Inr [0], s')"
proof -
  have "rank_bucket demo_lib demo_disc ''00'' demo_servers 10 = Inr [(2, \<lparr>sv_af = 10, sv_host = ''cc'', sv_port = 1883\<rparr>)]"
    by (simp add: rank_bucket_def demo_servers_def get_server_score_def af_byte_def Let_def)
  then have rank: "rendezvous_hash demo_lib demo_disc ''00'' demo_servers =
      Inr [(2, [(1, \<lparr>sv_af = 2, sv_host = ''a'', sv_port = 1883\<rparr>), (3, \<lparr>sv_af = 2, sv_host = ''bbb'', sv_port = 1883\<rparr>)]),
        (10, [(2, \<lparr>sv_af = 10, sv_host = ''cc'', sv_port = 1883\<rparr>)])]"
    using demo_rank by (simp add: rendezvous_hash_def)
  have two: "needed_clients (Suc (Suc 0)) = 1" "needed_clients 0 = 0"
    by (simp_all add: needed_clients_def bit_length.simps)
  obtain s' where tried: "on_client 0 (try_client demo_lib) demo_pool = (Inr True, s')"
    by (simp add: on_client_def try_client_app demo_pool_def)
  moreover obtain s2 where "abandon (\<lambda>_. demo_lib) [1] s' = (Inr (), s2)" using abandon_app by (metis prod.collapse)
  moreover have "abandon E [] s = (Inr (), s)" for E s by (simp add: abandon_def py_simps)
  ultimately show ?thesis
    by (simp add: py_finally_def cleanup_Inr [THEN iffD2] get_dest_clients_def retry_walk_def py_simps rank walk_af_def candidate_clients_def lookup_client_def norm_af_def two tried)
qed

lemma demo_completes: "completes demo_disc"
  by (simp add: completes_def)

theorem get_dest_clients_found_witness:
  "\<exists>s'. get_dest_clients demo_lib (\<lambda>_. demo_lib) demo_disc ''00'' demo_servers [(2, [(''a'', 0), (''bbb'', 1)])] [] demo_pool =
     (Inr [0], s') \<and> dispatcher_task (members s' 0) \<noteq> None"
proof -
  obtain s' where run: "get_dest_clients demo_lib (\<lambda>_. demo_lib) demo_disc ''00'' demo_servers [(2, [(''a'', 0), (''bbb'', 1)])] [] demo_pool =
     (Inr [0], s')" using demo_found by blast
  from get_dest_clients_found [OF run demo_completes] run show ?thesis by auto
qed

end
