(* ===== verification/Hint_Cache.thy ===== *)
theory Hint_Cache
  imports Broker_Walk
begin

text \<open>
  The cache of brokers that worked (\<open>broker_hint_cache.py\<close>): a JSON file keyed by public key,
  read defensively, because the user may delete or edit it.
\<close>

section \<open>JSON values\<close>

text \<open>
  What \<open>json.load\<close> returns. An object is an association list without duplicate keys.
\<close>

datatype json =
    JNull
  | JBool bool
  | JInt int
  | JFloat real
  | JStr string
  | JList "json list"
  | JDict "(string \<times> json) list"

text \<open>\<open>isinstance(v, int)\<close>, of which \<open>bool\<close> is a subclass, and \<open>int(v)\<close> of such a value.\<close>

fun int_value :: "json \<Rightarrow> int option" where
  "int_value (JInt i) = Some i"
| "int_value (JBool b) = Some (if b then 1 else 0)"
| "int_value _ = None"

fun str_value :: "json \<Rightarrow> string option" where
  "str_value (JStr s) = Some s"
| "str_value _ = None"

text \<open>
  \<open>int(b.get("ts") or 0)\<close>: a missing or false value is 0, a number is truncated, a string is
  parsed (\<open>parse_int\<close>, which may raise), anything else raises.
\<close>

fun ts_value :: "(string \<Rightarrow> int res) \<Rightarrow> json option \<Rightarrow> int res" where
  "ts_value parse_int None = Inr 0"
| "ts_value parse_int (Some JNull) = Inr 0"
| "ts_value parse_int (Some (JBool b)) = Inr (if b then 1 else 0)"
| "ts_value parse_int (Some (JInt i)) = Inr i"
| "ts_value parse_int (Some (JFloat x)) = Inr (py_int x)"
| "ts_value parse_int (Some (JStr s)) = (if s = [] then Inr 0 else parse_int s)"
| "ts_value parse_int (Some (JList xs)) = (if xs = [] then Inr 0 else Inl TypeError)"
| "ts_value parse_int (Some (JDict kvs)) = (if kvs = [] then Inr 0 else Inl TypeError)"

section \<open>The cache\<close>

text \<open>\<open>os.path.join\<close> of POSIX, and the path of the cache below the installation root of aionetiface.\<close>

definition path_join :: "string \<Rightarrow> string \<Rightarrow> string" where
  "path_join a b = (if b \<noteq> [] \<and> hd b = CHR ''/'' then b
     else if a = [] \<or> last a = CHR ''/'' then a @ b else a @ ''/'' @ b)"

definition cache_file_path :: "string \<Rightarrow> string" where
  "cache_file_path install_root = path_join install_root ''broker_hint_cache.json''"

text \<open>
  The state is what \<open>load_json_or_default\<close> reads from the file: its content, or an empty object
  when it is missing or broken.
\<close>

definition load_all :: "json \<Rightarrow> (string \<times> json) list" where
  "load_all file = (case file of JDict data \<Rightarrow> data | _ \<Rightarrow> [])"

text \<open>The fields of a broker entry, if it is one.\<close>

definition broker_fields :: "json \<Rightarrow> (int \<times> string \<times> int) option" where
  "broker_fields b = (case b of
     JDict kvs \<Rightarrow>
       (case (map_of kvs ''af'', map_of kvs ''host'', map_of kvs ''port'') of
          (Some a, Some h, Some p) \<Rightarrow>
            (case (int_value a, str_value h, int_value p) of
               (Some a, Some h, Some p) \<Rightarrow> Some (a, h, p)
             | _ \<Rightarrow> None)
        | _ \<Rightarrow> None)
   | _ \<Rightarrow> None)"

definition broker_ts :: "(string \<Rightarrow> int res) \<Rightarrow> json \<Rightarrow> int res" where
  "broker_ts parse_int b = (case b of JDict kvs \<Rightarrow> ts_value parse_int (map_of kvs ''ts'') | _ \<Rightarrow> Inr 0)"

fun read_brokers :: "(string \<Rightarrow> int res) \<Rightarrow> json list \<Rightarrow> hint list res" where
  "read_brokers parse_int [] = Inr []"
| "read_brokers parse_int (b # bs) = (case broker_fields b of
     None \<Rightarrow> read_brokers parse_int bs
   | Some (a, h, p) \<Rightarrow>
       res_bind (broker_ts parse_int b) (\<lambda>t.
       res_bind (read_brokers parse_int bs) (\<lambda>out.
       Inr (\<lparr>h_af = a, h_host = h, h_port = p, h_ts = t\<rparr> # out))))"

text \<open>\<open>out.sort(key=lambda b: b["ts"], reverse=True)\<close> is stable: equal times keep their order.\<close>

definition load_for :: "(string \<Rightarrow> int res) \<Rightarrow> string \<Rightarrow> json \<Rightarrow> hint list res" where
  "load_for parse_int pub_key_hex file = (case map_of (load_all file) pub_key_hex of
     Some (JDict entry) \<Rightarrow>
       (case map_of entry ''brokers'' of
          Some (JList brokers) \<Rightarrow>
            res_bind (read_brokers parse_int brokers) (\<lambda>out. Inr (sort_key (\<lambda>b. - h_ts b) out))
        | _ \<Rightarrow> Inr [])
   | _ \<Rightarrow> Inr [])"

definition broker_entry :: "int \<Rightarrow> int \<times> string \<times> int \<Rightarrow> json" where
  "broker_entry ts x = (case x of (a, h, p) \<Rightarrow>
     JDict [(''af'', JInt a), (''host'', JStr h), (''port'', JInt p), (''ts'', JInt ts)])"

text \<open>
  \<open>store_for\<close>: the new content of the file. The directory is made best-effort; the atomic write
  is aionetiface's, \<open>write\<close> says what it raises, if anything, and then the file is as before.
\<close>

definition store_for :: "exn option \<Rightarrow> string \<Rightarrow> json list \<Rightarrow> real \<Rightarrow> json \<Rightarrow> unit res \<times> json" where
  "store_for write pub_key_hex brokers now file =
     (if brokers = [] then (Inr (), file)
      else
        let ts = py_int now;
            serialisable = map (broker_entry ts) (List.map_filter broker_fields brokers)
        in if serialisable = [] then (Inr (), file)
           else
             let data = AList.update pub_key_hex (JDict [(''brokers'', JList serialisable)]) (load_all file)
             in case write of None \<Rightarrow> (Inr (), JDict data) | Some e \<Rightarrow> (Inl e, file))"

text \<open>
  \<open>client_to_hint\<close>, for a client of the model, which has its attributes: \<open>None\<close> only for an
  empty host.
\<close>

definition client_to_hint :: "client \<Rightarrow> json option" where
  "client_to_hint c = (if host c = [] then None
     else Some (JDict [(''af'', JInt (af c)), (''host'', JStr (host c)), (''port'', JInt (port c))]))"

section \<open>Reading back what was stored\<close>

lemma entry_fields [simp]:
  "broker_fields (broker_entry ts x) = Some x" "broker_ts parse_int (broker_entry ts x) = Inr ts"
  by (cases x; simp add: broker_entry_def broker_fields_def broker_ts_def)+

lemma read_entries:
  "read_brokers parse_int (map (broker_entry ts) xs) = Inr (map (\<lambda>(a, h, p). \<lparr>h_af = a, h_host = h, h_port = p, h_ts = ts\<rparr>) xs)"
  by (induction xs) auto

lemma sort_key_const: "(\<And>x. x \<in> set xs \<Longrightarrow> f x = k) \<Longrightarrow> sort_key f xs = xs"
  by (induction xs) (auto simp: insort_is_Cons)

text \<open>
  C38: the cache remembers. After brokers were stored for a key, loading the key returns those of
  them that have the fields of a broker, in the same order, stamped with the time of storing;
  what was cached before for the key is gone, and no other key is affected. If none of them is
  a broker the file stays as it is.
\<close>

theorem cache_roundtrip:
  assumes "store_for None pub_key_hex brokers now file = (Inr (), file')"
  shows "(if List.map_filter broker_fields brokers = [] then file' = file
      else load_for parse_int pub_key_hex file' = Inr (map (\<lambda>(a, h, p).
        \<lparr>h_af = a, h_host = h, h_port = p, h_ts = py_int now\<rparr>) (List.map_filter broker_fields brokers))) \<and>
    (\<forall>k. k \<noteq> pub_key_hex \<longrightarrow> load_for parse_int k file' = load_for parse_int k file)"
proof (cases "List.map_filter broker_fields brokers = []")
  case True
  with assms show ?thesis by (auto simp: store_for_def Let_def split: if_splits)
next
  case False
  then have "brokers \<noteq> []" by (auto simp: map_filter_simps)
  with assms False have f: "file' = JDict (AList.update pub_key_hex (JDict [(''brokers'',
      JList (map (broker_entry (py_int now)) (List.map_filter broker_fields brokers)))]) (load_all file))"
    by (simp add: store_for_def Let_def)
  have same: "load_for parse_int k file' = load_for parse_int k file" if "k \<noteq> pub_key_hex" for k
    using that by (simp add: f load_for_def load_all_def update_lookup)
  have "load_for parse_int pub_key_hex file' = Inr (map (\<lambda>(a, h, p).
      \<lparr>h_af = a, h_host = h, h_port = p, h_ts = py_int now\<rparr>) (List.map_filter broker_fields brokers))"
    by (simp add: f load_for_def load_all_def update_lookup read_entries)
      (rule sort_key_const [where k = "- py_int now"], auto)
  with same False show ?thesis by simp
qed

theorem cache_roundtrip_witness:
  "\<exists>file'. store_for None ''k'' [JDict [(''af'', JInt 2), (''host'', JStr ''a''), (''port'', JInt 1)], JNull] 7 JNull = (Inr (), file') \<and>
     load_for (\<lambda>_. Inr 0) ''k'' file' = Inr [\<lparr>h_af = 2, h_host = ''a'', h_port = 1, h_ts = 7\<rparr>]"
proof -
  let ?bs = "[JDict [(''af'', JInt 2), (''host'', JStr ''a''), (''port'', JInt 1)], JNull]"
  have bs: "List.map_filter broker_fields ?bs = [(2, ''a'', 1)]" by (simp add: map_filter_simps broker_fields_def)
  obtain file' where run: "store_for None ''k'' ?bs 7 JNull = (Inr (), file')"
    by (simp add: store_for_def Let_def map_filter_simps broker_fields_def)
  from cache_roundtrip [OF this, of "\<lambda>_. Inr 0"] run bs show ?thesis by (simp add: py_int_def)
qed

section \<open>What loading returns\<close>

lemma read_brokers_fields:
  "read_brokers parse_int bs = Inr out \<Longrightarrow>
   map (\<lambda>b. (h_af b, h_host b, h_port b)) out = List.map_filter broker_fields bs"
  by (induction bs arbitrary: out) (auto simp: res_bind_Inr_conv map_filter_simps split: option.splits)

lemma read_brokers_raises:
  "read_brokers parse_int bs = Inl e \<Longrightarrow> \<exists>b \<in> set bs. broker_fields b \<noteq> None \<and> broker_ts parse_int b = Inl e"
  by (induction bs) (auto simp: res_bind_Inl_conv split: option.splits)

text \<open>
  loading is best first, and nearly total. If \<open>load_for\<close> returns, it lists just the cached
  entries that have the fields of a broker, the latest success first. It raises only on an
  entry that has these fields and a \<open>ts\<close> that is a list, an object or a string that is no number,
  which the defensive reading does not look at.
\<close>

theorem load_for_spec:
  "case load_for parse_int pub_key_hex file of
    Inr out \<Rightarrow> sorted (map (\<lambda>b. - h_ts b) out) \<and>
      (out = [] \<or> (\<exists>entry bs. map_of (load_all file) pub_key_hex = Some (JDict entry) \<and>
        map_of entry ''brokers'' = Some (JList bs) \<and>
        mset (map (\<lambda>b. (h_af b, h_host b, h_port b)) out) = mset (List.map_filter broker_fields bs)))
  | Inl e \<Rightarrow> \<exists>kvs t. map_of kvs ''ts'' = Some t \<and> broker_fields (JDict kvs) \<noteq> None \<and> ts_value parse_int (Some t) = Inl e \<and>
      (\<exists>s xs ys. t \<in> {JStr s, JList xs, JDict ys})"
proof (cases "load_for parse_int pub_key_hex file")
  case (Inr out)
  show ?thesis
  proof (cases "out = []")
    case False
    with Inr obtain entry bs raw where e: "map_of (load_all file) pub_key_hex = Some (JDict entry)"
      "map_of entry ''brokers'' = Some (JList bs)" "read_brokers parse_int bs = Inr raw" "out = sort_key (\<lambda>b. - h_ts b) raw"
      by (auto simp: load_for_def res_bind_Inr_conv split: option.splits json.splits)
    have "mset (map (\<lambda>b. (h_af b, h_host b, h_port b)) out) = mset (map (\<lambda>b. (h_af b, h_host b, h_port b)) raw)"
      unfolding e(4) by (simp only: mset_map mset_sort)
    then have "mset (map (\<lambda>b. (h_af b, h_host b, h_port b)) out) = mset (List.map_filter broker_fields bs)"
      using read_brokers_fields [OF e(3)] by simp
    with e Inr show ?thesis by (auto simp: sorted_sort_key)
  qed (use Inr in simp)
next
  case (Inl e)
  then obtain bs where "read_brokers parse_int bs = Inl e"
    by (auto simp: load_for_def res_bind_Inl_conv split: option.splits json.splits)
  then obtain b where b: "broker_fields b \<noteq> None" "broker_ts parse_int b = Inl e"
    using read_brokers_raises by blast
  then obtain kvs where kvs: "b = JDict kvs" by (auto simp: broker_fields_def split: json.splits)
  with b(2) obtain t where t: "map_of kvs ''ts'' = Some t" "ts_value parse_int (Some t) = Inl e"
    by (cases "map_of kvs ''ts''") (auto simp: broker_ts_def)
  moreover have "\<exists>s xs ys. t \<in> {JStr s, JList xs, JDict ys}" using t(2) by (cases t) auto
  ultimately show ?thesis using b(1) unfolding kvs Inl sum.case by blast
qed

end
