(* ===== verification/Router_State.thy ===== *)
theory Router_State
  imports Hint_Cache
begin

text \<open>
  The state of a router (\<open>router.py\<close>) with its pool of clients, and the operations on it that
  both the router and the smart pipe use: making a client, keeping the cache of discovered
  clients, discovery itself.
\<close>

section \<open>State\<close>

text \<open>
  The environment of a router: its own outside (clock, randomness), the outside of each client,
  the network, what happens to a client while a send waits, the wall clock and the outcome of
  writing the hint cache.
\<close>

datatype happening = Turn real | Chunk bytes

record env =
  own :: lib
  each :: "nat \<Rightarrow> lib"
  net :: disc
  during :: "nat \<Rightarrow> nat \<Rightarrow> happening list"  \<comment> \<open>number of the send, client\<close>
  parse_int :: "string \<Rightarrow> int res"
  wall_clock :: real
  write_exn :: "exn option"
  infra_v4 :: "infra list"  \<comment> \<open>\<open>INFRA["MQTT"]\<close> of aionetiface\<close>
  infra_v6 :: "infra list"

record router =
  rt_kp :: keypair
  rt_servers :: servers
  rt_clients :: clients_map
  rt_pool :: pool
  rt_next :: nat
  rt_handlers :: "nat list"
  rt_cache :: "(string \<times> real \<times> nat list) list"
  rt_protected :: "nat set"
  rt_idle :: "task option"
  rt_file :: json
  rt_ticks :: nat
  rt_draws :: nat

definition on_pool :: "(pool, 'a) py \<Rightarrow> (router, 'a) py" where
  "on_pool m = (\<lambda>r. case m (rt_pool r) of (x, p) \<Rightarrow> (x, r\<lparr>rt_pool := p\<rparr>))"

definition rt_client :: "nat \<Rightarrow> router \<Rightarrow> client" where
  "rt_client i r = members (rt_pool r) i"

definition rt_time :: "env \<Rightarrow> (router, real) py" where
  "rt_time R = (\<lambda>r. (Inr (clock (own R) (rt_ticks r)), r\<lparr>rt_ticks := rt_ticks r + 1\<rparr>))"

text \<open>Every client there is, in the order of the loops \<open>for af in clients: for host in clients[af]\<close>.\<close>

definition client_ids :: "clients_map \<Rightarrow> nat list" where
  "client_ids clients_map = concat (map (\<lambda>(_, hosts). map snd hosts) clients_map)"

section \<open>Making clients\<close>

text \<open>
  \<open>ensure_client\<close>. The new client gets every handler the router knows, the shared table of
  received ids, and no time of a failed connect.
\<close>

definition make_client :: "int \<Rightarrow> string \<Rightarrow> int \<Rightarrow> router \<Rightarrow> client" where
  "make_client a h p r = fold add_msg_handler (rt_handlers r) (new_client a (h, p) (rt_kp r))"

definition ensure_client :: "env \<Rightarrow> int \<Rightarrow> string \<Rightarrow> int \<Rightarrow> (router, nat option) py" where
  "ensure_client R a h p = (\<lambda>r.
     if a \<notin> set (supported (net R)) then (Inr None, r)
     else case map_of (rt_clients r) a of
       None \<Rightarrow> (Inl KeyError, r)
     | Some hosts \<Rightarrow> (case map_of hosts h of
         Some i \<Rightarrow> (Inr (Some i), r)
       | None \<Rightarrow> (Inr (Some (rt_next r)),
           r\<lparr>rt_pool := (rt_pool r)\<lparr>members := (members (rt_pool r))(rt_next r := make_client a h p r)\<rparr>,
             rt_clients := AList.update a (AList.update h (rt_next r) hosts) (rt_clients r),
             rt_next := rt_next r + 1\<rparr>)))"

text \<open>
  The constructor: a clock is required, and the servers of the supported families get their
  clients.
\<close>

definition empty_router :: "env \<Rightarrow> keypair \<Rightarrow> servers \<Rightarrow> nat option \<Rightarrow> json \<Rightarrow> router" where
  "empty_router R k servers msg_handler file =
     \<lparr>rt_kp = k, rt_servers = servers, rt_clients = [(ip4 (net R), []), (ip6 (net R), [])],
      rt_pool = \<lparr>members = (\<lambda>_. new_client 0 ([], 0) k), shared_ids = []\<rparr>, rt_next = 0,
      rt_handlers = (case msg_handler of None \<Rightarrow> [] | Some h \<Rightarrow> [h]), rt_cache = [], rt_protected = {},
      rt_idle = None, rt_file = file, rt_ticks = 0, rt_draws = 0\<rparr>"

definition seed_af :: "env \<Rightarrow> int \<Rightarrow> (router, unit) py" where
  "seed_af R a =
     py_when (a \<in> set (supported (net R)))
       (py_bind (py_get rt_servers) (\<lambda>servers. case map_of servers a of
          None \<Rightarrow> py_raise KeyError
        | Some hosts \<Rightarrow> py_for hosts (\<lambda>(h, sv). py_bind (ensure_client R a h (sv_port sv)) (\<lambda>_. py_return ()))))"

text \<open>\<open>servers or get_mqtt_server_list()\<close>\<close>

definition own_servers :: "env \<Rightarrow> servers option \<Rightarrow> servers" where
  "own_servers R servers = (case servers of
     Some (s # ss) \<Rightarrow> s # ss
   | _ \<Rightarrow> get_mqtt_server_list (net R) (infra_v4 R) (infra_v6 R))"

definition Router_init :: "env \<Rightarrow> keypair \<Rightarrow> servers option \<Rightarrow> nat option \<Rightarrow> json \<Rightarrow> bool \<Rightarrow> unit res \<times> router" where
  "Router_init R k servers msg_handler file has_clock =
     (let r = empty_router R k (own_servers R servers) msg_handler file
      in if \<not> has_clock then (Inl (ValueError ''Router: get_time is required''), r)
         else py_for [ip4 (net R), ip6 (net R)] (seed_af R) r)"

definition router_add_msg_handler :: "nat \<Rightarrow> router \<Rightarrow> router" where
  "router_add_msg_handler h r =
     (let p = rt_pool r
      in r\<lparr>rt_handlers := rt_handlers r @ [h],
           rt_pool := p\<lparr>members := (\<lambda>i. if i \<in> set (client_ids (rt_clients r)) then add_msg_handler h (members p i)
             else members p i)\<rparr>\<rparr>)"

section \<open>The cache of discovered clients\<close>

definition cache_clients :: "env \<Rightarrow> string \<Rightarrow> nat list \<Rightarrow> (router, unit) py" where
  "cache_clients R pub_key_hex clients =
     py_bind (rt_time R) (\<lambda>now.
     py_modify (\<lambda>r. r\<lparr>rt_cache := AList.update pub_key_hex (now, clients) (rt_cache r)\<rparr>))"

text \<open>The stale keys are collected first, then deleted.\<close>

definition evict_client_from_cache :: "nat \<Rightarrow> router \<Rightarrow> router" where
  "evict_client_from_cache i r =
     (let stale_keys = map fst (filter (\<lambda>(_, _, clients). i \<in> set clients) (rt_cache r))
      in r\<lparr>rt_cache := fold AList.delete stale_keys (rt_cache r)\<rparr>)"

section \<open>Discovery over the router's pool\<close>

definition discover :: "env \<Rightarrow> string \<Rightarrow> hint list \<Rightarrow> (router, nat list) py" where
  "discover R dest_pub_hex hints = (\<lambda>r.
     on_pool (get_dest_clients (own R) (each R) (net R) dest_pub_hex (rt_servers r) (rt_clients r) hints) r)"

end
