(* ===== verification/Smart_Pipe.thy ===== *)
theory Smart_Pipe
  imports Router_State
begin

text \<open>
  The smart pipe (\<open>smart_pipe.py\<close>): it finds clients through which a destination can be
  reached, first by the brokers the destination has named, then by discovery, and sends a
  message through all of them until the first acknowledgement.
\<close>

section \<open>State\<close>

text \<open>A hint broker is a dictionary read with \<open>get\<close>, so each field may be missing.\<close>

record hint_broker =
  hb_af :: "int option"
  hb_host :: "string option"
  hb_port :: "int option"

record smart_pipe =
  sp_dest :: string
  sp_clients :: "nat list"
  sp_hints :: "hint_broker list"

definition SmartPipe :: "string \<Rightarrow> nat list option \<Rightarrow> hint_broker list option \<Rightarrow> smart_pipe" where
  "SmartPipe dest_pub_hex clients hint_brokers =
     \<lparr>sp_dest = dest_pub_hex,
      sp_clients = (case clients of None \<Rightarrow> [] | Some cs \<Rightarrow> cs),
      sp_hints = (case hint_brokers of None \<Rightarrow> [] | Some hs \<Rightarrow> hs)\<rparr>"

section \<open>Connecting\<close>

text \<open>\<open>if af is None or not host or not port: continue\<close>\<close>

definition hint_dest :: "hint_broker \<Rightarrow> (int \<times> string \<times> int) option" where
  "hint_dest b = (case (hb_af b, hb_host b, hb_port b) of
     (Some a, Some h, Some p) \<Rightarrow> if h = [] \<or> p = 0 then None else Some (a, h, p)
   | _ \<Rightarrow> None)"

fun hint_clients :: "env \<Rightarrow> hint_broker list \<Rightarrow> nat list \<Rightarrow> (router, nat list) py" where
  "hint_clients R [] to_try = py_return to_try"
| "hint_clients R (b # bs) to_try = (case hint_dest b of
     None \<Rightarrow> hint_clients R bs to_try
   | Some (a, h, p) \<Rightarrow>
       py_bind (ensure_client R a h p) (\<lambda>client.
       hint_clients R bs (case client of None \<Rightarrow> to_try | Some i \<Rightarrow> to_try @ [i])))"

text \<open>
  The connects of a gather run concurrently over different clients; here they run one after
  another. With \<open>return_exceptions=True\<close> an exception is a result that is not the client.
\<close>

fun try_all :: "env \<Rightarrow> nat list \<Rightarrow> (router, nat list) py" where
  "try_all R [] = py_return []"
| "try_all R (i # is) =
     py_bind (py_except (on_pool (on_client i (try_client (each R i)))) (\<lambda>_. True) (py_return False)) (\<lambda>ok.
     py_bind (try_all R is) (\<lambda>out.
     py_return (if ok then i # out else out)))"

definition resolve_hint_clients :: "env \<Rightarrow> smart_pipe \<Rightarrow> (router, nat list) py" where
  "resolve_hint_clients R sp = py_bind (hint_clients R (sp_hints sp) []) (try_all R)"

definition attach :: "nat \<Rightarrow> nat list \<Rightarrow> router \<Rightarrow> router" where
  "attach msg_cb clients r =
     (let p = rt_pool r
      in r\<lparr>rt_pool := p\<lparr>members := (\<lambda>i. if i \<in> set clients then add_msg_handler msg_cb (members p i) else members p i)\<rparr>\<rparr>)"

definition sp_connect :: "env \<Rightarrow> smart_pipe \<Rightarrow> nat option \<Rightarrow> (router, smart_pipe) py" where
  "sp_connect R sp msg_cb =
     py_bind
       (if sp_clients sp \<noteq> [] then py_return (sp_clients sp)
        else
          py_bind (if sp_hints sp = [] then py_return [] else resolve_hint_clients R sp) (\<lambda>clients.
          if clients \<noteq> [] then py_return clients else discover R (sp_dest sp) []))
       (\<lambda>clients.
        py_seq (py_modify (case msg_cb of None \<Rightarrow> id | Some h \<Rightarrow> attach h clients))
        (py_return (sp\<lparr>sp_clients := clients\<rparr>)))"

section \<open>Sending\<close>

fun msg_len :: "pyval \<Rightarrow> nat res" where
  "msg_len PyNone = Inl TypeError"
| "msg_len (PyStr s) = Inr (length s)"
| "msg_len (PyBytes b) = Inr (length b)"

text \<open>The message is queued on every client that takes it; the rest is logged and skipped.\<close>

fun queue_all :: "env \<Rightarrow> pyval \<Rightarrow> string \<Rightarrow> string \<Rightarrow> nat list \<Rightarrow> (router, (nat \<times> nat) list) py" where
  "queue_all R msg dest msg_id_hex [] = py_return []"
| "queue_all R msg dest msg_id_hex (i # is) =
     py_bind
       (py_except
         (py_bind (on_pool (on_client i (queue_msg (each R i) msg dest (Some msg_id_hex) MSG None)))
           (\<lambda>(_, ack_msg). py_return [(i, ack_msg)]))
         (\<lambda>_. True) (py_return []))
       (\<lambda>task. py_bind (queue_all R msg dest msg_id_hex is) (\<lambda>tasks. py_return (task @ tasks)))"

text \<open>
  While the send waits, the clients go on: their dispatchers, as long as they run, take turns (with
  the time of the last ping), and chunks arrive. The exceptions of either stay in their tasks; one
  of a turn is the end of the dispatcher.
\<close>

fun happen :: "lib \<Rightarrow> happening \<Rightarrow> (client, unit) py" where
  "happen L (Turn last_ping) = py_bind (py_get dispatcher_task) (\<lambda>t.
     py_when (t = Some Running) (py_except
       (py_bind (py_get republish_duration) (\<lambda>d. py_bind (dispatch_turn L d 2 10 False last_ping) (\<lambda>_. py_return ())))
       (\<lambda>_. True) (py_modify dispatcher_ended)))"
| "happen L (Chunk b) = py_except (mqtt_packet_reader L b) (\<lambda>_. True) (py_return ())"

definition let_happen :: "env \<Rightarrow> nat \<Rightarrow> (nat \<times> nat) list \<Rightarrow> (router, unit) py" where
  "let_happen R n tasks = py_for tasks (\<lambda>(i, _).
     on_pool (on_client i (py_for (during R n i) (happen (each R i)))))"

text \<open>
  The outcome of the waiting: an acknowledgement that has come ends it with success; a client
  without one has timed out.
\<close>

definition some_acked :: "(nat \<times> nat) list \<Rightarrow> router \<Rightarrow> bool" where
  "some_acked tasks r = list_ex (\<lambda>(i, f). future_done f (rt_client i r)) tasks"

definition dequeue_all :: "string \<Rightarrow> nat list \<Rightarrow> (router, unit) py" where
  "dequeue_all msg_id_hex clients =
     py_for clients (\<lambda>i. on_pool (on_client i (dequeue_msg msg_id_hex None MSG)))"

definition fresh_msg_id :: "env \<Rightarrow> (router, string) py" where
  "fresh_msg_id R = (\<lambda>r. (Inr (to_h (own R) (rand_b (own R) (rt_draws r) 32)), r\<lparr>rt_draws := rt_draws r + 1\<rparr>))"

definition sp_send :: "env \<Rightarrow> smart_pipe \<Rightarrow> pyval \<Rightarrow> (router, nat) py" where
  "sp_send R sp msg =
     py_bind (py_get rt_draws) (\<lambda>n.
     py_bind (fresh_msg_id R) (\<lambda>msg_id_hex.
     py_bind (queue_all R msg (sp_dest sp) msg_id_hex (sp_clients sp)) (\<lambda>tasks.
     py_finally
       (py_seq (let_happen R n tasks)
       (py_bind (py_get (some_acked tasks)) (\<lambda>acked.
        if acked then py_lift (msg_len msg) else py_return 0)))
       (dequeue_all msg_id_hex (sp_clients sp)))))"

definition sp_close :: "smart_pipe \<Rightarrow> router \<Rightarrow> router" where
  "sp_close sp r = fold evict_client_from_cache (sp_clients sp) r"

text \<open>\<open>async with pipe\<close>\<close>

definition sp_aenter :: "env \<Rightarrow> smart_pipe \<Rightarrow> (router, smart_pipe) py" where
  "sp_aenter R sp = sp_connect R sp None"

definition sp_aexit :: "smart_pipe \<Rightarrow> (router, bool) py" where
  "sp_aexit sp = py_seq (py_modify (sp_close sp)) (py_return False)"

end
