(* ===== verification/Router.thy ===== *)
theory Router
  imports Smart_Pipe
begin

text \<open>
  The router (\<open>router.py\<close>): it starts the clients on which this node receives, opens pipes to
  destinations, closes clients that are not used, and closes them all in the end.
\<close>

section \<open>Starting\<close>

definition start :: "env \<Rightarrow> (router, nat list) py" where
  "start R =
     py_bind (py_get (\<lambda>r. load_for (parse_int R) (public_key_hex (rt_kp r)) (rt_file r))) (\<lambda>loaded.
     py_bind (py_lift loaded) (\<lambda>cached_hints.
     py_bind (py_get (\<lambda>r. public_key_hex (rt_kp r))) (\<lambda>own_key.
     py_bind (discover R own_key cached_hints) (\<lambda>clients.
     py_seq (py_modify (\<lambda>r. r\<lparr>rt_protected := rt_protected r \<union> set clients\<rparr>))
     (py_bind (py_get (\<lambda>r. List.map_filter (\<lambda>i. client_to_hint (rt_client i r)) clients)) (\<lambda>hints_to_store.
      py_seq (\<lambda>r. case store_for (write_exn R) own_key hints_to_store (wall_clock R) (rt_file r) of
          (x, file) \<Rightarrow> (x, r\<lparr>rt_file := file\<rparr>))
      (py_seq (cache_clients R own_key clients)
      (py_seq (py_modify (\<lambda>r. r\<lparr>rt_idle := Some Running\<rparr>))
      (py_return clients)))))))))"

section \<open>Closing idle clients\<close>

definition IDLE_CLIENT_TIMEOUT :: real where
  "IDLE_CLIENT_TIMEOUT = 600"

text \<open>The time a client was last active: \<open>last_send\<close>, else \<open>last_connect\<close> if it is set and not 0, else now.\<close>

definition last_active :: "real \<Rightarrow> client \<Rightarrow> real" where
  "last_active now c = (case last_send c of
     Some t \<Rightarrow> t
   | None \<Rightarrow> (case last_connect c of Some t \<Rightarrow> if t = 0 then now else t | None \<Rightarrow> now))"

text \<open>
  After \<open>close\<close>, the client is made usable again; its session state is reset and it leaves the
  cache.
\<close>

definition reuse :: "client \<Rightarrow> client" where
  "reuse c = (client_reset_session_state (c\<lparr>is_closed := False\<rparr>))\<lparr>last_send := None\<rparr>"

text \<open>
  A \<open>for\<close> loop over a dictionary: before each step the iterator raises \<open>RuntimeError\<close> if the
  dictionary has not the size it had at first.
\<close>

fun dict_for :: "('s \<Rightarrow> nat) \<Rightarrow> nat \<Rightarrow> 'k list \<Rightarrow> ('k \<Rightarrow> ('s, unit) py) \<Rightarrow> ('s, unit) py" where
  "dict_for sz n [] f = py_bind (py_get sz) (\<lambda>m. py_check (m = n) RuntimeError)"
| "dict_for sz n (k # ks) f =
     py_bind (py_get sz) (\<lambda>m. py_seq (py_check (m = n) RuntimeError) (py_seq (f k) (dict_for sz n ks f)))"

text \<open>
  \<open>for af in self.clients: for host in self.clients[af]\<close>. The table has its families from the
  constructor on; hosts are added to a family, at its end, and never removed.
\<close>

definition hosts_at :: "nat \<Rightarrow> router \<Rightarrow> (string \<times> nat) list" where
  "hosts_at k r = snd (rt_clients r ! k)"

definition for_clients :: "(nat \<Rightarrow> (router, unit) py) \<Rightarrow> (router, unit) py" where
  "for_clients f =
     py_bind (py_get (\<lambda>r. length (rt_clients r))) (\<lambda>n.
     py_for [0..<n] (\<lambda>k.
       py_bind (py_get (hosts_at k)) (\<lambda>hosts.
       dict_for (\<lambda>r. length (hosts_at k r)) (length hosts) (map snd hosts) f)))"

text \<open>While a client is closed other tasks run: what they do to the router is \<open>others\<close>.\<close>

definition close_if_idle :: "env \<Rightarrow> (nat \<Rightarrow> router \<Rightarrow> router) \<Rightarrow> real \<Rightarrow> nat \<Rightarrow> (router, unit) py" where
  "close_if_idle R others now i =
     py_bind (py_get (\<lambda>r. i \<in> rt_protected r)) (\<lambda>protected.
     py_bind (py_get (rt_client i)) (\<lambda>c.
     if protected \<or> dispatcher_task c = None then py_return ()
     else
       let active = last_active now c
       in py_seq (on_pool (on_client i (py_modify (\<lambda>c. c\<lparr>last_send := Some active\<rparr>))))
          (py_when (\<not> now - active < IDLE_CLIENT_TIMEOUT)
            (py_seq (on_pool (on_client i (py_except (close (each R i)) is_OSError (py_return ()))))
            (py_seq (py_modify (others i))
            (py_seq (on_pool (on_client i (py_modify reuse)))
            (py_modify (evict_client_from_cache i))))))))"

definition idle_pass :: "env \<Rightarrow> (nat \<Rightarrow> router \<Rightarrow> router) \<Rightarrow> (router, unit) py" where
  "idle_pass R others = py_bind (rt_time R) (\<lambda>now. for_clients (close_if_idle R others now))"

text \<open>A pass during which no other task touches the router.\<close>

definition close_idle_clients :: "env \<Rightarrow> (router, unit) py" where
  "close_idle_clients R = idle_pass R (\<lambda>_ r. r)"

text \<open>
  The background loop, given what happens in each of its turns: the task is cancelled in its
  sleep, or other tasks do something while it sleeps and something while it closes clients. The
  value says whether the loop has ended; otherwise it sleeps on.
\<close>

definition IDLE_CLIENT_INTERVAL :: real where
  "IDLE_CLIENT_INTERVAL = 60"

fun idle_closer_loop :: "env \<Rightarrow> ((router \<Rightarrow> router) \<times> (nat \<Rightarrow> router \<Rightarrow> router)) option list \<Rightarrow> (router, bool) py" where
  "idle_closer_loop R [] r = (Inr False, r)"
| "idle_closer_loop R (None # naps) r = (Inr True, r)"
| "idle_closer_loop R (Some (asleep, others) # naps) r = (case idle_pass R others (asleep r) of
     (Inr _, r') \<Rightarrow> idle_closer_loop R naps r'
   | (Inl e, r') \<Rightarrow>
       if e = CancelledError then (Inr True, r')
       else if is_OSError e then idle_closer_loop R naps r'
       else (Inl e, r'))"

section \<open>Pipes to destinations\<close>

definition cached_clients_for :: "string \<Rightarrow> real \<Rightarrow> real \<Rightarrow> router \<Rightarrow> nat list option" where
  "cached_clients_for dest_pub_hex now expiry r = (case map_of (rt_cache r) dest_pub_hex of
     None \<Rightarrow> None
   | Some (updated, clients) \<Rightarrow> if now - updated < expiry then Some clients else None)"

definition router_pipe ::
  "env \<Rightarrow> string \<Rightarrow> bool \<Rightarrow> real \<Rightarrow> hint_broker list option \<Rightarrow> (router, smart_pipe) py" where
  "router_pipe R dest_pub_hex use_cache expiry hint_brokers =
     py_bind (rt_time R) (\<lambda>now.
     py_bind (py_get (\<lambda>r. if use_cache then cached_clients_for dest_pub_hex now expiry r else None)) (\<lambda>cached_clients.
     py_bind (sp_connect R (SmartPipe dest_pub_hex cached_clients hint_brokers) None) (\<lambda>smart_pipe.
     py_seq (py_when (use_cache \<and> cached_clients = None) (cache_clients R dest_pub_hex (sp_clients smart_pipe)))
     (py_return smart_pipe))))"

section \<open>Closing\<close>

definition close_pass :: "env \<Rightarrow> (nat \<Rightarrow> router \<Rightarrow> router) \<Rightarrow> (router, unit) py" where
  "close_pass R others =
     py_seq (py_modify (\<lambda>r. r\<lparr>rt_idle := None\<rparr>))
     (for_clients (\<lambda>i.
        py_seq (on_pool (on_client i (py_seq (py_modify (\<lambda>c. c\<lparr>is_closed := False\<rparr>)) (close (each R i)))))
        (py_modify (others i))))"

definition router_close :: "env \<Rightarrow> (router, unit) py" where
  "router_close R = close_pass R (\<lambda>_ r. r)"

text \<open>\<open>async with router\<close>\<close>

definition router_aenter :: "env \<Rightarrow> (router, unit) py" where
  "router_aenter R = py_bind (start R) (\<lambda>_. py_return ())"

definition router_aexit :: "env \<Rightarrow> (router, bool) py" where
  "router_aexit R = py_seq (router_close R) (py_return False)"

section \<open>Loops that nobody disturbs\<close>

text \<open>When the body leaves the table of clients alone, the loop is over the clients there were at first.\<close>

lemma dict_for_same:
  assumes "\<And>k. leaves g (f k)" and "\<And>s s'. g s = g s' \<Longrightarrow> sz s = sz s'" and "sz s = n"
  shows "dict_for sz n ks f s = py_for ks f s"
  using assms(3)
proof (induction ks arbitrary: s)
  case (Cons k ks)
  have "sz (snd (f k s)) = n" using assms(2) [OF leavesD [OF assms(1)]] Cons.prems by simp
  with Cons show ?case by (cases "f k s") (simp add: py_simps split: sum.split)
qed (simp add: py_simps)

lemma for_clients_same:
  assumes "\<And>i. leaves rt_clients (f i)"
  shows "for_clients f r = py_for (client_ids (rt_clients r)) f r"
proof -
  let ?turn = "\<lambda>k. py_bind (py_get (hosts_at k)) (\<lambda>hosts. dict_for (\<lambda>r. length (hosts_at k r)) (length hosts) (map snd hosts) f)"
  have size: "length (hosts_at k s) = length (hosts_at k s')" if "rt_clients s = rt_clients s'" for k s s'
    using that by (simp add: hosts_at_def)
  have turn: "?turn k s = py_for (map snd (hosts_at k s)) f s" for k s
    unfolding py_bind_app py_get_app by (simp add: dict_for_same [OF assms size])
  have app: "py_for (xs @ ys) f s = py_seq (py_for xs f) (py_for ys f) s" for xs ys s
    by (induction xs arbitrary: s) (auto simp: py_simps split: prod.split sum.split)
  have "py_for ks ?turn s = py_for (concat (map (\<lambda>k. map snd (hosts_at k s)) ks)) f s" for ks s
  proof (induction ks arbitrary: s)
    case (Cons k ks)
    let ?here = "py_for (map snd (hosts_at k s)) f"
    have "rt_clients (snd (?here s)) = rt_clients s" using leavesD [OF leaves_for [OF assms]] .
    then have same: "hosts_at j (snd (?here s)) = hosts_at j s" for j by (simp add: hosts_at_def)
    have "py_for (k # ks) ?turn s = py_seq ?here (py_for ks ?turn) s"
      using turn [of k s] by (simp add: py_seq_app)
    also have "\<dots> = py_seq ?here (py_for (concat (map (\<lambda>k. map snd (hosts_at k s)) ks)) f) s"
    proof (cases "?here s")
      case (Pair x s1)
      with same have "hosts_at j s1 = hosts_at j s" for j by simp
      with Pair Cons.IH [of s1] show ?thesis by (simp add: py_seq_app split: sum.split)
    qed
    finally show ?case by (simp add: app)
  qed simp
  moreover have "concat (map (\<lambda>k. map snd (hosts_at k r)) [0..<length (rt_clients r)]) = client_ids (rt_clients r)"
  proof -
    have "map (\<lambda>k. map snd (hosts_at k r)) [0..<length (rt_clients r)] = map (\<lambda>(_, hosts). map snd hosts) (rt_clients r)"
      by (rule nth_equalityI) (simp_all add: hosts_at_def case_prod_unfold)
    then show ?thesis by (simp only: client_ids_def)
  qed
  ultimately show ?thesis by (simp add: for_clients_def py_simps)
qed

end
