(* ===== verification/Members.thy ===== *)
theory Members
  imports Session Router
begin

text \<open>
  What a router does to its clients, one by one: every operation of \<open>router.py\<close> and
  \<open>smart_pipe.py\<close> takes a client through steps of its own, and through a few assignments to its
  attributes from outside. A property that these keep is kept in every pool of clients.
\<close>

section \<open>What happens to a client in a pool\<close>

inductive moves :: "lib \<Rightarrow> client \<Rightarrow> client \<Rightarrow> bool" for L where
  Stay: "moves L c c"
| Step: "client_step L c c' \<Longrightarrow> moves L c c'"
| Used: "moves L c (c\<lparr>last_send := t\<rparr>)"
| Tried: "moves L c (c\<lparr>last_connect := t\<rparr>)"
| Asked: "moves L c (c\<lparr>ticks := k\<rparr>)"
| Open: "moves L c (c\<lparr>is_closed := False\<rparr>)"
| Shared: "moves L c (c\<lparr>recv_msg_ids := ids\<rparr>)"
| Reset: "moves L c (client_reset_session_state c)"
| Then: "moves L c c' \<Longrightarrow> moves L c' c'' \<Longrightarrow> moves L c c''"

text \<open>A computation on a client that is made of such moves.\<close>

definition moving :: "lib \<Rightarrow> (client, 'a) py \<Rightarrow> bool" where
  "moving L m \<longleftrightarrow> (\<forall>c. moves L c (snd (m c)))"

lemma movingI: "(\<And>c. moves L c (snd (m c))) \<Longrightarrow> moving L m"
  by (simp add: moving_def)

lemma movingD: "moving L m \<Longrightarrow> m c = (r, c') \<Longrightarrow> moves L c c'"
  unfolding moving_def by (metis snd_conv)

lemma moving_snd: "moving L m \<Longrightarrow> moves L c (snd (m c))"
  by (simp add: moving_def)

named_theorems moving_rules \<open>computations made of moves\<close>

lemma moving_return [moving_rules]: "moving L (py_return x)"
  and moving_raise [moving_rules]: "moving L (py_raise e)"
  and moving_get [moving_rules]: "moving L (py_get f)"
  by (simp_all add: moving_def py_simps Stay)

lemma moving_modify: "(\<And>c. moves L c (f c)) \<Longrightarrow> moving L (py_modify f)"
  by (simp add: moving_def py_simps)

lemma moving_bind [moving_rules]: "moving L m \<Longrightarrow> (\<And>x. moving L (f x)) \<Longrightarrow> moving L (py_bind m f)"
  by (rule movingI) (auto simp: py_simps split: prod.split sum.split dest: movingD intro: Then [OF movingD moving_snd])

lemma moving_seq [moving_rules]: "moving L m \<Longrightarrow> moving L n \<Longrightarrow> moving L (py_seq m n)"
  unfolding py_seq_def by (rule moving_bind)

lemma moving_except [moving_rules]: "moving L m \<Longrightarrow> moving L h \<Longrightarrow> moving L (py_except m p h)"
  by (rule movingI) (auto simp: py_simps split: prod.split sum.split dest: movingD intro: Then [OF movingD moving_snd])

lemma moving_if [moving_rules]: "moving L m \<Longrightarrow> moving L n \<Longrightarrow> moving L (if b then m else n)"
  by simp

lemma moving_when [moving_rules]: "(b \<Longrightarrow> moving L m) \<Longrightarrow> moving L (py_when b m)"
  by (simp add: py_when_def moving_return)

lemma moving_for [moving_rules]: "(\<And>x. moving L (f x)) \<Longrightarrow> moving L (py_for xs f)"
  by (induction xs) (auto intro: moving_rules)

lemma moving_step: "(\<And>c r c'. m c = (r, c') \<Longrightarrow> client_step L c c') \<Longrightarrow> moving L m"
  by (rule movingI) (metis Step prod.collapse)

lemma moving_ops [moving_rules]:
  "moving L (queue_msg L msg dest qid t seq)" "moving L (dequeue_msg q i t)" "moving L (mqtt_packet_reader L x)"
  "moving L (dispatch_turn L d interval ka ia lp)" "moving L (close L)" "moving L (connect L outside d ka)"
  by (rule moving_step, erule client_step.intros)+

lemma moving_ended: "moving L (py_modify dispatcher_ended)"
  by (rule moving_modify) (rule Step [OF Ended])

lemma moving_happen: "moving L (happen L h)"
  by (cases h) (auto intro!: moving_rules moving_ended)

lemma moving_try: "moving L (try_client L)"
proof -
  have "moving L (get_time L)" by (rule movingI) (simp add: get_time_def Asked)
  moreover have "moving L (py_modify (\<lambda>c. c\<lparr>last_connect := Some t\<rparr>))" for t by (rule moving_modify) (rule Tried)
  ultimately show ?thesis unfolding try_client_def by (intro moving_rules)
qed

lemma moving_reuse: "moving L (py_modify reuse)"
  unfolding reuse_def by (rule moving_modify) (blast intro: Then Open Reset Used)

section \<open>Properties of one client, kept in a pool\<close>

locale member = session P L for P and L +
  assumes tick_ok: "P c \<Longrightarrow> P (c\<lparr>ticks := y0\<rparr>)" and used_ok: "P c \<Longrightarrow> P (c\<lparr>last_send := y1\<rparr>)" and shared_ok: "P c \<Longrightarrow> P (c\<lparr>recv_msg_ids := y2\<rparr>)"
    and drop_session_ok: "P c \<Longrightarrow> P (client_reset_session_state c)"
begin

lemma every_move: "moves L c c' \<Longrightarrow> P c \<Longrightarrow> P c'"
  by (induction rule: moves.induct) (auto intro: every_step used_ok shared_ok failed_ok tick_ok closed_ok drop_session_ok)

end

lemma on_client_moves:
  assumes "moving L m"
  shows "\<exists>c' ids. moves L (members p i) c' \<and> snd (on_client i m p) = p\<lparr>members := (members p)(i := c'), shared_ids := ids\<rparr>"
proof -
  obtain r c' where run: "m ((members p i)\<lparr>recv_msg_ids := shared_ids p\<rparr>) = (r, c')" by fastforce
  have "moves L (members p i) c'" by (rule Then [OF Shared movingD [OF assms run]])
  with run show ?thesis by (auto simp: on_client_def)
qed

section \<open>The properties at hand\<close>

interpretation inv_member: member client_inv L for L
proof
  show "client_inv (client_reset_session_state c)" if "client_inv c" for c using that by (rule client_reset_inv)
qed simp_all

interpretation pipes_member: member pipes_ok L for L
  by unfold_locales (simp_all add: pipes_ok_def client_reset_session_state_def)

lemma settled_reset: "settled_with w i c \<Longrightarrow> settled_with w i (client_reset_session_state c)"
  by (auto simp: settled_with_def client_reset_session_state_def intro: cancel_futures_stable)

interpretation settled_member: member "settled_with w i" L for w i L
  by unfold_locales (simp_all add: settled_with_def settled_reset [unfolded settled_with_def])

text \<open>A client for the broker \<open>(a, h)\<close> and the key pair \<open>k\<close> that calls the handlers \<open>hs\<close>.\<close>

definition serves :: "int \<Rightarrow> string \<Rightarrow> keypair \<Rightarrow> nat set \<Rightarrow> client \<Rightarrow> bool" where
  "serves a h k hs c \<longleftrightarrow> af c = a \<and> host c = h \<and> kp c = k \<and> hs \<subseteq> set (msg_handlers c)"

lemma serves_life: "life c' = life c \<Longrightarrow> serves a h k hs c' = serves a h k hs c"
  by (simp add: life_def serves_def)

lemma serves_kept: "leaves life m \<Longrightarrow> keeps (serves a h k hs) m"
  by (rule keepsI) (use serves_life leavesD in metis)

interpretation serving: session "serves a h k hs" L for a h k hs L
proof
  show "keeps (serves a h k hs) (get_time L)" by (rule serves_kept) (rule life.free_steps)
  show "keeps (serves a h k hs) (mqtt_packet_reader L x)" for x by (rule serves_kept [OF life.free_reader])
  show "keeps (serves a h k hs) (republish_entry L key i now interval d ignore_acked)" for key i now interval d ignore_acked
    by (rule serves_kept) (simp add: leaves_def life.fixed.republishing)
  show "keeps (serves a h k hs) (send_on L p x)" for p x by (rule serves_kept) (rule life.free_steps)
  show "keeps (serves a h k hs) (mqtt_connect L ka)" for ka by (rule serves_kept [OF life_mqtt_connect])
  show "keeps (serves a h k hs) (queue_msg L msg dest qid t seq)" "keeps (serves a h k hs) (queue_msg_async L msg dest qid t seq)"
    "keeps (serves a h k hs) (send_probe L dest qid)" for msg dest qid t seq
    by (rule serves_kept, simp add: leaves_def life.fixed.sending life.fixed.probing)+
  show "keeps (serves a h k hs) (dequeue_msg q i t)" for q i t
    by (rule serves_kept) (simp add: leaves_def life.fixed.dequeuing)
  show "serves a h k hs (reset_session_state c)" if "serves a h k hs c" for c
    using that serves_life [OF life.free_reset] by blast
qed (simp_all add: serves_def prune_msg_ids_def Let_def pipe_close_def add_msg_handler_def subset_insertI2)

interpretation serving_member: member "serves a h k hs" L for a h k hs L
  by unfold_locales (simp_all add: serves_def client_reset_session_state_def)

text \<open>What goes out does not touch the stream buffer.\<close>

lemma unbuffered_leaves: "unbuffered m \<Longrightarrow> leaves buf m"
proof (rule leavesI)
  fix c assume "unbuffered m"
  then have "m (set_buf (buf c) c) = (fst (m c), set_buf (buf c) (snd (m c)))" unfolding commutes_def by blast
  then have "snd (m c) = set_buf (buf c) (snd (m c))" by simp (metis snd_conv)
  then show "buf (snd (m c)) = buf c" by (metis set_buf_sel(1))
qed

lemma buf_kept: "leaves buf (publish L topic payload dup)" "leaves buf (subscribe L topic)" "leaves buf (safe_pipe_send L b)"
  "leaves buf (queue_msg L msg dest q t seq)"
proof -
  show "leaves buf (publish L topic payload dup)" by (intro unbuffered_leaves allI unbuffered_publish)
  show "leaves buf (subscribe L topic)" unfolding subscribe_def by (intro unbuffered_leaves allI commutes_rules)
  show "leaves buf (safe_pipe_send L b)" by (rule leavesI) (simp add: safe_pipe_send_app split: option.split)
  show "leaves buf (queue_msg L msg dest q t seq)" unfolding queue_msg_def by (intro unbuffered_leaves allI commutes_rules)
qed

end
