(* ===== verification/Router_System.thy ===== *)
theory Router_System
  imports Members
begin

text \<open>
  The router as a system: what every operation of \<open>router.py\<close> and \<open>smart_pipe.py\<close> keeps, as a
  locale over a property of the router, and the invariant that holds from its construction on.
\<close>

section \<open>Steps of a router\<close>

text \<open>While clients are closed the other tasks take steps of the router of their own.\<close>

inductive router_step :: "env \<Rightarrow> router \<Rightarrow> router \<Rightarrow> bool" and router_run :: "env \<Rightarrow> router \<Rightarrow> router \<Rightarrow> bool" for R where
  AddHandler: "router_step R r (router_add_msg_handler h r)"
| Ensure: "ensure_client R a h p r = (x, r') \<Longrightarrow> router_step R r r'"
| Start: "start R r = (x, r') \<Longrightarrow> router_step R r r'"
| Pipe: "router_pipe R dest use_cache expiry hints r = (x, r') \<Longrightarrow> router_step R r r'"
| Connect: "sp_connect R sp cb r = (x, r') \<Longrightarrow> router_step R r r'"
| Send: "sp_send R sp msg r = (x, r') \<Longrightarrow> router_step R r r'"
| Release: "router_step R r (sp_close sp r)"
| CloseIdle: "(\<And>i r. router_run R r (others i r)) \<Longrightarrow> idle_pass R others r = (x, r') \<Longrightarrow> router_step R r r'"
| Close: "(\<And>i r. router_run R r (others i r)) \<Longrightarrow> close_pass R others r = (x, r') \<Longrightarrow> router_step R r r'"
| Happen: "on_pool (on_client i (happen (each R i) h)) r = (x, r') \<Longrightarrow> router_step R r r'"
| Stay: "router_run R r r"
| Step: "router_run R r r' \<Longrightarrow> router_step R r' r'' \<Longrightarrow> router_run R r r''"

lemma router_step_idle: "close_idle_clients R r = (x, r') \<Longrightarrow> router_step R r r'"
  and router_step_close: "router_close R r = (x, r') \<Longrightarrow> router_step R r r'"
  unfolding close_idle_clients_def router_close_def by (rule CloseIdle Close, rule Stay, assumption)+

lemma router_run_trans: "router_run R r r' \<Longrightarrow> router_run R r0 r \<Longrightarrow> router_run R r0 r'"
  by (induction rule: router_step_router_run.inducts(2) [where ?P1.0 = "\<lambda>_ _. True"]) (auto intro: Step)

text \<open>The background loop only takes such steps, if the other tasks do.\<close>

lemma idle_closer_runs:
  assumes "\<And>asleep others i s. Some (asleep, others) \<in> set naps \<Longrightarrow> router_run R s (asleep s) \<and> router_run R s (others i s)"
  shows "router_run R r (snd (idle_closer_loop R naps r))"
  using assms
proof (induction R naps r rule: idle_closer_loop.induct)
  case (3 R asleep others naps r)
  obtain x r' where turn: "idle_pass R others (asleep r) = (x, r')" by fastforce
  have now: "router_run R s (asleep s) \<and> router_run R s (others i s)" for i s by (rule "3.prems") simp
  with turn have "router_step R (asleep r) r'" by (intro CloseIdle) auto
  then have first: "router_run R r r'" using now Step by blast
  show ?case
  proof (cases x)
    case (Inl e)
    with turn first 3 show ?thesis by (auto intro: router_run_trans [OF _ first])
  next
    case (Inr u)
    with turn 3 show ?thesis by (auto intro: router_run_trans [OF _ first])
  qed
qed (simp_all add: Stay)

section \<open>Properties that the operations keep\<close>

locale router_kept =
  fixes G :: "router \<Rightarrow> bool" and R :: env
  assumes client_ok: "G r \<Longrightarrow> moves (each R i) (rt_client i r) c' \<Longrightarrow>
      G (r\<lparr>rt_pool := (rt_pool r)\<lparr>members := (members (rt_pool r))(i := c'), shared_ids := ids\<rparr>\<rparr>)"
    and ensure_ok: "keeps G (ensure_client R a h p)"
    and attach_ok: "G r \<Longrightarrow> G (attach cb is r)"
    and add_handler_ok: "G r \<Longrightarrow> G (router_add_msg_handler cb r)"
    and cache_ok: "G r \<Longrightarrow> G (r\<lparr>rt_cache := AList.update k v (rt_cache r)\<rparr>)"
    and uncache_ok: "G r \<Longrightarrow> G (r\<lparr>rt_cache := AList.delete k (rt_cache r)\<rparr>)"
    and fields_ok: "G r \<Longrightarrow> G (r\<lparr>rt_protected := x1\<rparr>)" "G r \<Longrightarrow> G (r\<lparr>rt_idle := x2\<rparr>)" "G r \<Longrightarrow> G (r\<lparr>rt_file := x3\<rparr>)"
      "G r \<Longrightarrow> G (r\<lparr>rt_ticks := x4\<rparr>)" "G r \<Longrightarrow> G (r\<lparr>rt_draws := x5\<rparr>)"
begin

lemma on_one: "moving (each R i) m \<Longrightarrow> keeps G (on_pool (on_client i m))"
proof (rule keepsI)
  fix r assume m: "moving (each R i) m" and "G r"
  from on_client_moves [OF m, of "rt_pool r" i] obtain c' ids where c': "moves (each R i) (rt_client i r) c'"
    "snd (on_client i m (rt_pool r)) = (rt_pool r)\<lparr>members := (members (rt_pool r))(i := c'), shared_ids := ids\<rparr>"
    by (auto simp: rt_client_def)
  have "snd (on_pool (on_client i m) r) = r\<lparr>rt_pool := snd (on_client i m (rt_pool r))\<rparr>"
    by (simp add: on_pool_def split: prod.split)
  with c' client_ok [OF \<open>G r\<close>] show "G (snd (on_pool (on_client i m) r))" by simp
qed

lemma pool_bind: "on_pool (py_bind m f) = py_bind (on_pool m) (\<lambda>x. on_pool (f x))"
  by (rule ext) (simp add: on_pool_def py_simps split: prod.split sum.split)

lemma pool_pure: "keeps G (on_pool (py_return x))" "keeps G (on_pool (py_lift y))"
  by (simp_all add: valid_def on_pool_def py_simps split: sum.split)

lemma time_ok: "keeps G (rt_time R)"
  by (rule keepsI) (simp add: rt_time_def fields_ok)

lemma caching: "keeps G (cache_clients R k clients)"
  unfolding cache_clients_def by (intro valid_rules time_ok cache_ok)

lemma evicting: "G r \<Longrightarrow> G (evict_client_from_cache i r)"
proof -
  have "G (r\<lparr>rt_cache := fold AList.delete ks (rt_cache r)\<rparr>)" if "G r" for ks r
    using that
  proof (induction ks arbitrary: r)
    case (Cons k ks)
    from Cons.IH [OF uncache_ok [OF Cons.prems, of k]] show ?case by simp
  qed simp
  then show "G r \<Longrightarrow> G (evict_client_from_cache i r)" by (simp add: evict_client_from_cache_def Let_def)
qed

lemma pool_cleanup: "on_pool (py_cleanup m h) = py_cleanup (on_pool m) (on_pool h)"
  and pool_finally: "on_pool (py_finally m h) = py_finally (on_pool m) (on_pool h)"
  and pool_if: "on_pool (if b then m else m') = (if b then on_pool m else on_pool m')"
  and pool_seq: "on_pool (py_seq n n') = py_seq (on_pool n) (on_pool n')"
  by (rule ext, simp add: on_pool_def py_simps py_cleanup_def py_finally_def split: prod.split sum.split)+

lemma abandoning: "keeps G (on_pool (abandon (each R) is))"
proof (induction "is")
  case (Cons i "is")
  have "keeps G (on_pool (on_client i (py_except (py_bind (try_client (each R i)) (\<lambda>_. py_return ())) (\<lambda>_. True) (py_return ()))))"
    by (intro on_one moving_rules moving_try)
  with Cons show ?case by (simp add: abandon_def pool_seq keeps_seq)
qed (simp add: abandon_def pool_pure)

lemma discovering: "keeps G (discover R dest hints)"
proof -
  have coll: "keeps G (on_pool (collect (each R) needed order acc))" for needed order acc
  proof (induction order arbitrary: acc)
    case (Cons i order)
    then show ?case unfolding collect.simps pool_bind pool_cleanup pool_if pool_seq
      by (intro valid_rules on_one moving_try abandoning pool_pure)
  qed (simp add: pool_pure)
  have "keeps G (on_pool (walk_af (each R) D pass cm hs b))" for D pass cm hs b
    by (simp add: walk_af_def Let_def pool_pure pool_finally keeps_finally coll abandoning)
  then have walk: "keeps G (on_pool (walk_afs (each R) D pass cm hs bs))" for D pass cm hs bs
    by (induction bs) (auto simp: pool_bind pool_pure intro!: valid_rules)
  have "keeps G (on_pool (get_dest_clients L (each R) D dest sv cm hs))" for L D sv cm hs
    unfolding get_dest_clients_def retry_walk_def pool_bind
    by (intro keeps_bind pool_pure walk) (simp add: walk pool_pure pool_bind keeps_bind)
  then show ?thesis
    by (auto simp: discover_def valid_def)
qed

lemma resolving: "keeps G (resolve_hint_clients R sp)"
proof -
  have "keeps G (hint_clients R bs to_try)" for bs to_try
  proof (induction bs arbitrary: to_try)
    case (Cons b bs)
    then show ?case by (cases "hint_dest b") (auto intro!: valid_rules ensure_ok split: option.split)
  qed (auto intro: valid_rules)
  moreover have "keeps G (try_all R is)" for "is"
    by (induction "is") (auto intro!: valid_rules on_one moving_try)
  ultimately show ?thesis unfolding resolve_hint_clients_def by (intro valid_rules)
qed

lemma connecting_pipe: "keeps G (sp_connect R sp cb)"
proof -
  have cb: "keeps G (py_modify (case cb of None \<Rightarrow> id | Some h \<Rightarrow> attach h clients))" for clients
    by (rule keeps_modify) (simp add: attach_ok split: option.split)
  show ?thesis unfolding sp_connect_def
    by (intro keeps_bind keeps_seq keeps_if keeps_return cb resolving discovering)
qed

lemma sending_pipe: "keeps G (sp_send R sp msg)"
proof -
  have "keeps G (fresh_msg_id R)" by (rule keepsI) (simp add: fresh_msg_id_def fields_ok)
  moreover have "keeps G (queue_all R msg dest q is)" for dest q "is"
  proof (induction "is")
    case (Cons i "is")
    then show ?case unfolding queue_all.simps by (intro valid_rules on_one moving_rules)
  qed (simp add: valid_rules)
  moreover have "keeps G (let_happen R n tasks)" for n tasks
    unfolding let_happen_def by (intro valid_rules on_one moving_for moving_happen)
  moreover have "keeps G (dequeue_all q is)" for q "is"
    unfolding dequeue_all_def by (intro valid_rules on_one moving_rules)
  ultimately show ?thesis
    unfolding sp_send_def by (intro valid_rules)
qed

lemma starting: "keeps G (start R)"
proof -
  have "keeps G (\<lambda>r. case store_for e k bs w (rt_file r) of (x, file) \<Rightarrow> (x, r\<lparr>rt_file := file\<rparr>))" for e k bs w
    by (rule keepsI) (simp add: fields_ok split: prod.split)
  then show ?thesis
    unfolding start_def by (intro valid_rules discovering caching fields_ok)
qed

lemma over_clients: "(\<And>i. keeps G (f i)) \<Longrightarrow> keeps G (for_clients f)"
proof -
  assume f: "\<And>i. keeps G (f i)"
  have "keeps G (dict_for sz n ks f)" for sz n ks
    by (induction ks) (auto intro!: valid_rules f)
  then show ?thesis unfolding for_clients_def by (intro valid_rules)
qed

lemma idling:
  assumes "\<And>i r. G r \<Longrightarrow> G (others i r)"
  shows "keeps G (idle_pass R others)"
proof -
  have "keeps G (close_if_idle R others now i)" for now i
    unfolding close_if_idle_def Let_def
    by (intro valid_rules on_one moving_rules moving_reuse moving_modify Used evicting assms)
  then show ?thesis unfolding idle_pass_def by (intro valid_rules time_ok over_clients)
qed

lemma piping: "keeps G (router_pipe R dest use_cache expiry hints)"
  unfolding router_pipe_def by (intro valid_rules time_ok connecting_pipe caching)

lemma shutting_down:
  assumes "\<And>i r. G r \<Longrightarrow> G (others i r)"
  shows "keeps G (close_pass R others)"
  unfolding close_pass_def by (intro valid_rules over_clients on_one moving_rules moving_modify Open fields_ok assms)

lemma releasing: "G r \<Longrightarrow> G (sp_close sp r)"
proof -
  have "G (fold evict_client_from_cache is r)" if "G r" for "is" r
    using that by (induction "is" arbitrary: r) (auto simp: evicting)
  then show "G r \<Longrightarrow> G (sp_close sp r)" by (simp add: sp_close_def)
qed

theorem every_step: "router_step R r r' \<Longrightarrow> G r \<Longrightarrow> G r'"
  and every_run: "router_run R r r' \<Longrightarrow> G r \<Longrightarrow> G r'"
proof (induction rule: router_step_router_run.inducts)
  case (CloseIdle others r x r')
  then show ?case using keeps_snd [OF idling, of others r] by (metis snd_conv)
next
  case (Close others r x r')
  then show ?case using keeps_snd [OF shutting_down, of others r] by (metis snd_conv)
qed (use add_handler_ok releasing keeps_snd [OF ensure_ok] keeps_snd [OF starting] keeps_snd [OF piping]
      keeps_snd [OF connecting_pipe] keeps_snd [OF sending_pipe]
      keeps_snd [OF on_one [OF moving_happen]] in \<open>metis snd_conv\<close>)+

end

section \<open>The invariant\<close>

text \<open>
  Every client of the table is one of the clients made, is for the broker it stands under and
  for the router's key pair, and calls every handler the router knows.
\<close>

definition registry_ok :: "router \<Rightarrow> bool" where
  "registry_ok r \<longleftrightarrow> (\<forall>a h i. lookup_client (rt_clients r) a h = Some i \<longrightarrow>
     i < rt_next r \<and> serves a h (rt_kp r) (set (rt_handlers r)) (rt_client i r))"

definition clients_ok :: "router \<Rightarrow> bool" where
  "clients_ok r \<longleftrightarrow> (\<forall>i < rt_next r. client_inv (rt_client i r) \<and> pipes_ok (rt_client i r))"

text \<open>No client stands in the table twice.\<close>

definition ids_ok :: "router \<Rightarrow> bool" where
  "ids_ok r \<longleftrightarrow> distinct (client_ids (rt_clients r)) \<and> (\<forall>i \<in> set (client_ids (rt_clients r)). i < rt_next r)"

definition router_ok :: "router \<Rightarrow> bool" where
  "router_ok r \<longleftrightarrow> registry_ok r \<and> clients_ok r \<and> ids_ok r \<and> distinct (map fst (rt_cache r))"

lemma ids_new:
  "map_of cm a = Some hosts \<Longrightarrow> map_of hosts h = None \<Longrightarrow>
   mset (client_ids (AList.update a (AList.update h i hosts) cm)) = mset (client_ids cm) + {#i#}"
proof (induction cm)
  case (Cons x cm)
  have "AList.update h i hosts = hosts @ [(h, i)]" if "map_of hosts h = None" for hosts :: "(string \<times> nat) list"
    using that by (induction hosts) (auto split: if_splits)
  with Cons show ?case by (cases x) (auto simp: client_ids_def split: if_splits)
qed simp

lemma ensure_cases:
  "ensure_client R a h p r = (x, r') \<Longrightarrow>
   r' = r \<and> (x = Inr None \<and> a \<notin> set (supported (net R)) \<or> x = Inl KeyError \<and> a \<in> set (supported (net R)) \<and> map_of (rt_clients r) a = None \<or>
     (\<exists>i. x = Inr (Some i) \<and> a \<in> set (supported (net R)) \<and> lookup_client (rt_clients r) a h = Some i)) \<or>
   (\<exists>hosts. x = Inr (Some (rt_next r)) \<and> a \<in> set (supported (net R)) \<and> map_of (rt_clients r) a = Some hosts \<and> map_of hosts h = None \<and>
     r' = r\<lparr>rt_pool := (rt_pool r)\<lparr>members := (members (rt_pool r))(rt_next r := make_client a h p r)\<rparr>,
       rt_clients := AList.update a (AList.update h (rt_next r) hosts) (rt_clients r), rt_next := rt_next r + 1\<rparr>)"
  by (auto simp: ensure_client_def lookup_client_def split: if_splits option.splits)

lemma lookup_new:
  "map_of cm a = Some hosts \<Longrightarrow>
   lookup_client (AList.update a (AList.update h i hosts) cm) a' h' =
   (if a' = a \<and> h' = h then Some i else lookup_client cm a' h')"
  by (auto simp: lookup_client_def dict_simps)

lemma lookup_listed: "lookup_client cm a h = Some i \<Longrightarrow> i \<in> set (client_ids cm)"
  by (force simp: lookup_client_def client_ids_def split: option.splits dest!: map_of_SomeD)

lemma add_handlers_other:
  "msg_handlers (fold add_msg_handler hs c) = fold List.insert hs (msg_handlers c)"
  "fold add_msg_handler hs c = c\<lparr>msg_handlers := fold List.insert hs (msg_handlers c)\<rparr>"
  by (induction hs arbitrary: c) (simp_all add: add_msg_handler_def)

lemma set_fold_insert: "set (fold List.insert hs xs) = set hs \<union> set xs"
  by (induction hs arbitrary: xs) auto

lemma made_client:
  "serves a h (rt_kp r) (set (rt_handlers r)) (make_client a h p r)" "client_inv (make_client a h p r)" "pipes_ok (make_client a h p r)"
  by (simp_all add: make_client_def add_handlers_other set_fold_insert serves_def new_client_inv, simp_all add: new_client_def pipes_ok_def)

lemma pool_client [simp]:
  "rt_client j (r\<lparr>rt_pool := p\<rparr>) = members p j" "rt_client j (r\<lparr>rt_clients := t\<rparr>) = rt_client j r"
  "rt_client j (r\<lparr>rt_next := n\<rparr>) = rt_client j r" "rt_client j (r\<lparr>rt_cache := ca\<rparr>) = rt_client j r"
  "rt_client j (r\<lparr>rt_protected := x1\<rparr>) = rt_client j r" "rt_client j (r\<lparr>rt_idle := x2\<rparr>) = rt_client j r"
  "rt_client j (r\<lparr>rt_file := x3\<rparr>) = rt_client j r" "rt_client j (r\<lparr>rt_ticks := x4\<rparr>) = rt_client j r"
  "rt_client j (r\<lparr>rt_draws := x5\<rparr>) = rt_client j r" "rt_client j (r\<lparr>rt_handlers := x6\<rparr>) = rt_client j r"
  by (simp_all add: rt_client_def)

lemma ensure_router_ok: "keeps router_ok (ensure_client R a h p)"
proof (rule keepsI)
  fix r assume ok: "router_ok r"
  obtain x r' where run: "ensure_client R a h p r = (x, r')" by fastforce
  from ensure_cases [OF run] show "router_ok (snd (ensure_client R a h p r))"
  proof (elim disjE exE conjE)
    fix hosts assume new: "map_of (rt_clients r) a = Some hosts" "map_of hosts h = None"
      "r' = r\<lparr>rt_pool := (rt_pool r)\<lparr>members := (members (rt_pool r))(rt_next r := make_client a h p r)\<rparr>,
       rt_clients := AList.update a (AList.update h (rt_next r) hosts) (rt_clients r), rt_next := rt_next r + 1\<rparr>"
    have reg: "i < rt_next r \<and> serves b g (rt_kp r) (set (rt_handlers r)) (members (rt_pool r) i)"
      if "lookup_client (rt_clients r) b g = Some i" for b g i
      using ok that by (auto simp: router_ok_def registry_ok_def rt_client_def)
    have "registry_ok r'"
      unfolding registry_ok_def new(3) by (auto simp: lookup_new [OF new(1)] made_client dest!: reg)
    moreover have "clients_ok r'" "distinct (map fst (rt_cache r'))"
      using ok unfolding new(3) by (auto simp: router_ok_def clients_ok_def made_client rt_client_def less_Suc_eq)
    moreover have ids: "mset (client_ids (rt_clients r')) = mset (client_ids (rt_clients r)) + {#rt_next r#}"
      unfolding new(3) by (simp add: ids_new [OF new(1,2)])
    moreover have "ids_ok r'"
    proof -
      have "set (client_ids (rt_clients r')) = insert (rt_next r) (set (client_ids (rt_clients r)))"
        using arg_cong [OF ids, of set_mset] by simp
      moreover have "distinct (client_ids (rt_clients r')) = distinct (rt_next r # client_ids (rt_clients r))"
        using mset_eq_imp_distinct_iff [of "client_ids (rt_clients r')" "rt_next r # client_ids (rt_clients r)"] ids by simp
      moreover have "rt_next r' = rt_next r + 1" by (simp add: new(3))
      ultimately show ?thesis using ok by (auto simp: router_ok_def ids_ok_def)
    qed
    ultimately show ?thesis using run by (simp add: router_ok_def)
  qed (use ok run in simp_all)
qed

text \<open>Attaching handlers, to some clients or to all.\<close>

lemma handler_ok:
  assumes "client_inv c" and "pipes_ok c"
  shows "client_inv (add_msg_handler h c) \<and> pipes_ok (add_msg_handler h c)"
  using assms inv.handlers_ok pipes_run.handlers_ok by blast

lemma serves_add: "serves a h k hs c \<Longrightarrow> serves a h k (insert g hs) (add_msg_handler g c)"
  by (auto simp: serves_def add_msg_handler_def)

lemma attach_router_ok: "router_ok r \<Longrightarrow> router_ok (attach g is r)"
  using handler_ok serving.handlers_ok
  by (auto simp: router_ok_def registry_ok_def clients_ok_def ids_ok_def attach_def Let_def rt_client_def)

lemma add_handler_router_ok: "router_ok r \<Longrightarrow> router_ok (router_add_msg_handler g r)"
  using handler_ok
  by (auto simp: router_ok_def registry_ok_def clients_ok_def ids_ok_def router_add_msg_handler_def Let_def rt_client_def
      intro: serves_add dest: lookup_listed)

interpretation sound: router_kept router_ok R for R
proof
  fix r i c' ids assume ok: "router_ok r" and m: "moves (each R i) (rt_client i r) c'"
  let ?r = "r\<lparr>rt_pool := (rt_pool r)\<lparr>members := (members (rt_pool r))(i := c'), shared_ids := ids\<rparr>\<rparr>"
  have "serves a h k hs (rt_client j ?r)" if "serves a h k hs (rt_client j r)" for a h k hs j
    using that serving_member.every_move [OF m] by (cases "j = i") (simp_all add: rt_client_def)
  moreover have "client_inv (rt_client j ?r) \<and> pipes_ok (rt_client j ?r)"
    if "client_inv (rt_client j r) \<and> pipes_ok (rt_client j r)" for j
    using that inv_member.every_move [OF m] pipes_member.every_move [OF m] by (cases "j = i") (simp_all add: rt_client_def)
  ultimately show "router_ok ?r" using ok by (simp add: router_ok_def registry_ok_def clients_ok_def ids_ok_def)
qed (use ensure_router_ok attach_router_ok add_handler_router_ok in
  \<open>simp_all add: router_ok_def registry_ok_def clients_ok_def ids_ok_def distinct_update distinct_delete\<close>)

lemma init_router_ok: "router_ok (snd (Router_init R k servers cb file has_clock))"
proof -
  have "keeps router_ok (seed_af R a)" for a
    unfolding seed_af_def py_when_def by (intro valid_rules ensure_router_ok)
  then have "keeps router_ok (py_for [ip4 (net R), ip6 (net R)] (seed_af R))" by (intro valid_rules)
  moreover have "router_ok (empty_router R k (own_servers R servers) cb file)"
    by (auto simp: router_ok_def registry_ok_def clients_ok_def ids_ok_def client_ids_def empty_router_def lookup_client_def)
  ultimately show ?thesis by (auto simp: Router_init_def Let_def dest: keeps_snd)
qed

section \<open>What is never taken back\<close>

text \<open>The client \<open>i\<close> stands for the broker \<open>(a, h)\<close> and its future \<open>f\<close> is done with \<open>w\<close>.\<close>

definition keeps_word :: "int \<Rightarrow> string \<Rightarrow> nat \<Rightarrow> fut \<Rightarrow> nat \<Rightarrow> router \<Rightarrow> bool" where
  "keeps_word a h i w f r \<longleftrightarrow> lookup_client (rt_clients r) a h = Some i \<and> i < rt_next r \<and> settled_with w f (rt_client i r)"

lemma settled_add: "settled_with w f (add_msg_handler g c) = settled_with w f c"
  by (simp add: settled_with_def add_msg_handler_def)

interpretation word: router_kept "keeps_word a h i w f" R for a h i w f R
proof
  fix r j c' ids assume k: "keeps_word a h i w f r" and m: "moves (each R j) (rt_client j r) c'"
  have "settled_with w f c'" if "i = j"
    using k that settled_member.every_move [OF m] by (simp add: keeps_word_def)
  with k show "keeps_word a h i w f (r\<lparr>rt_pool := (rt_pool r)\<lparr>members := (members (rt_pool r))(j := c'), shared_ids := ids\<rparr>\<rparr>)"
    by (auto simp: keeps_word_def rt_client_def)
next
  show "keeps (keeps_word a h i w f) (ensure_client R b g p)" for b g p
  proof (rule keepsI)
    fix r assume k: "keeps_word a h i w f r"
    obtain x r' where run: "ensure_client R b g p r = (x, r')" by fastforce
    from ensure_cases [OF run] show "keeps_word a h i w f (snd (ensure_client R b g p r))"
    proof (elim disjE exE conjE)
      fix hosts assume new: "map_of (rt_clients r) b = Some hosts" "map_of hosts g = None"
        "r' = r\<lparr>rt_pool := (rt_pool r)\<lparr>members := (members (rt_pool r))(rt_next r := make_client b g p r)\<rparr>,
         rt_clients := AList.update b (AList.update g (rt_next r) hosts) (rt_clients r), rt_next := rt_next r + 1\<rparr>"
      then have "(a, h) \<noteq> (b, g)" using k by (auto simp: keeps_word_def lookup_client_def)
      with k new(3) run show ?thesis by (auto simp: keeps_word_def lookup_new [OF new(1)] rt_client_def)
    qed (use k run in simp_all)
  qed
qed (auto simp: keeps_word_def attach_def router_add_msg_handler_def Let_def rt_client_def settled_add)

section \<open>Properties\<close>

definition demo_env :: env where
  "demo_env = \<lparr>own = demo_lib, each = (\<lambda>_. demo_lib), net = demo_disc, during = (\<lambda>_ _. []),
     parse_int = (\<lambda>_. Inl (ValueError ''invalid literal for int()'')), wall_clock = 0, write_exn = None,
     infra_v4 = [], infra_v6 = []\<rparr>"

lemma demo_env_sel [simp]:
  "own demo_env = demo_lib" "each demo_env i = demo_lib" "net demo_env = demo_disc" "during demo_env n i = []"
  "wall_clock demo_env = 0" "write_exn demo_env = None"
  by (simp_all add: demo_env_def)

definition demo_router :: router where
  "demo_router = snd (Router_init demo_env (kp demo_client) (Some demo_servers) (Some 7) (JDict []) True)"

lemma demo_router_is: "Router_init demo_env (kp demo_client) (Some demo_servers) (Some 7) (JDict []) True = (Inr (), demo_router)"
  and demo_clients: "rt_clients demo_router = [(2, [(''bbb'', 0), (''a'', 1)]), (10, [(''cc'', 2)])]" "rt_next demo_router = 3"
  and demo_rest: "rt_cache demo_router = []" "rt_protected demo_router = {}" "rt_handlers demo_router = [7]" "rt_ticks demo_router = 0"
  by (simp_all add: demo_router_def Router_init_def own_servers_def demo_servers_def empty_router_def seed_af_def
      ensure_client_def py_simps Let_def)

lemma demo_members: "rt_client 1 demo_router = add_msg_handler 7 (new_client 2 (''a'', 1883) (kp demo_client))"
  by (simp add: demo_router_def Router_init_def own_servers_def demo_servers_def empty_router_def seed_af_def
      ensure_client_def py_simps Let_def rt_client_def make_client_def)

text \<open>
  C8: the invariant of the router. Whatever is called on it after its construction, and whatever
  arrives meanwhile: every client of its table is for the broker it stands under and for the
  router's keys, calls every handler registered with the router, whenever that happened, and
  satisfies the invariant of a client; no broker has two clients; the keys of the cache are distinct.
\<close>

theorem router_invariant:
  assumes "router_run R (snd (Router_init R k servers cb file has_clock)) r"
  shows "(\<forall>a h i. lookup_client (rt_clients r) a h = Some i \<longrightarrow> i < rt_next r \<and>
      af (rt_client i r) = a \<and> host (rt_client i r) = h \<and> kp (rt_client i r) = rt_kp r \<and>
      set (rt_handlers r) \<subseteq> set (msg_handlers (rt_client i r)) \<and>
      client_inv (rt_client i r) \<and> pipes_ok (rt_client i r) \<and>
      (\<forall>b g. lookup_client (rt_clients r) b g = Some i \<longrightarrow> b = a \<and> g = h)) \<and> distinct (map fst (rt_cache r))"
proof -
  have ok: "router_ok r" using sound.every_run [OF assms] init_router_ok by simp
  then have all: "i < rt_next r \<and> serves a h (rt_kp r) (set (rt_handlers r)) (rt_client i r) \<and> client_inv (rt_client i r) \<and> pipes_ok (rt_client i r)"
    if "lookup_client (rt_clients r) a h = Some i" for a h i
    using that by (simp add: router_ok_def registry_ok_def clients_ok_def)
  moreover have "b = a \<and> g = h" if "lookup_client (rt_clients r) a h = Some i" "lookup_client (rt_clients r) b g = Some i" for a h b g i
    using all [OF that(1)] all [OF that(2)] by (auto simp: serves_def)
  ultimately show ?thesis using ok unfolding serves_def router_ok_def by blast
qed

theorem router_invariant_witness:
  "\<exists>r. router_run demo_env demo_router r \<and> lookup_client (rt_clients r) 2 ''a'' = Some 1 \<and>
    {7, 8} \<subseteq> set (msg_handlers (rt_client 1 r)) \<and> client_inv (rt_client 1 r)"
proof -
  let ?r = "router_add_msg_handler 8 demo_router"
  have run: "router_run demo_env (snd (Router_init demo_env (kp demo_client) (Some demo_servers) (Some 7) (JDict []) True)) ?r"
    unfolding demo_router_is by (auto intro: router_step_router_run.intros)
  have l: "lookup_client (rt_clients ?r) 2 ''a'' = Some 1" "rt_handlers ?r = [7, 8]"
    by (simp_all add: router_add_msg_handler_def Let_def demo_clients demo_rest lookup_client_def)
  with router_invariant [OF run] have "set (rt_handlers ?r) \<subseteq> set (msg_handlers (rt_client 1 ?r)) \<and> client_inv (rt_client 1 ?r)" by blast
  with run l show ?thesis unfolding demo_router_is by auto
qed

text \<open>
  C21: what is never taken back. A client that stands for a broker stands for it in every run that
  follows, idle closing, eviction and closing included, and a future of it that is done keeps its
  result.
\<close>

theorem clients_are_permanent:
  assumes "router_run R r r'" and "router_ok r" and "lookup_client (rt_clients r) a h = Some i"
  shows "lookup_client (rt_clients r') a h = Some i \<and>
    (\<forall>f w. fut_peek (futs (rt_client i r)) f = Some w \<longrightarrow> w \<noteq> Pending \<longrightarrow> fut_peek (futs (rt_client i r')) f = Some w)"
proof -
  have "keeps_word a h i w f r'" if "settled_with w f (rt_client i r)" for w f
    using word.every_run [OF assms(1)] assms(2,3) that by (auto simp: keeps_word_def router_ok_def registry_ok_def)
  then show ?thesis unfolding keeps_word_def settled_with_def by blast
qed

theorem clients_are_permanent_witness:
  "\<exists>r. router_close demo_env demo_router = (Inr (), r) \<and> lookup_client (rt_clients r) 2 ''a'' = Some 1"
proof -
  obtain r where r: "router_close demo_env demo_router = (Inr (), r)"
    by (simp add: router_close_def close_pass_def for_clients_def hosts_at_def py_simps client_ids_def demo_clients on_pool_def on_client_def close_app cancelled_def demo_router_def
        Router_init_def own_servers_def demo_servers_def empty_router_def seed_af_def ensure_client_def Let_def make_client_def
        add_msg_handler_def new_client_def)
  then have "router_run demo_env demo_router r" by (blast intro: Stay Step router_step_close)
  moreover have "router_ok demo_router" using init_router_ok by (simp add: demo_router_def)
  moreover have "lookup_client (rt_clients demo_router) 2 ''a'' = Some 1" by (simp add: demo_clients lookup_client_def)
  ultimately have "lookup_client (rt_clients r) 2 ''a'' = Some 1" using clients_are_permanent by blast
  with r show ?thesis by blast
qed

end
