(* ===== verification/Authentic.thy ===== *)
theory Authentic
  imports Router_System
begin

text \<open>
  A message counts as delivered only when its destination has said so: while a smart pipe waits,
  the future of a message is resolved by nothing but an acknowledgement of that message, signed
  by the destination, that has come in on the stream of the client it was queued on.
\<close>

section \<open>Waiting for an acknowledgement\<close>

text \<open>
  The future \<open>f\<close> is pending, no packet id holds it, and every entry that does is the message
  queued under \<open>q\<close> for \<open>dest\<close>.
\<close>

definition awaits :: "nat \<Rightarrow> string \<Rightarrow> string \<Rightarrow> client \<Rightarrow> bool" where
  "awaits f dest q c \<longleftrightarrow> fut_peek (futs c) f = Some Pending \<and> (\<forall>pt pid. map_of (packet_ids c pt) pid \<noteq> Some f) \<and>
     (\<forall>k i m. find_meta c k i = Some m \<longrightarrow> m_app_ack m = f \<longrightarrow> snd k = q \<and> m_dest_pk_hex m = dest)"

text \<open>It depends on the queues, the packet ids and the future only.\<close>

lemma awaits_same:
  "msg_queues c' = msg_queues c \<Longrightarrow> packet_ids c' = packet_ids c \<Longrightarrow> fut_peek (futs c') f = fut_peek (futs c) f \<Longrightarrow>
   awaits f dest q c \<Longrightarrow> awaits f dest q c'"
  by (simp add: awaits_def find_meta_alt)

lemma awaits_fewer:
  assumes "awaits f dest q c" and "fewer c c'"
  shows "awaits f dest q c'"
proof -
  have "snd k = q \<and> m_dest_pk_hex m = dest" if "find_meta c' k i = Some m" "m_app_ack m = f" for k i m
    using assms(1) fewer_entry [OF assms(2) that(1)] that(2) unfolding awaits_def by blast
  with assms(1) fewer_rest [OF assms(2)] show ?thesis unfolding awaits_def by simp
qed

lemma awaits_put:
  assumes "awaits f dest q c" and "m_app_ack m \<noteq> f \<or> snd k = q \<and> m_dest_pk_hex m = dest"
  shows "awaits f dest q (snd (put_meta (fst k) (snd k) i m c))"
proof (cases "queue_seqs c k")
  case None
  with assms(1) show ?thesis by (simp add: put_meta_def queue_seqs_def split: option.split)
next
  case (Some I)
  then have "find_meta (queue_put k i m c) k' j = (if k' = k \<and> j = i then Some m else find_meta c k' j)" for k' j
    by (intro find_meta_put) simp
  moreover have "futs (queue_put k i m c) = futs c" "packet_ids (queue_put k i m c) = packet_ids c"
    by (simp_all add: queue_put_def put_meta_def set_queue_def split: option.split)
  ultimately show ?thesis using assms by (auto simp: awaits_def queue_put_def)
qed

lemma awaits_packet_ack: "keeps (awaits f dest q) (packet_ack_future pt)"
proof (rule validI)
  fix c e c' assume w: "awaits f dest q c" and run: "packet_ack_future pt c = (Inl e, c')"
  obtain n where "snd (get_packet_id c) = c\<lparr>packet_id := n\<rparr>"
    using gpid_loop_snd [of 0 c] by (auto simp: get_packet_id_def)
  with run have "c' = c\<lparr>packet_id := n\<rparr>"
    by (auto simp: packet_ack_future_def py_simps new_future_def split: prod.splits sum.splits)
  with w show "awaits f dest q c'" by (auto intro: awaits_same)
next
  fix c x c' assume w: "awaits f dest q c" and run: "packet_ack_future pt c = (Inr x, c')"
  then obtain n g pid where c': "c' = c\<lparr>packet_id := n, futs := futs c @ [Pending],
      packet_ids := (packet_ids c)(pt := AList.update pid g (packet_ids c pt))\<rparr>" and "g = length (futs c)"
    using packet_ack_future_Inr [of pt c "fst x" "snd x" c'] by auto
  with w have "g \<noteq> f" by (auto simp: awaits_def fut_peek_def split: if_splits)
  with w show "awaits f dest q c'"
    by (auto simp: c' awaits_def fut_peek_def find_meta_alt nth_append dict_simps split: if_splits)
qed

interpretation waiting: keeping "awaits f dest q" "\<lambda>g c. awaits f dest q c \<and> g \<noteq> f" "\<lambda>_ _ _ _. True" L for f dest q L
proof
  show "awaits f dest q (ensure_queue t qid c)" "awaits f dest q (drop_old_acks qid k c)"
    if "awaits f dest q c" for c t qid k by (rule awaits_fewer [OF that]; rule fewer_ops)+
  show "valid (awaits f dest q) new_future (\<lambda>g c. awaits f dest q c \<and> g \<noteq> f) (awaits f dest q)"
    by (auto simp: valid_def new_future_def awaits_def fut_peek_def find_meta_alt nth_append split: if_splits)
  show "keeps (\<lambda>c. awaits f dest q c \<and> g \<noteq> f) (get_time L)" for g L
    by (rule keepsI) (auto simp: get_time_def intro: awaits_same)
  show "valid (\<lambda>c. awaits f dest q c \<and> m_app_ack m \<noteq> f) (put_meta t qid k m) (\<lambda>_. awaits f dest q) (awaits f dest q)" for m t qid k
  proof (rule validI)
    fix c e c' assume "awaits f dest q c \<and> m_app_ack m \<noteq> f" and "put_meta t qid k m c = (Inl e, c')"
    then show "awaits f dest q c'" using awaits_put [of f dest q c m "(t, qid)" k] by simp
  next
    fix c x c' assume "awaits f dest q c \<and> m_app_ack m \<noteq> f" and "put_meta t qid k m c = (Inr x, c')"
    then show "awaits f dest q c'" using awaits_put [of f dest q c m "(t, qid)" k] by simp
  qed
  show "keeps (awaits f dest q) (packet_ack_future pt)" for pt by (rule awaits_packet_ack)
  show "keeps (awaits f dest q) (deliver L msg src qid)" for L msg src qid
    by (rule keeps_deliver) (auto intro: awaits_same)
qed (auto intro: awaits_same)

section \<open>What arrives\<close>

text \<open>The payload of a PUBLISH that acknowledges the message \<open>q\<close> in the name of \<open>dest\<close>.\<close>

definition acknowledges :: "lib \<Rightarrow> string \<Rightarrow> string \<Rightarrow> bytes \<Rightarrow> bool" where
  "acknowledges L dest q payload \<longleftrightarrow> (\<exists>ap. unpack_async L payload = Inr (Some ap) \<and>
     a_msg_type ap = msg_val MSGACK \<and> a_src_pk_hex ap = dest \<and> a_queue_id_hex ap = q)"

lemma awaits_result: "g \<noteq> f \<Longrightarrow> keeps (awaits f dest q) (set_result g v)"
  by (rule keepsI) (auto simp: set_result_def futures.settle_other intro: awaits_same [rotated -1])

lemma awaits_other_ack: "i \<noteq> q \<or> src \<noteq> dest \<Longrightarrow> keeps (awaits f dest q) (ack_loop ts i k src)"
proof (induction ts)
  case (Cons t ts)
  show ?case
  proof (rule keepsI)
    fix c assume w: "awaits f dest q c"
    note more = keeps_snd [OF Cons.IH [OF Cons.prems] w]
    show "awaits f dest q (snd (ack_loop (t # ts) i k src c))"
    proof (cases "find_meta c (t, i) k")
      case (Some m)
      have forget: "awaits f dest q (forget_probe t i k c)" if "awaits f dest q c" for c
        by (rule awaits_fewer [OF that fewer_ops(4)])
      have "m_app_ack m \<noteq> f" if "m_dest_pk_hex m = src"
        using w Some that Cons.prems unfolding awaits_def by (metis snd_conv)
      then have "keeps (awaits f dest q) (py_bind (py_get (future_done (m_app_ack m))) (\<lambda>finished.
           if finished then py_return () else py_seq (set_result (m_app_ack m) FTrue)
             (py_when (m_probe_one_shot m) (py_modify (forget_probe t i k)))))" if "m_dest_pk_hex m = src"
        using that by (intro valid_rules awaits_result forget) simp_all
      from keeps_snd [OF this w] Some more show ?thesis by (auto simp: py_bind_app py_get_app)
    qed (use more in \<open>simp add: py_simps\<close>)
  qed
qed (simp add: valid_rules)

lemma awaits_publish:
  assumes "\<And>topic payload pid. mqtt_parse_publish L p = Inr (Some (topic, payload, pid)) \<Longrightarrow> \<not> acknowledges L dest q payload"
  shows "keeps (awaits f dest q) (handle_publish L p)"
proof -
  have route: "keeps (awaits f dest q) (route L ap)" if "a_msg_type ap = msg_val MSGACK \<Longrightarrow> a_queue_id_hex ap \<noteq> q \<or> a_src_pk_hex ap \<noteq> dest" for ap
    using that unfolding route_def process_app_ack_def by (intro valid_rules waiting.msg_in awaits_other_ack)
  have "keeps (awaits f dest q) (send_puback L pid)" for pid
    unfolding send_puback_def by (intro valid_rules waiting.steps)
  moreover have "keeps (awaits f dest q) (too_old L ap)" for ap
    unfolding too_old_def Let_def by (intro valid_rules waiting.steps)
  ultimately have rest: "keeps (awaits f dest q) (py_seq (send_puback L pid)
      (py_bind (py_lift (h_to_b L topic)) (\<lambda>t. py_bind (py_get (\<lambda>c. compact_public_key (kp c))) (\<lambda>own.
        if t \<noteq> own then py_return ()
        else py_bind (py_lift (unpack_async L payload)) (\<lambda>unpacked. case unpacked of None \<Rightarrow> py_return ()
          | Some ap \<Rightarrow> py_bind (too_old L ap) (\<lambda>old. if old then py_return () else route L ap))))))"
    if "\<not> acknowledges L dest q payload" for topic payload pid
  proof -
    have body: "keeps (awaits f dest q) (py_bind (py_lift (unpack_async L payload)) (\<lambda>unpacked. case unpacked of None \<Rightarrow> py_return ()
          | Some ap \<Rightarrow> py_bind (too_old L ap) (\<lambda>old. if old then py_return () else route L ap)))"
    proof (cases "\<exists>ap. unpack_async L payload = Inr (Some ap)")
      case True
      then obtain ap where ap: "unpack_async L payload = Inr (Some ap)" by blast
      have "keeps (awaits f dest q) (py_bind (too_old L ap) (\<lambda>old. if old then py_return () else route L ap))"
        using that ap \<open>\<And>ap. keeps _ (too_old L ap)\<close> route [of ap] by (intro valid_rules) (auto simp: acknowledges_def)
      then show ?thesis by (simp add: valid_def py_simps ap)
    qed (auto simp: valid_def py_simps split: sum.split option.split)
    show ?thesis
      by (rule keeps_seq [OF \<open>\<And>pid. keeps _ (send_puback L pid)\<close> keeps_bind [OF keeps_lift keeps_bind [OF keeps_get
          keeps_if [OF keeps_return body]]]])
  qed
  show ?thesis
  proof (cases "\<exists>topic payload pid. mqtt_parse_publish L p = Inr (Some (topic, payload, pid))")
    case True
    then obtain topic payload pid where p: "mqtt_parse_publish L p = Inr (Some (topic, payload, pid))" by blast
    from rest [OF assms [OF p], of pid topic] show ?thesis by (simp add: handle_publish_def valid_def py_bind_app py_lift_app p)
  qed (auto simp: handle_publish_def valid_def py_simps split: sum.split option.split)
qed

lemma awaits_delete:
  "awaits f dest q c \<Longrightarrow> awaits f dest q (c\<lparr>packet_ids := (packet_ids c)(pt := AList.delete pid (packet_ids c pt))\<rparr>)"
  by (auto simp: awaits_def find_meta_alt dict_simps)

lemma awaits_handle:
  assumes "\<And>topic payload pid. mqtt_parse_publish L p = Inr (Some (topic, payload, pid)) \<Longrightarrow> \<not> acknowledges L dest q payload"
  shows "keeps (awaits f dest q) (handle_mqtt_packet L p)"
proof -
  have "keeps (awaits f dest q) (handle_broker_ack p)"
  proof (rule keepsI)
    fix c assume w: "awaits f dest q c"
    show "awaits f dest q (snd (handle_broker_ack p c))"
    proof (cases "map_of (packet_ids c (p_type p)) (take 2 (p_body p))")
      case (Some g)
      then have "g \<noteq> f" using w by (auto simp: awaits_def)
      then have "keeps (awaits f dest q) (py_bind (py_get (future_done g)) (\<lambda>finished. if finished then py_return ()
          else py_seq (set_result g v) (py_modify (\<lambda>c. c\<lparr>packet_ids := (packet_ids c)(pt := AList.delete pid (packet_ids c pt))\<rparr>))))"
        for v pt pid
        by (intro valid_rules awaits_result awaits_delete)
      from keeps_snd [OF this w] Some show ?thesis by (simp add: handle_broker_ack_def Let_def py_bind_app py_get_app)
    qed (use w in \<open>simp add: handle_broker_ack_def Let_def py_simps\<close>)
  qed
  with awaits_publish [OF assms] show ?thesis unfolding handle_mqtt_packet_alt by (intro valid_rules)
qed

section \<open>The stream\<close>

text \<open>No stretch of the bytes is such a payload.\<close>

definition silent :: "lib \<Rightarrow> string \<Rightarrow> string \<Rightarrow> bytes \<Rightarrow> bool" where
  "silent L dest q b \<longleftrightarrow> (\<forall>payload. sublist payload b \<longrightarrow> \<not> acknowledges L dest q payload)"

lemma silent_part: "silent L dest q b \<Longrightarrow> sublist a b \<Longrightarrow> silent L dest q a"
  unfolding silent_def by (blast intro: sublist_order.order.trans)

lemma payload_part:
  assumes "mqtt_parse_packet raw = Inr p" and "mqtt_parse_publish L p = Inr (Some (topic, payload, pid))"
  shows "sublist payload raw"
proof -
  from assms(1) obtain i j where "p_body p = slice i j raw"
    by (auto simp: mqtt_parse_packet_def Let_def res_bind_Inr_conv split: if_splits)
  then have "sublist (p_body p) raw"
    unfolding slice_def by (metis sublist_order.order.trans sublist_take sublist_drop)
  moreover from assms(2) have "\<exists>k. payload = drop k (p_body p)"
    by (auto simp: mqtt_parse_publish_def Let_def res_bind_Inr_conv split: if_splits)
  ultimately show ?thesis by (metis sublist_order.order.trans sublist_drop)
qed

lemma awaits_frame:
  assumes "silent L dest q raw"
  shows "keeps (awaits f dest q) (handle_frame L raw)"
proof (cases "mqtt_parse_packet raw")
  case (Inl e)
  then show ?thesis by (simp add: handle_frame_def valid_def py_simps)
next
  case (Inr p)
  have "keeps (awaits f dest q) (handle_mqtt_packet L p)"
    by (rule awaits_handle) (use payload_part [OF Inr] assms in \<open>auto simp: silent_def\<close>)
  then have "keeps (awaits f dest q) (async_wrap_errors L (handle_mqtt_packet L p))" by (rule waiting.wrapping)
  with Inr show ?thesis by (simp add: handle_frame_def valid_def py_bind_app py_lift_app)
qed

lemma awaits_loop:
  "awaits f dest q c \<Longrightarrow> silent L dest q (buf c) \<Longrightarrow>
   awaits f dest q (snd (reader_loop L c)) \<and> suffix (buf (snd (reader_loop L c))) (buf c)"
proof (induction "length (buf c)" arbitrary: c rule: less_induct)
  case less
  show ?case
  proof (cases "next_frame (buf c)")
    case (Some n)
    let ?c = "set_buf (drop n (buf c)) c"
    obtain r c2 where run: "handle_frame L (take n (buf c)) ?c = (r, c2)" by fastforce
    have "silent L dest q (take n (buf c))" using silent_part [OF less.prems(2)] sublist_take by blast
    moreover have "awaits f dest q ?c" using less.prems(1) by (auto simp: set_buf_def intro: awaits_same)
    ultimately have P2: "awaits f dest q c2" using keeps_snd [OF awaits_frame, of L dest q _ f ?c] run by (metis snd_conv)
    have b2: "buf c2 = drop n (buf c)" using handle_frame_buf [OF run] by (simp add: set_buf_def)
    then have "length (buf c2) < length (buf c)" using next_frame_pos [OF Some] by auto
    moreover have "silent L dest q (buf c2)" using silent_part [OF less.prems(2)] b2 sublist_drop by metis
    ultimately have "awaits f dest q (snd (reader_loop L c2)) \<and> suffix (buf (snd (reader_loop L c2))) (buf c2)"
      using less.hyps P2 by blast
    moreover have "suffix (buf c2) (buf c)" unfolding b2 by (rule suffix_drop)
    ultimately show ?thesis
      using P2 suffix_order.trans unfolding reader_step [OF Some] run by (cases r) auto
  qed (simp add: reader_stop less.prems)
qed

section \<open>While a send waits\<close>

fun arrived :: "happening list \<Rightarrow> bytes" where
  "arrived [] = []"
| "arrived (Turn p # hs) = arrived hs"
| "arrived (Chunk b # hs) = b @ arrived hs"

lemma put_again_awaits:
  assumes "awaits f dest q c" and "find_meta c k i = Some m"
  shows "awaits f dest q (queue_put k i (attempted m now) c)"
proof -
  have "m_app_ack m \<noteq> f \<or> snd k = q \<and> m_dest_pk_hex m = dest" using assms unfolding awaits_def by blast
  then show ?thesis unfolding queue_put_def by (intro awaits_put [OF assms(1)]) simp
qed

interpretation waiting_turn: dispatching "\<lambda>c. awaits f dest q c \<and> buf c = b" L for f dest q b L
proof
  show "keeps (\<lambda>c. awaits f dest q c \<and> buf c = b) (get_time L)"
    by (rule keepsI) (auto simp: get_time_def intro: awaits_same)
  show "keeps (\<lambda>c. awaits f dest q c \<and> buf c = b) (republish_entry L k i now interval d ignore_acked)"
    for k i now interval d ignore_acked
  proof (rule keepsI)
    fix c assume w: "awaits f dest q c \<and> buf c = b"
    show "awaits f dest q (snd (republish_entry L k i now interval d ignore_acked c)) \<and>
        buf (snd (republish_entry L k i now interval d ignore_acked c)) = b"
    proof (cases "find_meta c k i")
      case None
      then show ?thesis using w by (simp add: republish_entry_alt py_simps)
    next
      case (Some m)
      let ?c = "c\<lparr>draws := draws c + 1\<rparr>"
      have d: "awaits f dest q ?c" using w by (auto intro: awaits_same)
      have "awaits f dest q (queue_put k i (attempted m now) ?c)" by (rule put_again_awaits [OF d]) (simp add: Some)
      moreover have "keeps (awaits f dest q) (safe_pipe_send L x)" for x
        by (rule keepsI) (auto simp: safe_pipe_send_app split: option.split intro: awaits_same)
      then have "keeps (awaits f dest q) (attempt L m)" unfolding attempt_def by (intro valid_rules waiting.publishing)
      ultimately have "awaits f dest q (snd (attempt L m (queue_put k i (attempted m now) ?c)))" by (rule keeps_snd [rotated])
      moreover have "leaves buf (attempt L m)" unfolding attempt_def by (intro leaves_rules buf_kept)
      then have "buf (snd (attempt L m (queue_put k i (attempted m now) ?c))) = buf c"
        using leavesD by (fastforce simp: queue_put_def put_meta_def set_queue_def split: option.splits)
      ultimately show ?thesis using w d by (simp add: republish_app [OF Some])
    qed
  qed
  show "keeps (\<lambda>c. awaits f dest q c \<and> buf c = b) (send_on L p x)" for p x
    by (rule keepsI) (auto simp: send_on_def split: option.split intro: awaits_same)
qed (auto simp: prune_msg_ids_def Let_def intro: awaits_same)

lemma awaits_happen:
  assumes "awaits f dest q c" and "silent L dest q (buf c @ arrived (h # hs))"
  shows "awaits f dest q (snd (happen L h c)) \<and> silent L dest q (buf (snd (happen L h c)) @ arrived hs)"
proof (cases h)
  case (Turn p)
  have ended: "awaits f dest q (dispatcher_ended d) \<and> buf (dispatcher_ended d) = buf c" if "awaits f dest q d \<and> buf d = buf c" for d
    using that by (auto simp: dispatcher_ended_def intro: awaits_same)
  have "keeps (\<lambda>d. awaits f dest q d \<and> buf d = buf c) (happen L (Turn p))"
    unfolding happen.simps py_when_def by (intro valid_rules waiting_turn.turning ended)
  from keeps_snd [OF this] Turn assms show ?thesis by simp
next
  case (Chunk b)
  let ?c = "c\<lparr>buf := buf c @ b\<rparr>" and ?s = "buf c @ b @ arrived hs"
  have s: "silent L dest q ?s" using assms(2) Chunk by simp
  have c': "snd (happen L h c) = snd (mqtt_packet_reader L b c)" by (simp add: Chunk py_simps split: prod.split sum.split)
  show ?thesis
  proof (cases "b = []")
    case False
    have "awaits f dest q ?c" using assms(1) by (auto intro: awaits_same)
    moreover have "silent L dest q (buf ?c)" by (rule silent_part [OF s]) simp
    ultimately have r: "awaits f dest q (snd (reader_loop L ?c)) \<and> suffix (buf (snd (reader_loop L ?c))) (buf ?c)"
      by (rule awaits_loop)
    then obtain u where "buf c @ b = u @ buf (snd (reader_loop L ?c))" by (auto elim: suffixE)
    then have "?s = u @ buf (snd (reader_loop L ?c)) @ arrived hs" by (metis append.assoc)
    then have "sublist (buf (snd (reader_loop L ?c)) @ arrived hs) ?s" unfolding sublist_def by (metis append.right_neutral)
    then have "silent L dest q (buf (snd (reader_loop L ?c)) @ arrived hs)" by (rule silent_part [OF s])
    with r c' False show ?thesis by (simp add: mqtt_packet_reader_def)
  qed (use assms Chunk c' in \<open>simp add: mqtt_packet_reader_def\<close>)
qed

lemma awaits_all:
  "awaits f dest q c \<Longrightarrow> silent L dest q (buf c @ arrived hs) \<Longrightarrow> awaits f dest q (snd (py_for hs (happen L) c))"
proof (induction hs arbitrary: c)
  case (Cons h hs)
  obtain r c' where run: "happen L h c = (r, c')" by fastforce
  with awaits_happen [OF Cons.prems] have c': "awaits f dest q c'" "silent L dest q (buf c' @ arrived hs)" by simp_all
  with Cons.IH [OF c'] run show ?case by (cases r) (simp_all add: py_simps)
qed (simp add: py_simps)

end
