(* ===== verification/Send_Spec.thy ===== *)
theory Send_Spec
  imports Authentic
begin

text \<open>
  Sending through a smart pipe: what is queued, what the result means, and what is left behind.
\<close>

section \<open>Queueing on one client\<close>

lemma queued_awaits:
  assumes "queue_msg L msg dest (Some q) MSG None c = (Inr (key, f), c')" and "client_inv c" and "q \<noteq> []"
  shows "awaits f dest q c' \<and> buf c' = buf c"
proof -
  obtain x xs where q: "q = x # xs" using assms(3) by (cases q) auto
  let ?c = "c\<lparr>ticks := ticks c + 1, last_send := Some (clock L (ticks c))\<rparr>"
  have run: "ordered_ack_send L msg dest q MSG None ?c = (Inr (key, f), c')"
    using assms(1) by (simp add: queue_msg_def queue_id_or_random_def q touch_last_send_def get_time_def py_simps)
  from ordered_ack_send_aux [OF run] obtain i m where m: "find_meta c' (MSG, q) i = Some m" "m_app_ack m = f"
    "m_dest_pk_hex m = dest" "futs c' = futs ?c @ [Pending]" "f = length (futs ?c)"
    by (auto split: option.splits)
  have "client_inv c'" using keeps_snd [OF queue_msg_inv assms(2)] assms(1) by (metis snd_conv)
  then have one: "w = Entry (MSG, q) i" if "owned c' w = Some f" for w
    using that m(1,2) unfolding client_inv_def owners_ok_def by (metis option.map(2) owned.simps(1))
  have "map_of (packet_ids c' pt) pid \<noteq> Some f" for pt pid using one [of "Pid pt pid"] by (auto simp: owned.simps)
  moreover have "snd k = q \<and> m_dest_pk_hex m' = dest" if "find_meta c' k j = Some m'" "m_app_ack m' = f" for k j m'
    using one [of "Entry k j"] that m by (auto simp: owned.simps)
  ultimately have "awaits f dest q c'" using m by (auto simp: awaits_def fut_peek_def)
  then show ?thesis using leaves_run [OF buf_kept(4) assms(1)] by simp
qed

section \<open>Over the clients of a pipe\<close>

lemma awaits_shared [simp]: "awaits f dest q (c\<lparr>recv_msg_ids := ids\<rparr>) = awaits f dest q c"
  by (simp add: awaits_def find_meta_alt)

lemma pool_run:
  "on_pool (on_client i m) r = (case m ((rt_client i r)\<lparr>recv_msg_ids := shared_ids (rt_pool r)\<rparr>) of
     (x, c') \<Rightarrow> (x, r\<lparr>rt_pool := (rt_pool r)\<lparr>members := (members (rt_pool r))(i := c'), shared_ids := recv_msg_ids c'\<rparr>\<rparr>))"
  by (simp add: on_pool_def on_client_def rt_client_def split: prod.split)

lemma pool_other: "j \<noteq> i \<Longrightarrow> rt_client j (snd (on_pool (on_client i m) r)) = rt_client j r"
  by (simp add: pool_run rt_client_def split: prod.split)

lemma pool_step:
  assumes "m ((rt_client i r)\<lparr>recv_msg_ids := shared_ids (rt_pool r)\<rparr>) = (x, c')"
  shows "\<exists>r1. on_pool (on_client i m) r = (x, r1) \<and> rt_client i r1 = c' \<and> (\<forall>j. j \<noteq> i \<longrightarrow> rt_client j r1 = rt_client j r)"
  using assms by (simp add: pool_run rt_client_def)

text \<open>Sending does not touch the shared table of received ids.\<close>

lemma queue_msg_ids: "leaves recv_msg_ids (queue_msg L msg dest q t seq)"
proof -
  have steps: "leaves recv_msg_ids (get_time L)" "leaves recv_msg_ids (draw L n)" "leaves recv_msg_ids (sign_with sg s)"
    "leaves recv_msg_ids (get_queue t qid)" "leaves recv_msg_ids (put_meta t qid k m)" "leaves recv_msg_ids new_future"
    "leaves recv_msg_ids (py_modify (ensure_queue t qid))" "leaves recv_msg_ids (py_modify (\<lambda>c. c\<lparr>sent_msg_ids := h c\<rparr>))"
    "leaves recv_msg_ids (py_modify (\<lambda>c. c\<lparr>last_send := u\<rparr>))" for n sg s t qid k m h u
    by (rule leavesI, simp add: get_time_def draw_def sign_with_def get_queue_def put_meta_def set_queue_def new_future_def
        ensure_queue_def py_simps split: option.split)+
  have "leaves recv_msg_ids (queue_id_or_random L q)"
    unfolding queue_id_or_random_def by (cases q rule: option.exhaust) (auto intro: leaves_rules steps split: list.split)
  then show ?thesis
    unfolding queue_msg_def touch_last_send_def ordered_ack_send_def oas_prepare_def note_sent_def oas_commit_def pack_def
      stamp_def Let_def by (intro leaves_rules steps)
qed

text \<open>Queued on some of the clients, each of which waits; the others are as they were.\<close>

definition queued_on :: "string \<Rightarrow> string \<Rightarrow> nat list \<Rightarrow> (nat \<times> nat) list \<Rightarrow> router \<Rightarrow> router \<Rightarrow> bool" where
  "queued_on dest q is tasks r r' \<longleftrightarrow> distinct (map fst tasks) \<and> fst ` set tasks \<subseteq> set is \<and>
     (\<forall>(i, f) \<in> set tasks. awaits f dest q (rt_client i r') \<and> buf (rt_client i r') = buf (rt_client i r)) \<and>
     (\<forall>j. j \<notin> set is \<longrightarrow> rt_client j r' = rt_client j r)"

text \<open>Each client takes the message or not, and has a future in the result if it does.\<close>

lemma queue_all_tasks:
  assumes "queue_all R msg dest q is r = (x, r')" and "distinct is"
  shows "\<exists>tasks. x = Inr tasks \<and> distinct (map fst tasks) \<and> fst ` set tasks \<subseteq> set is \<and>
    (\<forall>j. j \<notin> set is \<longrightarrow> rt_client j r' = rt_client j r) \<and>
    (\<forall>i \<in> set is. \<exists>y. queue_msg (each R i) msg dest (Some q) MSG None ((rt_client i r)\<lparr>recv_msg_ids := shared_ids (rt_pool r)\<rparr>)
         = (y, rt_client i r') \<and>
       (\<forall>f. (i, f) \<in> set tasks \<longleftrightarrow> (\<exists>key. y = Inr (key, f))))"
  using assms
proof (induction "is" arbitrary: r x r')
  case (Cons i "is")
  let ?queue = "\<lambda>i r. queue_msg (each R i) msg dest (Some q) MSG None ((rt_client i r)\<lparr>recv_msg_ids := shared_ids (rt_pool r)\<rparr>)"
  obtain y c' where run: "?queue i r = (y, c')" by fastforce
  then have table: "recv_msg_ids c' = shared_ids (rt_pool r)" using leaves_run [OF queue_msg_ids run] by simp
  let ?r1 = "r\<lparr>rt_pool := (rt_pool r)\<lparr>members := (members (rt_pool r))(i := c'), shared_ids := recv_msg_ids c'\<rparr>\<rparr>"
  let ?task = "case y of Inl _ \<Rightarrow> [] | Inr (_, f) \<Rightarrow> [(i, f)]"
  have first: "py_except (py_bind (on_pool (on_client i (queue_msg (each R i) msg dest (Some q) MSG None)))
      (\<lambda>(_, ack_msg). py_return [(i, ack_msg)])) (\<lambda>_. True) (py_return []) r = (Inr ?task, ?r1)"
    by (simp add: py_except_app py_bind_app pool_run run) (auto simp: py_simps split: sum.split prod.split)
  obtain z r2 where rest: "queue_all R msg dest q is ?r1 = (z, r2)" by fastforce
  from Cons.IH [OF rest] Cons.prems(2) obtain tasks where t: "z = Inr tasks" "distinct (map fst tasks)" "fst ` set tasks \<subseteq> set is"
    and same: "\<And>j. j \<notin> set is \<Longrightarrow> rt_client j r2 = rt_client j ?r1"
    and each: "\<And>j. j \<in> set is \<Longrightarrow> \<exists>y. ?queue j ?r1 = (y, rt_client j r2) \<and> (\<forall>f. (j, f) \<in> set tasks \<longleftrightarrow> (\<exists>key. y = Inr (key, f)))"
    by auto
  have eq: "x = Inr (?task @ tasks)" "r' = r2"
    using Cons.prems(1) first rest t(1) unfolding queue_all.simps by (simp_all add: py_bind_app py_return_app)
  have r1: "rt_client j ?r1 = (if j = i then c' else rt_client j r)" for j by (simp add: rt_client_def)
  have "i \<notin> fst ` set tasks" using t(3) Cons.prems(2) by auto
  then have new: "i \<notin> set (map fst tasks)" "\<And>f. (i, f) \<notin> set tasks" by force+
  have "\<exists>y. ?queue j r = (y, rt_client j r2) \<and> (\<forall>f. (j, f) \<in> set (?task @ tasks) \<longleftrightarrow> (\<exists>key. y = Inr (key, f)))"
    if "j \<in> set (i # is)" for j
  proof (cases "j = i")
    case True
    have "rt_client i r2 = c'" using same [of i] Cons.prems(2) by (simp add: r1)
    with True run new show ?thesis
      by (intro exI [of _ y]) (auto split: sum.split)
  next
    case False
    then have "j \<in> set is" using that by simp
    from each [OF this] obtain y' where q: "?queue j ?r1 = (y', rt_client j r2)"
      and a: "\<forall>f. (j, f) \<in> set tasks \<longleftrightarrow> (\<exists>key. y' = Inr (key, f))" by blast
    have "rt_client j ?r1 = rt_client j r" "shared_ids (rt_pool ?r1) = shared_ids (rt_pool r)" by (simp_all add: rt_client_def False table)
    then have "?queue j r = (y', rt_client j r2)" using q by (simp only:)
    moreover have "\<And>f. (j, f) \<in> set (?task @ tasks) \<longleftrightarrow> (j, f) \<in> set tasks" using False by (cases y) auto
    ultimately show ?thesis using a by (intro exI [of _ y']) (simp only: simp_thms)
  qed
  moreover have "distinct (map fst (?task @ tasks))" "fst ` set (?task @ tasks) \<subseteq> set (i # is)"
    using t(2,3) new by (auto split: sum.split)
  moreover have "rt_client j r2 = rt_client j r" if "j \<notin> set (i # is)" for j using same [of j] that by (simp add: rt_client_def)
  ultimately show ?case using eq by blast
qed (simp add: py_simps)

lemma queue_all_awaits:
  assumes "queue_all R msg dest q is r = (x, r')" and "distinct is" and "\<forall>i \<in> set is. client_inv (rt_client i r)" and "q \<noteq> []"
  shows "\<exists>tasks. x = Inr tasks \<and> queued_on dest q is tasks r r'"
proof -
  from queue_all_tasks [OF assms(1,2)] obtain tasks where t: "x = Inr tasks" "distinct (map fst tasks)" "fst ` set tasks \<subseteq> set is"
    "\<forall>j. j \<notin> set is \<longrightarrow> rt_client j r' = rt_client j r"
    and each: "\<And>i. i \<in> set is \<Longrightarrow> \<exists>y. queue_msg (each R i) msg dest (Some q) MSG None ((rt_client i r)\<lparr>recv_msg_ids := shared_ids (rt_pool r)\<rparr>)
         = (y, rt_client i r') \<and> (\<forall>f. (i, f) \<in> set tasks \<longleftrightarrow> (\<exists>key. y = Inr (key, f)))" by auto
  have "awaits f dest q (rt_client i r') \<and> buf (rt_client i r') = buf (rt_client i r)" if "(i, f) \<in> set tasks" for i f
  proof -
    have i: "i \<in> set is" using t(3) that by force
    from each [OF this] that obtain key where
      "queue_msg (each R i) msg dest (Some q) MSG None ((rt_client i r)\<lparr>recv_msg_ids := shared_ids (rt_pool r)\<rparr>) = (Inr (key, f), rt_client i r')" by metis
    from queued_awaits [OF this _ assms(4)] assms(3) i show ?thesis by simp
  qed
  with t show ?thesis unfolding queued_on_def by blast
qed

lemma happen_returns: "fst (happen L h c) = Inr ()" "fst (py_for hs (happen L) c) = Inr ()"
proof -
  show one: "fst (happen L h c) = Inr ()" for h c
    by (cases h) (auto simp: py_simps split: prod.split sum.split)
  show "fst (py_for hs (happen L) c) = Inr ()"
  proof (induction hs arbitrary: c)
    case (Cons h hs)
    obtain x c' where "happen L h c = (x, c')" by fastforce
    with one [of h c] Cons show ?case by (simp add: py_simps)
  qed (simp add: py_simps)
qed

lemma let_happen_clients:
  assumes "distinct (map fst tasks)"
  shows "\<exists>r'. let_happen R n tasks r = (Inr (), r') \<and> (\<forall>j. j \<notin> fst ` set tasks \<longrightarrow> rt_client j r' = rt_client j r) \<and>
    (\<forall>i \<in> fst ` set tasks. \<exists>ids. rt_client i r' = snd (py_for (during R n i) (happen (each R i)) ((rt_client i r)\<lparr>recv_msg_ids := ids\<rparr>)))"
  using assms
proof (induction tasks arbitrary: r)
  case Nil
  then show ?case by (simp add: let_happen_def py_simps)
next
  case (Cons t tasks)
  obtain i f where t: "t = (i, f)" by (cases t)
  let ?m = "py_for (during R n i) (happen (each R i))" and ?c = "(rt_client i r)\<lparr>recv_msg_ids := shared_ids (rt_pool r)\<rparr>"
  have "?m ?c = (Inr (), snd (?m ?c))" using happen_returns(2) by (metis prod.collapse)
  then obtain r1 where first: "on_pool (on_client i ?m) r = (Inr (), r1)" and i: "rt_client i r1 = snd (?m ?c)"
    and other: "\<And>j. j \<noteq> i \<Longrightarrow> rt_client j r1 = rt_client j r"
    using pool_step [where m = ?m and i = i and r = r] by blast
  from Cons t obtain r' where rest: "let_happen R n tasks r1 = (Inr (), r')" "\<forall>j. j \<notin> fst ` set tasks \<longrightarrow> rt_client j r' = rt_client j r1"
    "\<forall>i \<in> fst ` set tasks. \<exists>ids. rt_client i r' = snd (py_for (during R n i) (happen (each R i)) ((rt_client i r1)\<lparr>recv_msg_ids := ids\<rparr>))"
    by fastforce
  have "let_happen R n (t # tasks) r = (Inr (), r')" using first rest(1) t by (simp add: let_happen_def py_simps)
  moreover have "i \<notin> fst ` set tasks" using Cons.prems t by auto
  ultimately show ?case using rest(2,3) other i t by fastforce
qed

lemma dequeue_run: "\<exists>c'. dequeue_msg q None MSG c = (Inr (), c') \<and> map_of (msg_queues c' MSG) q = None"
  by (cases "map_of (msg_queues c MSG) q") (simp_all add: dequeue_msg_def del_queue_def delete_lookup)

lemma dequeue_all_clients:
  "\<exists>r'. dequeue_all q is r = (Inr (), r') \<and> (\<forall>i \<in> set is. map_of (msg_queues (rt_client i r') MSG) q = None) \<and>
    (\<forall>i. map_of (msg_queues (rt_client i r) MSG) q = None \<longrightarrow> map_of (msg_queues (rt_client i r') MSG) q = None)"
proof (induction "is" arbitrary: r)
  case Nil
  then show ?case by (simp add: dequeue_all_def py_simps)
next
  case (Cons i "is")
  let ?c = "(rt_client i r)\<lparr>recv_msg_ids := shared_ids (rt_pool r)\<rparr>"
  obtain c' where c': "dequeue_msg q None MSG ?c = (Inr (), c')" "map_of (msg_queues c' MSG) q = None"
    using dequeue_run [of q ?c] by blast
  then obtain r1 where r1: "on_pool (on_client i (dequeue_msg q None MSG)) r = (Inr (), r1)" "rt_client i r1 = c'"
    and other: "\<And>j. j \<noteq> i \<Longrightarrow> rt_client j r1 = rt_client j r"
    using pool_step [where m = "dequeue_msg q None MSG" and i = i and r = r] by blast
  from Cons [of r1] obtain r' where r': "dequeue_all q is r1 = (Inr (), r')" "\<forall>i \<in> set is. map_of (msg_queues (rt_client i r') MSG) q = None"
    "\<forall>i. map_of (msg_queues (rt_client i r1) MSG) q = None \<longrightarrow> map_of (msg_queues (rt_client i r') MSG) q = None" by blast
  have "dequeue_all q (i # is) r = (Inr (), r')" using r1 r' by (simp add: dequeue_all_def py_simps)
  moreover have "map_of (msg_queues (rt_client j r1) MSG) q = None" if "j = i \<or> map_of (msg_queues (rt_client j r) MSG) q = None" for j
    using that c' r1 other by (cases "j = i") auto
  ultimately show ?case using r' by auto
qed

section \<open>An example\<close>

text \<open>A destination that answers: the acknowledgement of the message with the id \<open>0101...\<close> arrives.\<close>

definition demo_frame :: bytes where
  "demo_frame = frame PUBLISH 2 (p_body (demo_pkt 2 [97, 99, 107]))"

definition demo_reply :: env where
  "demo_reply = demo_env\<lparr>during := (\<lambda>_ _. [Chunk demo_frame])\<rparr>"

lemma demo_reply_sel [simp]:
  "own demo_reply = demo_lib" "each demo_reply i = demo_lib" "during demo_reply n i = [Chunk demo_frame]"
  by (simp_all add: demo_reply_def demo_env_def)

definition demo_up :: router where
  "demo_up = (let p = rt_pool demo_router in demo_router\<lparr>rt_draws := 1,
     rt_pool := p\<lparr>members := (members p)(1 := (rt_client 1 demo_router)\<lparr>dispatcher_task := Some Running, pipe := Some 0\<rparr>), shared_ids := []\<rparr>\<rparr>)"

definition demo_pipe :: smart_pipe where
  "demo_pipe = \<lparr>sp_dest = hex_of (replicate 33 2), sp_clients = [1], sp_hints = []\<rparr>"

lemma demo_answered:
  assumes "pipe c = Some 0" and "kp c = kp demo_client" and "buf c = []" and "futs c = [Pending]"
    and "find_meta c (MSG, hex_of (replicate 32 1)) 0 = Some m" and "m_dest_pk_hex m = hex_of (replicate 33 2)"
    and "m_app_ack m = 0" and "\<not> m_probe_one_shot m"
  shows "\<exists>c'. happen demo_lib (Chunk demo_frame) c = (Inr (), c') \<and> futs c' = [Result FTrue]"
proof -
  let ?k = "demo_pkt 2 [97, 99, 107]"
  have body: "length (p_body ?k) < 128 ^ 4" and k: "parsed PUBLISH 2 (p_body ?k) = ?k" and t: "p_type ?k = PUBLISH"
    by (simp_all add: demo_pkt_def parsed_def demo_payload_def demo_section_def demo_tag_def)
  have sp: "split_frames demo_frame = ([demo_frame], [])"
    using frames.split_frames [of "[demo_frame]" "[]"] next_of_frame [OF body, of PUBLISH 2]
    by (simp add: frames.split_stop next_frame_def demo_frame_def)
  obtain str where "to_s demo_lib [97, 99, 107] = Inr str" by simp
  from demo_unpack [OF _ _ this, of 2] obtain p where up: "unpack_async demo_lib (demo_payload 2 [97, 99, 107]) = Inr (Some p)"
    and p: "a_src_pk_hex p = hex_of (replicate 33 2)" "a_queue_id_hex p = hex_of (replicate 32 1)" "a_seq_no p = 0" "a_msg_type p = 2"
    by force
  let ?c1 = "c\<lparr>trace := trace c @ [Sent 0 [0x40, 2, 0, 1]]\<rparr>"
  have acked: "send_puback demo_lib (Some [0, 1]) c = (Inr (), ?c1)"
    using assms(1) by (simp add: send_puback_def py_simps pipe_send_def build_puback_def)
  have "find_meta ?c1 (MSG, hex_of (replicate 32 1)) 0 = Some m" using assms(5) by (simp add: find_meta_alt)
  then have ack: "process_app_ack p ?c1 = (Inr (), ?c1\<lparr>futs := [Result FTrue]\<rparr>)"
    using assms(4,6-8) p by (simp add: process_app_ack_def ack_loop_app future_done_def fut_done_def fut_settle_def del: ack_loop.simps)
  have own: "h_to_b demo_lib (hex_of (replicate 33 2)) = Inr (compact_public_key (kp c))"
    using assms(2) by (simp add: demo_hex demo_client_def new_client_def)
  have "handle_mqtt_packet demo_lib ?k c = process_app_ack p ?c1"
    using acked own up p t by (simp add: handle_mqtt_packet_alt handle_publish_def demo_parse py_simps too_old_def route_def)
  with ack have hp: "handle_mqtt_packet demo_lib ?k c = (Inr (), ?c1\<lparr>futs := [Result FTrue]\<rparr>)" by simp
  have "mqtt_parse_packet demo_frame = Inr ?k" using parse_frame [OF body, of PUBLISH 2] k by (simp add: demo_frame_def)
  with hp have "handle_frame demo_lib demo_frame c = (Inr (), ?c1\<lparr>futs := [Result FTrue]\<rparr>)"
    by (simp add: handle_frame_def py_simps async_wrap_errors_def)
  then have "py_for (fst (split_frames (buf c @ demo_frame))) (handle_frame demo_lib) c = (Inr (), ?c1\<lparr>futs := [Result FTrue]\<rparr>)"
    by (simp add: assms(3) sp py_simps)
  from read_app [OF this] have "mqtt_packet_reader demo_lib demo_frame c =
      (Inr (), set_buf (snd (split_frames (buf c @ demo_frame))) (?c1\<lparr>futs := [Result FTrue]\<rparr>))"
    using assms(3) by (simp add: next_frame_def)
  then show ?thesis by (simp add: py_simps set_buf_def)
qed

lemma leaves_queue: "leaves conn (queue_msg L msg dest q t seq)"
  by (simp add: leaves_def conn.fixed.sending)

lemma demo_queue:
  assumes c: "c = (add_msg_handler 7 (new_client 2 (''a'', 1883) (kp demo_client)))\<lparr>dispatcher_task := Some Running, pipe := Some 0, recv_msg_ids := ids\<rparr>" and d: "length d = 66"
  shows "\<exists>c' m. queue_msg demo_lib (PyStr ''hi'') d (Some (hex_of (replicate 32 1))) MSG None c =
      (Inr ((hex_of (replicate 32 1), 0), 0), c') \<and> pipe c' = Some 0 \<and> kp c' = kp demo_client \<and> buf c' = [] \<and>
    futs c' = [Pending] \<and> find_meta c' (MSG, hex_of (replicate 32 1)) 0 = Some m \<and>
    m_dest_pk_hex m = d \<and> m_app_ack m = 0 \<and> \<not> m_probe_one_shot m"
proof -
  have "signed_section (replicate 32 1) 0 2 1 [104, 105] = Inr (replicate 32 1 @ [0, 0, 0, 0, 0, 0, 0, 0, 0, 0, 0, 2, 1, 104, 105])"
    by (simp add: signed_section_def struct_pack_def be_encode_widths)
  then obtain c' where run: "ordered_ack_send demo_lib (PyStr ''hi'') d (hex_of (replicate 32 1)) MSG None
      (c\<lparr>ticks := 1, last_send := Some 0\<rparr>) = (Inr ((hex_of (replicate 32 1), 0), 0), c')"
    by (simp add: ordered_ack_send_def oas_prepare_def py_simps note_sent_def Let_def get_time_def
        ensure_queue_def set_queue_def get_queue_def next_seq_no_def pack_app AppPacket_def demo_hex
        stamp_value_def stamped_def oas_commit_app c add_msg_handler_def demo_client_def new_client_def py_int_def d)
  from ordered_ack_send_aux [OF run] obtain m where m: "find_meta c' (MSG, hex_of (replicate 32 1)) 0 = Some m" "m_app_ack m = 0"
    "m_dest_pk_hex m = d" "\<not> m_probe_one_shot m" "futs c' = futs c @ [Pending]"
    by (auto split: option.splits)
  have "queue_id_or_random demo_lib (Some (hex_of (replicate 32 1))) c = (Inr (hex_of (replicate 32 1)), c)"
    using demo_queue_id(1) by (cases "hex_of (replicate 32 1)") (simp_all add: queue_id_or_random_def py_simps)
  moreover have "touch_last_send demo_lib c = (Inr (), c\<lparr>ticks := 1, last_send := Some 0\<rparr>)"
    by (simp add: touch_last_send_def get_time_def py_simps c add_msg_handler_def new_client_def)
  ultimately have q: "queue_msg demo_lib (PyStr ''hi'') d (Some (hex_of (replicate 32 1))) MSG None c =
      (Inr ((hex_of (replicate 32 1), 0), 0), c')" using run by (simp add: queue_msg_def py_simps)
  have "conn c' = conn c" using leaves_run [OF leaves_queue q] .
  moreover have "buf c' = buf c" using leaves_run [OF buf_kept(4) q] .
  ultimately show ?thesis using q m by (simp add: conn_def c add_msg_handler_def new_client_def)
qed

lemma demo_sent_up: "\<exists>r'. sp_send demo_reply demo_pipe (PyStr ''hi'') demo_up = (Inr 2, r')"
proof -
  let ?q = "hex_of (replicate 32 1)" and ?d = "hex_of (replicate 33 2)" and ?r = "demo_up\<lparr>rt_draws := 2\<rparr>"
  let ?c = "(rt_client 1 ?r)\<lparr>recv_msg_ids := shared_ids (rt_pool ?r)\<rparr>" and ?m = "py_for [Chunk demo_frame] (happen demo_lib)"
  have c: "?c = (add_msg_handler 7 (new_client 2 (''a'', 1883) (kp demo_client)))\<lparr>dispatcher_task := Some Running, pipe := Some 0, recv_msg_ids := []\<rparr>"
    using demo_members by (simp add: demo_up_def Let_def rt_client_def)
  have "length ?d = 66" by simp
  from demo_queue [OF c this] obtain c1 m where qu: "queue_msg demo_lib (PyStr ''hi'') ?d (Some ?q) MSG None ?c = (Inr ((?q, 0), 0), c1)"
    and c1: "pipe c1 = Some 0" "kp c1 = kp demo_client" "buf c1 = []" "futs c1 = [Pending]" "find_meta c1 (MSG, ?q) 0 = Some m"
      "m_dest_pk_hex m = ?d" "m_app_ack m = 0" "\<not> m_probe_one_shot m" by blast
  from pool_step [where i = 1 and r = ?r and m = "queue_msg demo_lib (PyStr ''hi'') ?d (Some ?q) MSG None", OF qu] obtain r1 where r1: "on_pool (on_client 1 (queue_msg demo_lib (PyStr ''hi'') ?d (Some ?q) MSG None)) ?r =
      (Inr ((?q, 0), 0), r1)" "rt_client 1 r1 = c1" by blast
  let ?c1 = "(rt_client 1 r1)\<lparr>recv_msg_ids := shared_ids (rt_pool r1)\<rparr>"
  have "find_meta ?c1 = find_meta c1" using r1(2) by (simp add: find_meta_alt fun_eq_iff)
  then obtain c2 where "happen demo_lib (Chunk demo_frame) ?c1 = (Inr (), c2)" "futs c2 = [Result FTrue]"
    using demo_answered [of ?c1 m] c1 r1(2) by auto
  then obtain r2 where r2: "on_pool (on_client 1 ?m) r1 = (Inr (), r2)" "futs (rt_client 1 r2) = [Result FTrue]"
    using pool_step [where m = ?m and i = 1 and r = r1] by (fastforce simp: py_simps)
  obtain r3 where r3: "dequeue_all ?q [1] r2 = (Inr (), r3)" using dequeue_all_clients by blast
  have "rt_draws demo_up = 1" by (simp add: demo_up_def Let_def)
  moreover have "some_acked [(1, 0)] r2" using r2(2) by (simp add: some_acked_def future_done_def fut_done_def)
  moreover have qa: "queue_all demo_reply (PyStr ''hi'') ?d ?q [1] ?r = (Inr [(1, 0)], r1)"
    using r1(1) by (simp add: py_except_app py_bind_app py_return_app)
  moreover have "let_happen demo_reply 1 [(1, 0)] r1 = (Inr (), r2)" using r2(1) by (simp add: let_happen_def py_simps)
  ultimately show ?thesis using r3
    by (simp add: sp_send_def demo_pipe_def fresh_msg_id_def py_bind_app py_get_app py_finally_def py_seq_app py_lift_app
        del: queue_all.simps One_nat_def)
qed

section \<open>Properties\<close>

text \<open>The id of the message that the next send of the router has.\<close>

definition next_msg_id :: "env \<Rightarrow> router \<Rightarrow> string" where
  "next_msg_id R r = to_h (own R) (rand_b (own R) (rt_draws r) 32)"

lemma sp_send_app:
  assumes "sp_send R sp msg r = (x, r')"
  shows "\<exists>y r1. queue_all R msg (sp_dest sp) (next_msg_id R r) (sp_clients sp) (r\<lparr>rt_draws := rt_draws r + 1\<rparr>) = (y, r1) \<and>
    (case y of Inl e \<Rightarrow> x = Inl e \<and> r' = r1
     | Inr tasks \<Rightarrow> py_finally (py_seq (let_happen R (rt_draws r) tasks) (py_bind (py_get (some_acked tasks)) (\<lambda>acked.
        if acked then py_lift (msg_len msg) else py_return 0))) (dequeue_all (next_msg_id R r) (sp_clients sp)) r1 = (x, r'))"
proof -
  obtain y r1 where qu: "queue_all R msg (sp_dest sp) (next_msg_id R r) (sp_clients sp) (r\<lparr>rt_draws := rt_draws r + 1\<rparr>) = (y, r1)"
    by fastforce
  then have "sp_send R sp msg r = (case y of Inl e \<Rightarrow> (Inl e, r1)
     | Inr tasks \<Rightarrow> py_finally (py_seq (let_happen R (rt_draws r) tasks) (py_bind (py_get (some_acked tasks)) (\<lambda>acked.
        if acked then py_lift (msg_len msg) else py_return 0))) (dequeue_all (next_msg_id R r) (sp_clients sp)) r1)"
    by (simp add: sp_send_def fresh_msg_id_def next_msg_id_def py_bind_app py_get_app split: sum.split)
  with assms have "case y of Inl e \<Rightarrow> x = Inl e \<and> r' = r1
     | Inr tasks \<Rightarrow> py_finally (py_seq (let_happen R (rt_draws r) tasks) (py_bind (py_get (some_acked tasks)) (\<lambda>acked.
        if acked then py_lift (msg_len msg) else py_return 0))) (dequeue_all (next_msg_id R r) (sp_clients sp)) r1 = (x, r')"
    by (cases y) auto
  with qu show ?thesis by blast
qed

lemma queue_all_returns: "\<exists>tasks r'. queue_all R msg dest q is r = (Inr tasks, r') \<and> (is = [] \<longrightarrow> tasks = [])"
proof (induction "is" arbitrary: r)
  case (Cons i "is")
  let ?m = "py_except (py_bind (on_pool (on_client i (queue_msg (each R i) msg dest (Some q) MSG None)))
      (\<lambda>(_, ack_msg). py_return [(i, ack_msg)])) (\<lambda>_. True) (py_return [])"
  obtain x r1 where run: "?m r = (x, r1)" by fastforce
  obtain e y where "x = Inl e \<or> x = Inr y" by (cases x) auto
  moreover have "x \<noteq> Inl e" for e
    using run by (auto simp: py_except_app py_return_app split: prod.splits sum.splits)
  ultimately have "?m r = (Inr y, r1)" using run by auto
  moreover obtain tasks r2 where "queue_all R msg dest q is r1 = (Inr tasks, r2)" using Cons by blast
  ultimately show ?case by (simp add: py_bind_app py_return_app)
qed (simp add: py_simps)

text \<open>
  C18: nothing is left of a message that has been sent. Whatever happens while the send waits, and
  whatever its outcome, afterwards no client of the pipe has the message in its queues any more;
  the result is 0 or the length of the message; and without clients it is 0.
\<close>

theorem sp_send_spec:
  assumes "sp_send R sp msg r = (x, r')"
  shows "(\<forall>i \<in> set (sp_clients sp). map_of (msg_queues (rt_client i r') MSG) (next_msg_id R r) = None) \<and>
    (x = Inr 0 \<or> x = msg_len msg) \<and> (sp_clients sp = [] \<longrightarrow> x = Inr 0)"
proof -
  let ?q = "next_msg_id R r"
  obtain tasks r1 where "queue_all R msg (sp_dest sp) ?q (sp_clients sp) (r\<lparr>rt_draws := rt_draws r + 1\<rparr>) = (Inr tasks, r1)"
    and nil: "sp_clients sp = [] \<longrightarrow> tasks = []"
    using queue_all_returns by blast
  with sp_send_app [OF assms] have run: "py_finally (py_seq (let_happen R (rt_draws r) tasks) (py_bind (py_get (some_acked tasks)) (\<lambda>acked.
        if acked then py_lift (msg_len msg) else py_return 0))) (dequeue_all ?q (sp_clients sp)) r1 = (x, r')" by auto
  obtain y r2 where wait: "py_seq (let_happen R (rt_draws r) tasks) (py_bind (py_get (some_acked tasks)) (\<lambda>acked.
        if acked then py_lift (msg_len msg) else py_return 0)) r1 = (y, r2)" by fastforce
  from dequeue_all_clients obtain r3 where "dequeue_all ?q (sp_clients sp) r2 = (Inr (), r3)"
    "\<forall>i \<in> set (sp_clients sp). map_of (msg_queues (rt_client i r3) MSG) ?q = None" by blast
  with run wait have out: "x = y" "\<forall>i \<in> set (sp_clients sp). map_of (msg_queues (rt_client i r') MSG) ?q = None"
    by (auto simp: py_finally_def)
  have "fst (let_happen R n ts s) = Inr ()" for n ts s
    unfolding let_happen_def
  proof (induction ts arbitrary: s)
    case (Cons t ts)
    obtain i f where t: "t = (i, f)" by (cases t)
    let ?m = "py_for (during R n i) (happen (each R i))" and ?c = "(rt_client i s)\<lparr>recv_msg_ids := shared_ids (rt_pool s)\<rparr>"
    have "?m ?c = (Inr (), snd (?m ?c))" using happen_returns(2) by (metis prod.collapse)
    then obtain s1 where "on_pool (on_client i ?m) s = (Inr (), s1)" using pool_step [where m = ?m and i = i and r = s] by blast
    with Cons [of s1] t show ?case by (simp add: py_simps)
  qed (simp add: py_simps)
  then obtain s where "let_happen R (rt_draws r) tasks r1 = (Inr (), s)" by (metis prod.collapse)
  with wait have "y = (if some_acked tasks s then msg_len msg else Inr 0)" by (auto simp: py_simps split: if_splits)
  with out nil show ?thesis by (auto simp: some_acked_def)
qed

text \<open>
  C2: success is authentic. When \<open>send\<close> reports success for a message, one of the clients it was
  sent through has received, in what was left in its buffer or arrived while the send waited,
  an acknowledgement of this very message that unpacks, and so carries a valid signature, under
  the key of the destination. No broker, and no other peer, can make a send succeed.
\<close>

theorem send_success_is_authentic:
  assumes "sp_send R sp msg r = (Inr n, r')" and "n \<noteq> 0" and "distinct (sp_clients sp)"
    and "\<forall>i \<in> set (sp_clients sp). client_inv (rt_client i r)" and "next_msg_id R r \<noteq> []"
  shows "\<exists>i \<in> set (sp_clients sp). \<exists>payload. sublist payload (buf (rt_client i r) @ arrived (during R (rt_draws r) i)) \<and>
    acknowledges (each R i) (sp_dest sp) (next_msg_id R r) payload"
proof (rule ccontr)
  assume none: "\<not> ?thesis"
  let ?q = "next_msg_id R r" and ?r = "r\<lparr>rt_draws := rt_draws r + 1\<rparr>"
  obtain y r1 where qu: "queue_all R msg (sp_dest sp) ?q (sp_clients sp) ?r = (y, r1)" by fastforce
  have "\<forall>i \<in> set (sp_clients sp). client_inv (rt_client i ?r)" using assms(4) by simp
  from queue_all_awaits [OF qu assms(3) this assms(5)] obtain tasks where t: "y = Inr tasks" "queued_on (sp_dest sp) ?q (sp_clients sp) tasks ?r r1"
    by blast
  from t(2) have "distinct (map fst tasks)" by (simp add: queued_on_def)
  from let_happen_clients [OF this] obtain r2 where w: "let_happen R (rt_draws r) tasks r1 = (Inr (), r2)"
    "\<forall>i \<in> fst ` set tasks. \<exists>ids. rt_client i r2 = snd (py_for (during R (rt_draws r) i) (happen (each R i)) ((rt_client i r1)\<lparr>recv_msg_ids := ids\<rparr>))"
    by blast
  have pending: "\<not> future_done f (rt_client i r2)" if "(i, f) \<in> set tasks" for i f
  proof -
    have i: "i \<in> set (sp_clients sp)" "awaits f (sp_dest sp) ?q (rt_client i r1)" "buf (rt_client i r1) = buf (rt_client i r)"
      using t(2) that by (fastforce simp: queued_on_def)+
    then have "silent (each R i) (sp_dest sp) ?q (buf (rt_client i r1) @ arrived (during R (rt_draws r) i))"
      using none by (auto simp: silent_def)
    with i(2) have "awaits f (sp_dest sp) ?q (snd (py_for (during R (rt_draws r) i) (happen (each R i)) ((rt_client i r1)\<lparr>recv_msg_ids := ids\<rparr>)))" for ids
      by (intro awaits_all) simp_all
    then have "awaits f (sp_dest sp) ?q (rt_client i r2)" using w(2) that by force
    then show ?thesis by (auto simp: awaits_def future_done_def fut_done_peek)
  qed
  then have "\<not> some_acked tasks r2" by (auto simp: some_acked_def list_ex_iff)
  with w(1) sp_send_app [OF assms(1)] qu t(1) have "Inr n = Inr (0::nat)"
    by (auto simp: py_finally_def py_simps split: prod.splits sum.splits)
  with assms(2) show False by simp
qed

lemma demo_next_id: "next_msg_id demo_reply demo_up = hex_of (replicate 32 1)"
  by (simp add: next_msg_id_def demo_up_def Let_def)

theorem send_success_is_authentic_witness:
  "\<exists>r'. sp_send demo_reply demo_pipe (PyStr ''hi'') demo_up = (Inr 2, r') \<and>
    (\<exists>payload. sublist payload (buf (rt_client 1 demo_up) @ demo_frame) \<and>
      acknowledges demo_lib (hex_of (replicate 33 2)) (hex_of (replicate 32 1)) payload)"
proof -
  obtain r' where run: "sp_send demo_reply demo_pipe (PyStr ''hi'') demo_up = (Inr 2, r')" using demo_sent_up by blast
  have "client_inv (rt_client 1 demo_up)"
    using demo_members by (simp add: demo_up_def Let_def rt_client_def add_msg_handler_def new_client_inv)
  moreover have "hex_of (replicate 32 1) \<noteq> []" using demo_queue_id(1) by (metis list.size(3) zero_neq_numeral)
  ultimately show ?thesis using send_success_is_authentic [OF run] run
    by (simp add: demo_pipe_def demo_next_id)
qed

theorem sp_send_spec_witness:
  "\<exists>r'. sp_send demo_reply demo_pipe (PyStr ''hi'') demo_up = (Inr 2, r') \<and>
    map_of (msg_queues (rt_client 1 r') MSG) (hex_of (replicate 32 1)) = None"
proof -
  obtain r' where run: "sp_send demo_reply demo_pipe (PyStr ''hi'') demo_up = (Inr 2, r')" using demo_sent_up by blast
  from sp_send_spec [OF run] run show ?thesis by (simp add: demo_pipe_def demo_next_id)
qed

end
