(* ===== verification/Exchange.thy ===== *)
theory Exchange
  imports Republish
begin

text \<open>
  Two clients together: a message queued by one and published by its dispatcher reaches the
  handlers of the other, and the acknowledgement that the other queues and publishes resolves
  the future of the first. The two run on different machines, each with its own clock, random
  source and network, but with the same library code.
\<close>

section \<open>What the two have in common\<close>

definition peers :: "lib \<Rightarrow> lib \<Rightarrow> bool" where
  "peers L M \<longleftrightarrow> to_b M = to_b L \<and> to_s M = to_s L \<and> to_h M = to_h L \<and> h_to_b M = h_to_b L \<and>
     vk_from_string M = vk_from_string L \<and> verify M = verify L"

definition conversions :: "lib \<Rightarrow> bool" where
  "conversions L \<longleftrightarrow> hex_codec L \<and> text_codec L \<and> pool_same L \<and> (\<forall>b. to_b L (PyBytes b) = Inr b)"

lemma peers_sym: "peers L M \<Longrightarrow> peers M L"
  by (simp add: peers_def)

lemma peers_enc_str: "peers L M \<Longrightarrow> mqtt_enc_str M s = mqtt_enc_str L s"
  by (simp add: peers_def mqtt_enc_str_def)

section \<open>A packet\<close>

text \<open>What one client packs, the other unpacks.\<close>

lemma pack_arrives:
  assumes "pack L p c = (Inr (raw, p'), c')" and "key_pair L (private_key (kp c)) (compact_public_key (kp c))"
    and "peers L M" and "conversions L" and "conversions M"
    and "a_queue_id_hex p = to_h L q" and "length q = 32" and "a_msg p = PyStr s"
  shows "unpack_async M raw = Inr (Some p')" and "a_queue_id_hex p' = a_queue_id_hex p" and "a_seq_no p' = a_seq_no p"
    and "a_msg_type p' = a_msg_type p" and "a_msg p' = a_msg p" and "a_timestamp p' = Some (stamp_value L p c)"
    and "a_src_pk_hex p' = to_h L (compact_public_key (kp c))"
proof -
  let ?pk = "compact_public_key (kp c)"
  have same: "to_s M = to_s L" "to_h M = to_h L" "vk_from_string M = vk_from_string L" "ecdsa_verify_async M = verify L"
    using assms(3,5) by (simp_all add: peers_def conversions_def pool_same_def)
  from pack_Inr [OF assms(1)] obtain q' m sm sig where made: "h_to_b L (a_queue_id_hex p) = Inr q'"
    "(if truthy (a_msg p) then to_b L (a_msg p) else Inr []) = Inr m"
    "signed_section q' (a_seq_no p) (stamp_value L p c) (a_msg_type p) m = Inr sm"
    "sign L (draws c) (private_key (kp c)) sm = Inr sig" "raw = ?pk @ sig @ sm"
    and p': "p' = p\<lparr>a_timestamp := Some (stamp_value L p c), a_sig_hex := to_h L sig, a_src_pk_hex := to_h L ?pk\<rparr>"
    by blast
  have "h_to_b L (to_h L q) = Inr q" using assms(4) by (simp add: conversions_def hex_codec_def)
  then have q': "q' = q" using made(1) assms(6) by simp
  have decd: "to_s M m = Inr s"
    using made(2) assms(4,8) same(1) by (cases s) (auto simp: conversions_def text_codec_def)
  from assms(2) obtain vk sig' where key: "length ?pk = 33" "vk_from_string L ?pk = Inr vk"
    and "sign L (draws c) (private_key (kp c)) sm = Inr sig'" "length sig' = 64" "verify L vk sig' sm = Inr ()"
    unfolding key_pair_def by metis
  with made(4) have sig: "length sig = 64" "verify L vk sig sm = Inr ()" by auto
  from made(3) obtain x y z where enc: "pack_I (a_seq_no p) = Inr x" "pack_Q (stamp_value L p c) = Inr y"
    "pack_B (a_msg_type p) = Inr z" and sm: "sm = q @ x @ y @ z @ m"
    by (auto simp: q' signed_section_Inr)
  have len: "45 \<le> length sm"
    using assms(7) fmt_I.enc_width [OF enc(1)] fmt_Q.enc_width [OF enc(2)] fmt_B.enc_width [OF enc(3)] by (simp add: sm)
  from parse_signed_section [OF made(3) _ decd, of ?pk sig] assms(7)
  have "parse_signed M ?pk sig sm = Inr p'"
    by (simp add: q' p' same assms(6,8))
  then show "unpack_async M raw = Inr (Some p')"
    using key sig len by (simp add: unpack_async_def made(5) unpack_with_parts same)
qed (use pack_Inr [OF assms(1)] in auto)

text \<open>On an encodable string the asynchronous variant does the same.\<close>

lemma pack_async_is_pack:
  assumes "conversions L" and "a_msg p = PyStr s" and "to_b L (PyStr s) = Inr b"
  shows "pack_async L p = pack L p"
  using async_variants_agree [of L p s b] assms by (simp add: conversions_def)

section \<open>A stream\<close>

text \<open>A PUBLISH that one client makes is one frame, which the other parses.\<close>

lemma publish_wire:
  assumes "publish L dest (PyBytes x) False c = (Inr (wire, f), c')" and "peers L M" and "conversions L" and "conversions M"
  shows "\<exists>body pid. wire = frame PUBLISH 2 body \<and> length pid = 2 \<and>
    mqtt_parse_publish M (parsed PUBLISH 2 body) = Inr (Some (dest, x, Some pid))"
proof -
  from assms(1) obtain pid c1 where pid: "packet_ack_future PUBACK c = (Inr (pid, f), c1)"
    and b: "build_publish L dest (PyBytes x) pid False = Inr wire"
    by (auto simp: publish_def py_simps split: prod.splits sum.splits if_splits)
  have len: "length pid = 2" using packet_ack_future_Inr [OF pid] by auto
  from b assms(3) obtain t where t: "mqtt_enc_str L dest = Inr t" and wire: "wire = frame PUBLISH 2 (t @ pid @ x)"
    by (auto simp: build_publish_frame res_bind_Inr_conv conversions_def)
  have "mqtt_parse_publish M (parsed PUBLISH 2 (t @ pid @ x)) = Inr (Some (dest, x, Some pid))"
    using t assms(4) len by (intro parse_publish_body) (simp_all add: peers_enc_str [OF assms(2)] conversions_def)
  with wire len show ?thesis by blast
qed

text \<open>A single frame, however it is cut into chunks, is handled.\<close>

lemma read_frame:
  assumes "handle_mqtt_packet L (parsed t (f mod 16) body) c = (Inr (), c')"
    and "buf c = []" and "length (frame t f body) < 128 ^ 4" and "concat chunks = frame t f body"
  shows "py_for chunks (mqtt_packet_reader L) c = (Inr (), c')" and "buf c' = []"
proof -
  have len: "length body < 128 ^ 4" using assms(3) by (simp add: length_frame)
  from frames.split_frames [of "[frame t f body]" "[]"] next_of_frame [OF len, of t f]
  have split: "split_frames (frame t f body) = ([frame t f body], [])"
    by (simp add: frames.split_stop next_frame_def)
  have run: "py_for [frame t f body] (handle_frame L) c = (Inr (), c')"
    using assms(1) parse_frame [OF len, of t f]
    by (simp add: handle_frame_def py_simps async_wrap_errors_def)
  show empty: "buf c' = []"
    using handle_run_buf [of "Inr ()" c' L "parsed t (f mod 16) body" c] assms(1,2)
    by (simp add: async_wrap_errors_def py_simps)
  then have "set_buf [] c' = c'" by (metis set_buf_sel(3))
  then show "py_for chunks (mqtt_packet_reader L) c = (Inr (), c')"
    using read_chunks [of c chunks L "()" c'] run assms(2,4) by (simp add: split next_frame_def)
qed

section \<open>The acknowledgement\<close>

text \<open>A reading of the clock fits the eight bytes of a timestamp.\<close>

definition clock_fits :: "lib \<Rightarrow> nat \<Rightarrow> bool" where
  "clock_fits L n \<longleftrightarrow> 0 \<le> clock L n \<and> clock L n < 2 ^ 64"

lemma clock_fits_int: "clock_fits L n \<Longrightarrow> 0 \<le> py_int (clock L n) \<and> py_int (clock L n) < 2 ^ 64"
  by (simp add: clock_fits_def py_int_def floor_less_iff)

text \<open>A new entry, and what making it leaves alone: the packet ids and the connection.\<close>

definition unsent :: "lib \<Rightarrow> meta \<Rightarrow> bool" where
  "unsent L m \<longleftrightarrow> \<not> m_probe_one_shot m \<and> m_updated m = 0 \<and> m_created m \<in> range (clock L)"

lemma commit_new:
  assumes "oas_commit L dest qid t i out c = (Inr (key, f), c')" and "find_meta c (t, qid) i = None"
    and "find_meta c' (t, qid) i = Some m"
  shows "unsent L m"
proof -
  from assms(1) obtain q where q: "map_of (msg_queues c t) qid = Some q"
    by (auto simp: oas_commit_def py_simps get_queue_def split: option.splits)
  with assms(2) have "map_of q i = None" by (simp add: find_meta_alt)
  then have c': "c' = set_queue t qid (AList.update i (new_meta dest i out (clock L (ticks c)) f) q)
      (c\<lparr>futs := futs c @ [Pending], ticks := ticks c + 1\<rparr>)"
    using assms(1) unfolding oas_commit_app [OF q] by auto
  have "find_meta c' (t, qid) i = Some (new_meta dest i out (clock L (ticks c)) f)"
    by (simp add: c' find_meta_set_queue update_lookup)
  with assms(3) show ?thesis by (auto simp: unsent_def)
qed

definition post :: "client \<Rightarrow> (mqtt_enum \<Rightarrow> (bytes \<times> nat) list) \<times> nat option \<times> bool" where
  "post c = (packet_ids c, pipe c, pipe_open c)"

lemma post_get_time [leaves_rules]: "leaves post (get_time L)"
  and post_draw [leaves_rules]: "leaves post (draw L n)"
  and post_sign_with [leaves_rules]: "leaves post (sign_with sg s)"
  and post_get_queue [leaves_rules]: "leaves post (get_queue t qid)"
  and post_put_meta [leaves_rules]: "leaves post (put_meta t qid k m)"
  and post_new_future [leaves_rules]: "leaves post new_future"
  and post_ensure [leaves_rules]: "leaves post (py_modify (ensure_queue t qid))"
  and post_sent [leaves_rules]: "leaves post (py_modify (\<lambda>c. c\<lparr>sent_msg_ids := h1 c\<rparr>))"
  and post_last_send [leaves_rules]: "leaves post (py_modify (\<lambda>c. c\<lparr>last_send := u\<rparr>))"
  by (rule leavesI, simp add: get_time_def draw_def sign_with_def get_queue_def put_meta_def set_queue_def
      new_future_def ensure_queue_def py_simps post_def pipe_open_def split: option.split)+

lemma post_send: "leaves post (ordered_ack_send L msg dest qid t seq)"
  unfolding ordered_ack_send_def oas_prepare_def note_sent_def oas_commit_def pack_def stamp_def Let_def
  by (intro leaves_rules)

lemma post_queue_id [leaves_rules]: "leaves post (queue_id_or_random L q)"
  unfolding queue_id_or_random_def by (cases q rule: option.exhaust) (auto intro: leaves_rules split: list.split)

lemma post_enqueue_ack: "leaves post (enqueue_ack L src qid k)"
  unfolding enqueue_ack_def queue_msg_async_def ordered_ack_send_async_def oas_prepare_def oas_commit_def
    note_sent_def pack_async_def stamp_def touch_last_send_def Let_def
  by (intro leaves_rules)

text \<open>A key that has no acknowledgement gets one.\<close>

lemma enqueue_ack_queues:
  assumes "key_pair M (private_key (kp c)) (compact_public_key (kp c))" and "conversions M" and "clock_fits M (ticks c + 1)"
    and "to_b M (PyStr ''ack'') = Inr x" and "qid = to_h M q" and "length q = 32" and "length src = 66"
    and "0 \<le> i" and "i < 2 ^ 32" and "find_meta c (MSGACK, qid) i = None"
  shows "\<exists>c' m p c1 c2. enqueue_ack M src qid i c = (Inr (), c') \<and> find_meta c' (MSGACK, qid) i = Some m \<and>
    m_dest_pk_hex m = src \<and> unsent M m \<and> kp c1 = kp c \<and>
    pack M (AppPacket qid i (msg_val MSGACK) (PyStr ''ack'')) c1 = (Inr (m_out m, p), c2)"
proof -
  let ?p = "AppPacket qid i (msg_val MSGACK) (PyStr ''ack'')"
  define d where "d = c\<lparr>ticks := ticks c + 1, last_send := Some (clock M (ticks c))\<rparr>"
  let ?e = "ensure_queue MSGACK qid d"
  have qid: "length qid = 64" using assms(2,5,6) by (simp add: conversions_def hex_codec_def)
  then have "qid \<noteq> []" by auto
  then have same_id: "queue_id_or_random M (Some qid) = py_return qid"
    by (simp add: queue_id_or_random_def split: list.split)
  have prep: "oas_prepare M (PyStr ''ack'') src qid MSGACK (Some i) d = (Inr i, ?e)"
    using qid assms(7) by (simp add: oas_prepare_def py_simps)
  have kp: "kp ?e = kp c" "ticks ?e = ticks c + 1" by (simp_all add: d_def ensure_queue_def set_queue_def)
  have "0 \<le> stamp_value M ?p ?e" "stamp_value M ?p ?e < 2 ^ 64"
    using clock_fits_int [OF assms(3)] by (simp_all add: stamp_value_def AppPacket_def kp(2))
  with pack_unpack [of M ?e ?p q "''ack''" x] assms kp obtain raw p c2 where "pack M ?p ?e = (Inr (raw, p), c2)"
    by (auto simp: conversions_def AppPacket_def)
  moreover have "pack_async M ?p = pack M ?p"
    using pack_async_is_pack [OF assms(2) _ assms(4)] by (simp add: AppPacket_def)
  ultimately have packed: "pack M ?p ?e = (Inr (raw, p), c2)" "pack_async M ?p ?e = (Inr (raw, p), c2)" by simp_all
  note shelf = leaves_run [OF shelf_pack packed(1)]
  then have "msg_queues c2 = msg_queues ?e" by (simp add: shelf_def)
  then obtain qu where "map_of (msg_queues c2 MSGACK) qid = Some qu"
    by (auto simp: ensure_queue_def set_queue_def update_lookup split: if_splits)
  from oas_commit_app [OF this, of M src i raw] obtain key f c' where
    com: "oas_commit M src qid MSGACK i raw c2 = (Inr (key, f), c')" by (auto split: option.splits)
  have "find_meta d (MSGACK, qid) i = None" using assms(10) by (simp add: d_def find_meta_alt)
  with oas_run [OF prep shelf com] obtain m where m: "find_meta c' (MSGACK, qid) i = Some m" "m_dest_pk_hex m = src" "m_out m = raw"
    by auto
  have "find_meta c2 = find_meta d"
    using find_meta_shelf [of c2 d] shelf oas_prepare_Inr [OF prep] find_meta_shelf [of c2 ?e] by simp
  with \<open>find_meta d (MSGACK, qid) i = None\<close> have "unsent M m" by (intro commit_new [OF com _ m(1)]) simp
  have "enqueue_ack M src qid i c = (Inr (), c')"
    using prep packed(2) com
    by (simp add: enqueue_ack_def queue_msg_async_def same_id touch_last_send_def get_time_def py_simps
        ordered_ack_send_async_def d_def)
  with m packed(1) kp \<open>unsent M m\<close> show ?thesis by blast
qed

section \<open>Receiving\<close>

lemma packed_number:
  assumes "pack L p c = (Inr (raw, p'), c')"
  shows "0 \<le> a_seq_no p \<and> a_seq_no p < 2 ^ 32"
proof -
  from pack_Inr [OF assms] obtain q m t sm where "signed_section q (a_seq_no p) t (a_msg_type p) m = Inr sm" by blast
  then show ?thesis by (auto simp: signed_section_Inr struct_pack_def split: if_splits)
qed

text \<open>A packed message that arrives is acknowledged to the broker and comes to \<open>process_app_msg\<close>.\<close>

lemma message_reaches:
  assumes made: "pack L (AppPacket qid i (msg_val MSG) (PyStr s)) c = (Inr (raw, p), c')"
      "key_pair L (private_key (kp c)) (compact_public_key (kp c))"
    and link: "peers L M" "conversions L" "conversions M" and qid: "qid = to_h L q" "length q = 32"
    and pkt: "p_type pkt = PUBLISH" "pid \<noteq> []"
      "mqtt_parse_publish M pkt = Inr (Some (to_h L (compact_public_key (kp b)), raw, Some pid))"
    and fresh: "py_int (clock M (ticks b)) - py_int (clock L (ticks c)) \<le> 2 * republish_duration b"
    and line: "pipe b = Some r" "pipe_send_exn M (length (trace b)) = None"
  shows "handle_mqtt_packet M pkt b =
      process_app_msg M p (b\<lparr>trace := trace b @ [Sent r (build_puback pid)], ticks := ticks b + 1\<rparr>) \<and>
    a_queue_id_hex p = qid \<and> a_seq_no p = i \<and> a_msg p = PyStr s \<and> a_src_pk_hex p = to_h L (compact_public_key (kp c)) \<and>
    length (to_h L (compact_public_key (kp c))) = 66 \<and> 0 \<le> i \<and> i < 2 ^ 32 \<and> qid = to_h M q"
proof -
  have up: "unpack_async M raw = Inr (Some p)" and p: "a_queue_id_hex p = qid" "a_seq_no p = i" "a_msg_type p = msg_val MSG"
      "a_msg p = PyStr s" "a_timestamp p = Some (py_int (clock L (ticks c)))" "a_src_pk_hex p = to_h L (compact_public_key (kp c))"
    using pack_arrives [OF made link, of q s] qid by (simp_all add: AppPacket_def stamp_value_def)
  have puback: "send_puback M (Some pid) b = (Inr (), b\<lparr>trace := trace b @ [Sent r (build_puback pid)]\<rparr>)"
    using pkt(2) line by (simp add: send_puback_def py_simps pipe_send_def)
  have topic: "h_to_b M (to_h L (compact_public_key (kp b))) = Inr (compact_public_key (kp b))"
    using link(1,2) by (simp add: peers_def conversions_def hex_codec_def)
  have "handle_mqtt_packet M pkt b =
      process_app_msg M p (b\<lparr>trace := trace b @ [Sent r (build_puback pid)], ticks := ticks b + 1\<rparr>)"
    using handle_publish_reaches [OF pkt(1,3) topic up p(3) _ puback] fresh p(5) by simp
  moreover have "length (to_h L (compact_public_key (kp c))) = 66"
    using made(2) link(2) by (simp add: key_pair_def conversions_def hex_codec_def)
  moreover have "0 \<le> i" "i < 2 ^ 32" using packed_number [OF made(1)] by (simp_all add: AppPacket_def)
  moreover have "qid = to_h M q" using qid(1) link(1) by (simp add: peers_def)
  ultimately show ?thesis using p by simp
qed

text \<open>The message at its destination: acknowledged to the broker, given to the handlers, to be acknowledged to the sender.\<close>

lemma message_received:
  assumes made: "pack L (AppPacket qid i (msg_val MSG) (PyStr s)) c = (Inr (raw, p), c')"
      "key_pair L (private_key (kp c)) (compact_public_key (kp c))"
    and link: "peers L M" "conversions L" "conversions M" and qid: "qid = to_h L q" "length q = 32"
    and pkt: "p_type pkt = PUBLISH" "pid \<noteq> []"
      "mqtt_parse_publish M pkt = Inr (Some (to_h L (compact_public_key (kp b)), raw, Some pid))"
    and own: "key_pair M (private_key (kp b)) (compact_public_key (kp b))" "clock_fits M (ticks b + 3)" "to_b M (PyStr ''ack'') = Inr x"
    and fresh: "py_int (clock M (ticks b)) - py_int (clock L (ticks c)) \<le> 2 * republish_duration b"
    and line: "pipe b = Some r" "pipe_send_exn M (length (trace b)) = None"
    and msg: "to_b M (PyStr s) = Inr sb" "handlers_contained M"
    and new: "find_meta b (MSGACK, qid) i = None" "map_of (recv_msg_ids b) (sha256_hex_async M sb) = None"
  shows "\<exists>b' m pa c1 c2. handle_mqtt_packet M pkt b = (Inr (), b') \<and>
    trace b' = trace b @ Sent r (build_puback pid) #
      calls M (PyStr s) (to_h L (compact_public_key (kp c))) qid (msg_handlers b) \<and>
    find_meta b' (MSGACK, qid) i = Some m \<and> m_dest_pk_hex m = to_h L (compact_public_key (kp c)) \<and>
    unsent M m \<and> post b' = post b \<and> kp c1 = kp b \<and> pack M (AppPacket qid i (msg_val MSGACK) (PyStr ''ack'')) c1 = (Inr (m_out m, pa), c2)"
proof -
  let ?src = "to_h L (compact_public_key (kp c))"
  let ?b = "b\<lparr>trace := trace b @ [Sent r (build_puback pid)], ticks := ticks b + 1\<rparr>"
  let ?d = "drop_old_acks qid i ?b"
  let ?e = "?d\<lparr>ticks := ticks b + 2,
      recv_msg_ids := AList.update (sha256_hex_async M sb) (clock M (ticks b + 1)) (recv_msg_ids b),
      trace := trace ?b @ calls M (PyStr s) ?src qid (msg_handlers b)\<rparr>"
  from message_reaches [OF made link qid pkt fresh line]
  have run: "handle_mqtt_packet M pkt b = process_app_msg M p ?b" and p: "a_queue_id_hex p = qid" "a_seq_no p = i" "a_msg p = PyStr s"
      "a_src_pk_hex p = ?src"
    and len: "length ?src = 66" and num: "0 \<le> i" "i < 2 ^ 32" and qid': "qid = to_h M q" by simp_all
  have none: "find_meta ?b (MSGACK, qid) i = None" using new(1) by (simp add: find_meta_alt)
  have del: "deliver M (PyStr s) ?src qid ?d = (Inr (), ?e)"
    using new(2) unfolding deliver_app [OF msg] by simp
  have "find_meta ?e (MSGACK, qid) i = find_meta ?d (MSGACK, qid) i" by (simp add: find_meta_alt)
  then have gone: "find_meta ?e (MSGACK, qid) i = None" using none by (simp add: find_meta_drop_old)
  have kp: "kp ?e = kp b" by (simp add: drop_old_acks_def split: option.split)
  have "clock_fits M (ticks ?e + 1)" using own(2) by (simp add: numeral_3_eq_3)
  from enqueue_ack_queues [OF own(1) [folded kp] link(3) this own(3) qid' qid(2) len num gone] kp
  obtain b' m pa c1 c2 where ack: "enqueue_ack M ?src qid i ?e = (Inr (), b')" "find_meta b' (MSGACK, qid) i = Some m"
      "m_dest_pk_hex m = ?src" "unsent M m" "kp c1 = kp b" "pack M (AppPacket qid i (msg_val MSGACK) (PyStr ''ack'')) c1 = (Inr (m_out m, pa), c2)"
    by auto
  have "process_app_msg M p ?b = (Inr (), b')"
    using resend_ack_none [OF none] del ack(1) by (simp add: process_app_msg_def Let_def py_simps p)
  moreover have "trace b' = trace ?e" by (rule leaves_run [OF still_enqueue_ack ack(1)])
  moreover have "post b' = post ?e" by (rule leaves_run [OF post_enqueue_ack ack(1)])
  moreover have "post ?e = post b" by (simp add: post_def pipe_open_def drop_old_acks_def set_queue_def split: option.split)
  ultimately show ?thesis using run ack by auto
qed

text \<open>The acknowledgement back at the sender: the future of the message is resolved.\<close>

lemma ack_received:
  assumes made: "pack M (AppPacket qid i (msg_val MSGACK) (PyStr s)) c = (Inr (raw, p), c')"
      "key_pair M (private_key (kp c)) (compact_public_key (kp c))"
    and link: "peers M L" "conversions M" "conversions L" and qid: "qid = to_h M q" "length q = 32"
    and pkt: "p_type pkt = PUBLISH" "pid \<noteq> []"
      "mqtt_parse_publish L pkt = Inr (Some (to_h M (compact_public_key (kp a)), raw, Some pid))"
    and line: "pipe a = Some r" "pipe_send_exn L (length (trace a)) = None"
    and waits: "find_meta a (MSG, qid) i = Some m" "m_dest_pk_hex m = to_h M (compact_public_key (kp c))"
      "m_app_ack m < length (futs a)" "futs a ! m_app_ack m = Pending"
  shows "\<exists>a'. handle_mqtt_packet L pkt a = (Inr (), a') \<and> futs a' ! m_app_ack m = Result FTrue"
proof -
  let ?a = "a\<lparr>trace := trace a @ [Sent r (build_puback pid)]\<rparr>"
  have up: "unpack_async L raw = Inr (Some p)" and p: "a_queue_id_hex p = qid" "a_seq_no p = i" "a_msg_type p = msg_val MSGACK"
      "a_src_pk_hex p = to_h M (compact_public_key (kp c))"
    using pack_arrives [OF made link, of q s] qid by (simp_all add: AppPacket_def)
  have puback: "send_puback L (Some pid) a = (Inr (), ?a)"
    using pkt(2) line by (simp add: send_puback_def py_simps pipe_send_def)
  have topic: "h_to_b L (to_h M (compact_public_key (kp a))) = Inr (compact_public_key (kp a))"
    using link(1,2) by (simp add: peers_def conversions_def hex_codec_def)
  have run: "handle_mqtt_packet L pkt a = process_app_ack p ?a"
    using pkt up p(3) topic puback
    by (simp add: handle_mqtt_packet_alt handle_publish_def py_simps too_old_def route_def)
  have "find_meta ?a = find_meta a" by (intro ext) (simp add: find_meta_alt)
  with waits p have "ack_target [MSG, PROBE] qid i (a_src_pk_hex p) ?a = Some (MSG, m)" by simp
  with waits(3,4) show ?thesis
    unfolding run process_app_ack_def p(1,2) ack_loop_app
    by (auto simp: future_done_def fut_done_def fut_settle_def)
qed

section \<open>Sending\<close>

text \<open>When a turn of the dispatcher has sent an entry, what has left is its PUBLISH, and little else has changed.\<close>

lemma queue_put_rest [simp]:
  "kp (queue_put k i m c) = kp c" "futs (queue_put k i m c) = futs c"
  by (simp_all add: queue_put_def put_meta_def set_queue_def split: option.split)

lemma publish_futs:
  "publish L topic payload dup c = (Inr (b, f), c') \<Longrightarrow> kp c' = kp c \<and> futs c' = futs c @ [Pending]"
  by (auto simp: publish_def py_simps split: prod.splits sum.splits if_splits dest!: packet_ack_future_Inr)

lemma republish_sent:
  assumes "find_meta c k i = Some m" and "republish_entry L k i now interval duration ignore_acked c = (r, c')"
    and "trace c' = trace c @ [Sent p wire]"
  shows "(\<exists>c1 f c2. publish L (m_dest_pk_hex m) (PyBytes (m_out m)) False c1 = (Inr (wire, f), c2)) \<and>
    find_meta c' k i = Some (attempted m now) \<and> kp c' = kp c \<and> pipe c' = Some p \<and> futs c' = futs c @ [Pending]"
proof -
  define d where "d = queue_put k i (attempted m now) (c\<lparr>draws := draws c + 1\<rparr>)"
  have run: "attempt L m d = (r, c')"
    using assms(2,3) unfolding republish_app [OF assms(1)] d_def by (auto split: if_splits)
  have put: "find_meta d k i = Some (attempted m now)"
    using find_meta_put [of "c\<lparr>draws := draws c + 1\<rparr>" k i "attempted m now"] found_queue [of "c\<lparr>draws := draws c + 1\<rparr>" k i m]
      assms(1) by (simp add: d_def)
  have d: "trace d = trace c" "kp d = kp c" "futs d = futs c" by (simp_all add: d_def)
  obtain x c2 where pub: "publish L (m_dest_pk_hex m) (PyBytes (m_out m)) False d = (x, c2)" by fastforce
  note same = rest_sel [OF leaves_run [OF publish_rest pub]]
  have "\<exists>b f. x = Inr (b, f)"
    using run pub same(2) assms(3) d(1) by (cases x) (auto simp: attempt_def py_simps)
  then obtain b f where x: "x = Inr (b, f)" by blast
  from run have c': "c' = snd (safe_pipe_send L b c2)"
    by (auto simp: attempt_def py_simps pub x split: prod.splits sum.splits)
  then have "wire = b" "pipe c2 = Some p" and sent: "c' = c2\<lparr>trace := trace c2 @ [Sent p wire]\<rparr>"
    using assms(3) same(2) d(1) by (auto simp: safe_pipe_send_app pipe_open_def split: if_splits option.splits)
  moreover have "find_meta c' k i = find_meta c2 k i" by (simp add: sent find_meta_alt)
  ultimately show ?thesis
    using pub put same d publish_futs [OF pub [unfolded x]] by (auto simp: x)
qed

lemma prepare_ticks:
  assumes "oas_prepare L msg dest qid t seq c = (r, c')"
  shows "ticks c \<le> ticks c'"
proof -
  have "ticks c \<le> ticks c1" if "note_sent L msg c = (x, c1)" for x c1
    using that by (auto simp: note_sent_def py_simps get_time_def Let_def split: sum.splits if_splits)
  moreover have "ticks (ensure_queue t qid d) = ticks d" for d by (simp add: ensure_queue_def set_queue_def)
  ultimately show ?thesis
    using assms by (auto simp: oas_prepare_def py_simps get_queue_def split: if_splits prod.splits sum.splits option.splits)
qed

text \<open>The entry of a new message, with the time it was packed.\<close>

lemma sent_entry:
  assumes "ordered_ack_send L msg dest qid t None c = (Inr ((qid', i), f), c')"
  shows "\<exists>m c1 p c2. find_meta c' (t, qid) i = Some m \<and> m_app_ack m = f \<and> m_dest_pk_hex m = dest \<and>
    pack L (AppPacket qid i (msg_val t) msg) c1 = (Inr (m_out m, p), c2) \<and> kp c1 = kp c \<and>
    unsent L m \<and> post c' = post c \<and> ticks c1 \<in> {ticks c..<ticks c'} \<and> f < length (futs c') \<and> futs c' ! f = Pending \<and> kp c' = kp c"
proof -
  from assms obtain c1 out p c2 where prep: "oas_prepare L msg dest qid t None c = (Inr i, c1)"
    and pk: "pack L (AppPacket qid i (msg_val t) msg) c1 = (Inr (out, p), c2)"
    and com: "oas_commit L dest qid t i out c2 = (Inr ((qid', i), f), c')"
    by (auto simp: ordered_ack_send_def py_simps oas_commit_def split: prod.splits sum.splits option.splits)
  have kp: "kp c1 = kp c" "kp c2 = kp c1"
    using oas_prepare_Inr [OF prep] leaves_run [OF shelf_pack pk] by (simp_all add: shelf_def)
  from oas_run [OF prep leaves_run [OF shelf_pack pk] com] obtain m where
    m: "find_meta c' (t, qid) i = Some m" "m_app_ack m = f" "m_dest_pk_hex m = dest" "m_out m = out"
      "f = length (futs c)" "futs c' = futs c @ [Pending]"
    by (auto split: option.splits)
  have "find_meta c2 (t, qid) i = None"
    using com oas_run [OF prep leaves_run [OF shelf_pack pk] com] find_meta_shelf [OF leaves_run [OF shelf_pack pk]]
      oas_prepare_Inr [OF prep] find_meta_shelf [of c1 "ensure_queue t qid c"] by (simp split: option.splits)
  from commit_new [OF com this m(1)] have new: "unsent L m" .
  have "post c' = post c" by (rule leaves_run [OF post_send assms])
  with new have rest: "unsent L m \<and> post c' = post c" by blast
  have packed: "ticks c2 = ticks c1 + 1"
    using pk by (auto simp: pack_app AppPacket_def stamped_def split: if_splits sum.splits)
  from com obtain qu where qu: "map_of (msg_queues c2 t) qid = Some qu"
    by (auto simp: oas_commit_def py_simps get_queue_def split: option.splits)
  have "ticks c2 \<le> ticks c' \<and> kp c' = kp c2"
    using com unfolding oas_commit_app [OF qu] by (auto simp: set_queue_def split: option.splits)
  moreover have "ticks c \<le> ticks c1" by (rule prepare_ticks [OF prep])
  ultimately have "ticks c1 \<in> {ticks c..<ticks c'}" "kp c' = kp c" using packed kp by auto
  with m pk kp(1) rest show ?thesis by (intro exI [of _ m] exI [of _ c1]) auto
qed

text \<open>A new entry does go out on an open line.\<close>

lemma publish_goes:
  assumes "is_ascii L topic" and "mqtt_enc_str L topic = Inr t" and "to_b L (PyBytes x) = Inr x"
    and "packet_ids c SUBACK = []" and "packet_ids c PUBACK = []"
  shows "\<exists>pid f c'. publish L topic (PyBytes x) False c = (Inr (frame PUBLISH 2 (t @ pid @ x), f), c') \<and> length pid = 2"
proof -
  from assms(4,5) get_packet_id_total [of c] obtain pid c1 where pid: "get_packet_id c = (Inr pid, c1)" by auto
  then obtain f c2 where fut: "packet_ack_future PUBACK c = (Inr (pid, f), c2)"
    by (simp add: packet_ack_future_def py_simps new_future_def)
  from packet_ack_future_Inr [OF this] have "length pid = 2" by auto
  then show ?thesis
    using assms(1-3) fut by (auto simp: publish_def py_simps build_publish_frame)
qed

lemma republish_goes:
  assumes found: "find_meta c k i = Some m" and new: "unsent L m"
    and time: "0 \<le> now" "\<And>n b. uniform L n 0 b = 0" "\<And>n. now - clock L n < duration"
    and pub: "is_ascii L (m_dest_pk_hex m)" "mqtt_enc_str L (m_dest_pk_hex m) = Inr t" "to_b L (PyBytes (m_out m)) = Inr (m_out m)"
    and line: "post c = (\<lambda>_. [], Some p, True)" "pipe_send_exn L (length (trace c)) = None"
  shows "\<exists>pid c'. republish_entry L k i now interval duration False c = (Inr (), c') \<and> length pid = 2 \<and>
    trace c' = trace c @ [Sent p (frame PUBLISH 2 (t @ pid @ m_out m))] \<and> buf c' = buf c"
proof -
  define d where "d = queue_put k i (attempted m now) (c\<lparr>draws := draws c + 1\<rparr>)"
  have "\<not> m_probe_one_shot m" "republish_due m False (uniform L (draws c) 0 (backoff interval duration (m_attempts m))) now duration"
    using new time by (auto simp: unsent_def republish_due_def)
  then have run: "republish_entry L k i now interval duration False c = attempt L m d"
    by (simp add: republish_app [OF found] d_def)
  have d: "trace d = trace c" "packet_ids d SUBACK = []" "packet_ids d PUBACK = []" "pipe d = Some p" "pipe_open d" "buf d = buf c"
    using line(1) by (auto simp: d_def post_def queue_put_def put_meta_def set_queue_def pipe_open_def split: option.split)
  from publish_goes [OF pub d(2,3)] obtain pid f e where
    made: "publish L (m_dest_pk_hex m) (PyBytes (m_out m)) False d = (Inr (frame PUBLISH 2 (t @ pid @ m_out m), f), e)" "length pid = 2"
    by blast
  have e: "buf e = buf c"
    using made(1) d(6) by (auto simp: publish_def py_simps split: prod.splits sum.splits if_splits dest!: packet_ack_future_Inr)
  note same = rest_sel [OF leaves_run [OF publish_rest made(1)]]
  have "attempt L m d = (Inr (), e\<lparr>trace := trace c @ [Sent p (frame PUBLISH 2 (t @ pid @ m_out m))]\<rparr>)"
    using made same d line(2) by (simp add: attempt_def py_simps safe_pipe_send_app)
  with run made(2) e show ?thesis
    by (intro exI [of _ pid] exI [of _ "e\<lparr>trace := trace c @ [Sent p (frame PUBLISH 2 (t @ pid @ m_out m))]\<rparr>"]) simp
qed

section \<open>The exchange\<close>

text \<open>What a client must be for a frame to get through to it: its buffer is empty and its pipe takes a PUBACK.\<close>

definition receptive :: "lib \<Rightarrow> client \<Rightarrow> bool" where
  "receptive L c \<longleftrightarrow> buf c = [] \<and> pipe c \<noteq> None \<and> pipe_send_exn L (length (trace c)) = None"

definition identity :: "lib \<Rightarrow> client \<Rightarrow> bool" where
  "identity L c \<longleftrightarrow> key_pair L (private_key (kp c)) (compact_public_key (kp c))"

text \<open>The first half: from the packed message of the one to the handlers of the other, who then has an acknowledgement queued.\<close>

lemma message_arrives:
  assumes link: "peers LA LB" "conversions LA" "conversions LB"
    and ids: "identity LA c1" "identity LB b" "clock_fits LB (ticks b + 3)" "to_b LB (PyStr ''ack'') = Inr x"
    and made: "pack LA (AppPacket qid i (msg_val MSG) (PyStr s)) c1 = (Inr (raw, p), c2)" "qid = to_h LA q" "length q = 32"
    and pub: "publish LA (to_h LA (compact_public_key (kp b))) (PyBytes raw) False c3 = (Inr (wire, g), c4)"
    and arrives: "concat chunks = wire" "length wire < 128 ^ 4" "receptive LB b"
      "py_int (clock LB (ticks b)) - py_int (clock LA (ticks c1)) \<le> 2 * republish_duration b"
    and unseen: "to_b LB (PyStr s) = Inr sb" "handlers_contained LB" "find_meta b (MSGACK, qid) i = None"
      "map_of (recv_msg_ids b) (sha256_hex_async LB sb) = None"
  shows "\<exists>b1 pid m p d1 d2. py_for chunks (mqtt_packet_reader LB) b = (Inr (), b1) \<and>
    trace b1 = trace b @ Sent (the (pipe b)) (build_puback pid) #
      calls LB (PyStr s) (to_h LA (compact_public_key (kp c1))) qid (msg_handlers b) \<and>
    find_meta b1 (MSGACK, qid) i = Some m \<and> m_dest_pk_hex m = to_h LA (compact_public_key (kp c1)) \<and>
    unsent LB m \<and> post b1 = post b \<and> buf b1 = [] \<and> kp d1 = kp b \<and>
    pack LB (AppPacket qid i (msg_val MSGACK) (PyStr ''ack'')) d1 = (Inr (m_out m, p), d2)"
proof -
  let ?bob = "to_h LA (compact_public_key (kp b))"
  from publish_wire [OF pub link] obtain body pid where wire: "wire = frame PUBLISH 2 body" "length pid = 2"
    "mqtt_parse_publish LB (parsed PUBLISH 2 body) = Inr (Some (?bob, raw, Some pid))" by blast
  from wire(2) have pid: "pid \<noteq> []" by auto
  from arrives(3) obtain r where r: "pipe b = Some r" "pipe_send_exn LB (length (trace b)) = None" "buf b = []"
    by (auto simp: receptive_def)
  from message_received [OF made(1) ids(1) [unfolded identity_def] link made(2,3) _ pid wire(3) ids(2) [unfolded identity_def] ids(3,4) _ r(1,2) unseen]
    arrives(4)
  obtain b1 ma pa' c5 c6 where got: "handle_mqtt_packet LB (parsed PUBLISH 2 body) b = (Inr (), b1)"
    and facts: "trace b1 = trace b @ Sent r (build_puback pid) # calls LB (PyStr s) (to_h LA (compact_public_key (kp c1))) qid (msg_handlers b)"
      "find_meta b1 (MSGACK, qid) i = Some ma" "m_dest_pk_hex ma = to_h LA (compact_public_key (kp c1))" "unsent LB ma" "post b1 = post b"
      "kp c5 = kp b" "pack LB (AppPacket qid i (msg_val MSGACK) (PyStr ''ack'')) c5 = (Inr (m_out ma, pa'), c6)"
    by (auto simp: parsed_def)
  from read_frame [of LB PUBLISH 2 body b b1 chunks] got r(3) arrives(1,2) wire(1)
  have "py_for chunks (mqtt_packet_reader LB) b = (Inr (), b1)" "buf b1 = []" by simp_all
  with facts r(1) show ?thesis by auto
qed

lemma message_leg:
  assumes link: "peers LA LB" "conversions LA" "conversions LB"
    and ids: "identity LA a" "identity LB b" "clock_fits LB (ticks b + 3)" "to_b LB (PyStr ''ack'') = Inr x"
    and queued: "ordered_ack_send LA (PyStr s) (to_h LA (compact_public_key (kp b))) qid MSG None a = (Inr ((qid', i), f), a1)"
      "qid = to_h LA q" "length q = 32"
    and sent: "republish_entry LA (MSG, qid) i now interval duration ign a1 = (rA, a2)" "trace a2 = trace a1 @ [Sent pa wire]"
    and arrives: "concat chunks = wire" "length wire < 128 ^ 4" "receptive LB b"
      "\<forall>t \<in> {ticks a..<ticks a1}. py_int (clock LB (ticks b)) - py_int (clock LA t) \<le> 2 * republish_duration b"
    and unseen: "to_b LB (PyStr s) = Inr sb" "handlers_contained LB" "find_meta b (MSGACK, qid) i = None"
      "map_of (recv_msg_ids b) (sha256_hex_async LB sb) = None"
  shows "\<exists>b1 pid m p c1 c2. py_for chunks (mqtt_packet_reader LB) b = (Inr (), b1) \<and>
    trace b1 = trace b @ Sent (the (pipe b)) (build_puback pid) #
      calls LB (PyStr s) (to_h LA (compact_public_key (kp a))) qid (msg_handlers b) \<and>
    find_meta b1 (MSGACK, qid) i = Some m \<and> m_dest_pk_hex m = to_h LA (compact_public_key (kp a)) \<and>
    unsent LB m \<and> post b1 = post b \<and> buf b1 = [] \<and> kp c1 = kp b \<and>
    pack LB (AppPacket qid i (msg_val MSGACK) (PyStr ''ack'')) c1 = (Inr (m_out m, p), c2)"
proof -
  from sent_entry [OF queued(1)] obtain m c1 p c2 where m: "find_meta a1 (MSG, qid) i = Some m" "m_dest_pk_hex m = to_h LA (compact_public_key (kp b))"
    and pk: "pack LA (AppPacket qid i (msg_val MSG) (PyStr s)) c1 = (Inr (m_out m, p), c2)" "kp c1 = kp a" "ticks c1 \<in> {ticks a..<ticks a1}"
    by blast
  from republish_sent [OF m(1) sent] obtain c3 g c4 where
    pub: "publish LA (to_h LA (compact_public_key (kp b))) (PyBytes (m_out m)) False c3 = (Inr (wire, g), c4)" by (auto simp: m(2))
  have "identity LA c1" using ids(1) pk(2) by (simp add: identity_def)
  from message_arrives [OF link this ids(2-4) pk(1) queued(2,3) pub arrives(1-3) bspec [OF arrives(4) pk(3)] unseen]
  show ?thesis by (simp add: pk(2))
qed

text \<open>
  C5: a message is delivered and acknowledged. Alice queues a message for Bob's key; a turn of her
  dispatcher sends the entry; the bytes reach Bob in whatever chunks. If he has not seen the
  message and it is not too old by his clock, he acknowledges it to his broker and every handler
  of his is called once, with the message, Alice's key and the queue id. A turn of his dispatcher
  sends the acknowledgement; when its bytes have reached Alice, in whatever chunks, the future
  she got for the message has its result.
\<close>

theorem exchange_completes:
  assumes link: "peers LA LB" "conversions LA" "conversions LB"
    and ids: "identity LA a" "identity LB b" "clock_fits LB (ticks b + 3)" "to_b LB (PyStr ''ack'') = Inr x"
    and queued: "ordered_ack_send LA (PyStr s) (to_h LA (compact_public_key (kp b))) qid MSG None a = (Inr ((qid', i), f), a1)"
      "qid = to_h LA q" "length q = 32"
    and sent: "republish_entry LA (MSG, qid) i nowA interval durA ignA a1 = (rA, a2)" "trace a2 = trace a1 @ [Sent pa wire]"
    and arrives: "concat chunks = wire" "length wire < 128 ^ 4" "receptive LB b"
      "\<forall>t \<in> {ticks a..<ticks a1}. py_int (clock LB (ticks b)) - py_int (clock LA t) \<le> 2 * republish_duration b"
    and unseen: "to_b LB (PyStr s) = Inr sb" "handlers_contained LB" "find_meta b (MSGACK, qid) i = None"
      "map_of (recv_msg_ids b) (sha256_hex_async LB sb) = None"
    and read: "py_for chunks (mqtt_packet_reader LB) b = (rb, b1)"
    and replied: "republish_entry LB (MSGACK, qid) i nowB interval' durB ignB b1 = (rB, b2)" "trace b2 = trace b1 @ [Sent pb reply]"
    and home: "concat chunks' = reply" "length reply < 128 ^ 4" "receptive LA a2"
      "py_for chunks' (mqtt_packet_reader LA) a2 = (ra, a3)"
  shows "(\<exists>pid. trace b1 = trace b @ Sent (the (pipe b)) (build_puback pid) #
      calls LB (PyStr s) (to_h LA (compact_public_key (kp a))) qid (msg_handlers b)) \<and>
    rb = Inr () \<and> ra = Inr () \<and> futs a1 ! f = Pending \<and> futs a3 ! f = Result FTrue"
proof -
  let ?alice = "to_h LA (compact_public_key (kp a))" and ?bob = "to_h LA (compact_public_key (kp b))"
  note link' = peers_sym [OF link(1)] link(3,2)
  have hex: "to_h LB = to_h LA" using link(1) by (simp add: peers_def)
  from sent_entry [OF queued(1)] obtain m where m: "find_meta a1 (MSG, qid) i = Some m" "m_app_ack m = f" "m_dest_pk_hex m = ?bob"
    and f: "f < length (futs a1)" "futs a1 ! f = Pending" and kp: "kp a1 = kp a" by blast
  from republish_sent [OF m(1) sent] have a2: "find_meta a2 (MSG, qid) i = Some (attempted m nowA)" "kp a2 = kp a"
    "pipe a2 = Some pa" "futs a2 = futs a1 @ [Pending]" using kp by auto
  from message_leg [OF link ids queued sent arrives unseen] read obtain pid ma pa' c5 c6 where
    b1: "rb = Inr ()" "trace b1 = trace b @ Sent (the (pipe b)) (build_puback pid) # calls LB (PyStr s) ?alice qid (msg_handlers b)"
    and ack: "find_meta b1 (MSGACK, qid) i = Some ma" "m_dest_pk_hex ma = ?alice" "kp c5 = kp b"
      "pack LB (AppPacket qid i (msg_val MSGACK) (PyStr ''ack'')) c5 = (Inr (m_out ma, pa'), c6)"
    by auto
  from republish_sent [OF ack(1) replied] obtain c7 g' c8 where
    pub': "publish LB (to_h LB (compact_public_key (kp a2))) (PyBytes (m_out ma)) False c7 = (Inr (reply, g'), c8)"
    by (auto simp: ack(2) a2(2) hex)
  from publish_wire [OF pub' link'] obtain body' pid' where reply: "reply = frame PUBLISH 2 body'" "length pid' = 2"
    "mqtt_parse_publish LA (parsed PUBLISH 2 body') = Inr (Some (to_h LB (compact_public_key (kp a2)), m_out ma, Some pid'))" by blast
  from reply(2) have pid': "pid' \<noteq> []" by auto
  have "key_pair LB (private_key (kp c5)) (compact_public_key (kp c5))" using ids(2) ack(3) by (simp add: identity_def)
  from ack_received [OF ack(4) this link' _ queued(3) _ pid' reply(3) a2(3) _ a2(1)] home(3) f
  obtain a3' where a3': "handle_mqtt_packet LA (parsed PUBLISH 2 body') a2 = (Inr (), a3')" "futs a3' ! f = Result FTrue"
    by (auto simp: parsed_def queued(2) hex m(2,3) ack(3) a2(4) nth_append receptive_def)
  from read_frame [of LA PUBLISH 2 body' a2 a3' chunks'] a3'(1) home reply(1)
  have "a3 = a3'" "ra = Inr ()" by (simp_all add: receptive_def)
  with a3'(2) b1 f(2) show ?thesis by auto
qed

text \<open>Two clients of the concrete library, with different keys, that exchange a message.\<close>

definition demo_alice :: client where
  "demo_alice = demo_client\<lparr>pipe := Some 0\<rparr>"

definition demo_bob :: client where
  "demo_bob = (add_msg_handler 7 demo_client)\<lparr>pipe := Some 0,
     kp := \<lparr>compact_public_key = replicate 33 3, private_key = replicate 33 3, public_key_hex = hex_of (replicate 33 3)\<rparr>\<rparr>"

lemma demo_pair_sel [simp]:
  "kp demo_alice = kp demo_client" "compact_public_key (kp demo_bob) = replicate 33 3"
  "private_key (kp demo_bob) = replicate 33 3" "buf demo_bob = []" "buf demo_alice = []" "pipe demo_bob = Some 0" "trace demo_bob = []"
  "msg_handlers demo_bob = [7]" "recv_msg_ids demo_bob = []" "msg_queues demo_bob t = []" "ticks demo_bob = 0"
  "republish_duration demo_bob = republish_duration demo_client" "trace demo_alice = []"
  "post demo_bob = (\<lambda>_. [], Some 0, True)" "post demo_alice = (\<lambda>_. [], Some 0, True)"
  by (simp_all add: demo_alice_def demo_bob_def add_msg_handler_def demo_client_def new_client_def post_def pipe_open_def)

lemma demo_peers: "peers demo_lib demo_lib" "conversions demo_lib"
  by (simp_all add: peers_def conversions_def demo_hex_codec demo_text_codec demo_pool_same)

lemma demo_identities: "identity demo_lib demo_alice" "identity demo_lib demo_bob"
  by (simp_all add: identity_def demo_key_pair demo_client_def new_client_def)

lemma demo_ascii: "list_all (\<lambda>c. (of_char c :: nat) < 128) (hex_of b)"
proof -
  have digits: "\<forall>c \<in> set ''0123456789abcdef''. (of_char c :: nat) < 128" by simp
  have "(of_char (hex_digit n) :: nat) < 128" for n
  proof -
    have "n mod 16 < length ''0123456789abcdef''" by simp
    then have "hex_digit n \<in> set ''0123456789abcdef''" unfolding hex_digit_def by (rule nth_mem)
    with digits show ?thesis by (rule bspec)
  qed
  then show ?thesis by (induction b) auto
qed

lemma demo_raw_length:
  assumes "pack demo_lib (AppPacket (hex_of q) i t (PyStr s)) c = (Inr (raw, p), c')"
    and "length q = 32" and "length (compact_public_key (kp c)) = 33" and "s \<noteq> []"
  shows "length raw = 142 + length s"
proof -
  have sel: "a_queue_id_hex (AppPacket (hex_of q) i t (PyStr s)) = hex_of q" "a_msg (AppPacket (hex_of q) i t (PyStr s)) = PyStr s"
    by (simp_all add: AppPacket_def)
  from pack_Inr [OF assms(1)] obtain i' n t' m sm where sm: "signed_section q i' n t' m = Inr sm"
      and parts: "Inr m = to_b demo_lib (PyStr s)" "raw = compact_public_key (kp c) @ demo_tag (private_key (kp c)) sm @ sm"
    using assms(4) by (auto simp: sel demo_hex)
  from sm obtain x y z where enc: "pack_I i' = Inr x" "pack_Q n = Inr y" "pack_B t' = Inr z" and "sm = q @ x @ y @ z @ m"
    by (auto simp: signed_section_Inr)
  moreover have "length m = length s" using parts(1) by simp
  ultimately have "length sm = 45 + length s"
    using assms(2) fmt_I.enc_width [OF enc(1)] fmt_Q.enc_width [OF enc(2)] fmt_B.enc_width [OF enc(3)] by simp
  with parts(2) assms(3) show ?thesis by (simp add: demo_tag_def)
qed

lemma demo_frame_small:
  assumes "length raw < 1000" and "length pid = 2" and "length t = 68"
  shows "length (frame PUBLISH 2 (t @ pid @ raw)) < 128 ^ 4"
proof -
  have body: "length (t @ pid @ raw) < 1100" using assms by simp
  then have "length (mqtt_encode_varint (length (t @ pid @ raw))) \<le> 4" unfolding encode_length by simp
  with body show ?thesis unfolding length_frame by simp
qed

lemma demo_topic: "length k = 33 \<Longrightarrow> mqtt_enc_str demo_lib (hex_of k) = Inr ([0, 66] @ map of_char (hex_of k))"
  by (simp add: mqtt_enc_str_def struct_pack_def be_encode_widths)

text \<open>What is queued on a line of the concrete library goes out, in a small frame.\<close>

lemma demo_goes:
  assumes found: "find_meta c (t, qid) i = Some m" and new: "unsent demo_lib m" and line: "post c = (\<lambda>_. [], Some p, True)"
    and dest: "m_dest_pk_hex m = hex_of k" "length k = 33"
    and out: "pack demo_lib (AppPacket (hex_of q) j ty (PyStr s)) d = (Inr (m_out m, ap), d')"
      "length q = 32" "length (compact_public_key (kp d)) = 33" "s \<noteq> []" "length s < 800"
  shows "\<exists>wire c'. republish_entry demo_lib (t, qid) i 0 2 60 False c = (Inr (), c') \<and>
    trace c' = trace c @ [Sent p wire] \<and> length wire < 128 ^ 4 \<and> buf c' = buf c"
proof -
  have "length (m_out m) < 1000" using demo_raw_length [OF out(1-4)] out(5) by simp
  moreover have "length ([0, 66] @ map of_char (hex_of k) :: bytes) = 68" using dest(2) by simp
  moreover have "\<exists>pid c'. republish_entry demo_lib (t, qid) i 0 2 60 False c = (Inr (), c') \<and> length pid = 2 \<and>
    trace c' = trace c @ [Sent p (frame PUBLISH 2 (([0, 66] @ map of_char (hex_of k)) @ pid @ m_out m))] \<and> buf c' = buf c"
    using demo_topic [OF dest(2)]
    by (intro republish_goes [OF found new _ _ _ _ _ _ line]) (simp_all add: dest(1) demo_ascii)
  ultimately show ?thesis using demo_frame_small by blast
qed

lemma demo_queued_hi:
  "\<exists>c. ordered_ack_send demo_lib (PyStr ''hi'') (hex_of (replicate 33 3)) (hex_of (replicate 32 1)) MSG None demo_alice
     = (Inr ((hex_of (replicate 32 1), 0), 0), c) \<and> buf c = []"
proof -
  have "signed_section (replicate 32 1) 0 1 1 [104, 105] =
      Inr (replicate 32 1 @ [0, 0, 0, 0, 0, 0, 0, 0, 0, 0, 0, 1, 1, 104, 105])"
    by (simp add: signed_section_def struct_pack_def be_encode_widths)
  then show ?thesis
    by (simp add: ordered_ack_send_def oas_prepare_def py_simps note_sent_def Let_def get_time_def
        ensure_queue_def set_queue_def get_queue_def next_seq_no_def pack_app AppPacket_def demo_hex
        stamp_value_def stamped_def oas_commit_app demo_alice_def demo_client_def new_client_def py_int_def)
qed

theorem exchange_completes_witness:
  "\<exists>a1 a2 wire b1 b2 reply a3.
     ordered_ack_send demo_lib (PyStr ''hi'') (hex_of (replicate 33 3)) (hex_of (replicate 32 1)) MSG None demo_alice
       = (Inr ((hex_of (replicate 32 1), 0), 0), a1) \<and>
     republish_entry demo_lib (MSG, hex_of (replicate 32 1)) 0 0 2 60 False a1 = (Inr (), a2) \<and> trace a2 = trace a1 @ [Sent 0 wire] \<and>
     py_for [take 9 wire, drop 9 wire] (mqtt_packet_reader demo_lib) demo_bob = (Inr (), b1) \<and>
     Handled 7 (PyStr ''hi'') (hex_of (replicate 33 2)) (hex_of (replicate 32 1)) \<in> set (trace b1) \<and>
     republish_entry demo_lib (MSGACK, hex_of (replicate 32 1)) 0 0 2 60 False b1 = (Inr (), b2) \<and> trace b2 = trace b1 @ [Sent 0 reply] \<and>
     py_for [reply] (mqtt_packet_reader demo_lib) a2 = (Inr (), a3) \<and> futs a3 ! 0 = Result FTrue"
proof -
  let ?qid = "hex_of (replicate 32 1)" and ?alice = "hex_of (replicate 33 2)" and ?bob = "hex_of (replicate 33 3)"
  have keys: "to_h demo_lib (compact_public_key (kp demo_bob)) = ?bob" "to_h demo_lib (compact_public_key (kp demo_alice)) = ?alice"
    by (simp_all add: demo_client_def new_client_def)
  have len: "length (replicate 32 1 :: bytes) = 32" by simp
  have fits: "clock_fits demo_lib (ticks demo_bob + 3)" by (simp add: clock_fits_def)
  obtain a1 where a1: "ordered_ack_send demo_lib (PyStr ''hi'') ?bob ?qid MSG None demo_alice = (Inr ((?qid, 0), 0), a1)" "buf a1 = []"
    using demo_queued_hi by blast
  from sent_entry [OF a1(1)] obtain m c1 p c2 where m: "find_meta a1 (MSG, ?qid) 0 = Some m" "m_dest_pk_hex m = ?bob" "unsent demo_lib m"
    and pk: "pack demo_lib (AppPacket ?qid 0 (msg_val MSG) (PyStr ''hi'')) c1 = (Inr (m_out m, p), c2)" "kp c1 = kp demo_alice"
    and line: "post a1 = (\<lambda>_. [], Some 0, True)" by auto
  have "length (compact_public_key (kp c1)) = 33" by (simp add: pk(2) demo_client_def new_client_def)
  from demo_goes [OF m(1,3) line m(2) _ pk(1) len this] obtain wire a2 where
    a2: "republish_entry demo_lib (MSG, ?qid) 0 0 2 60 False a1 = (Inr (), a2)" "trace a2 = trace a1 @ [Sent 0 wire]"
      "length wire < 128 ^ 4" "buf a2 = []" using a1(2) by auto
  have rec: "receptive demo_lib demo_bob" by (simp add: receptive_def)
  have "to_b demo_lib (PyStr ''ack'') = Inr (map of_char ''ack'')" "to_b demo_lib (PyStr ''hi'') = Inr (map of_char ''hi'')" by simp_all
  note enc = this
  have cut: "concat [take 9 wire, drop 9 wire] = wire" by simp
  have timely: "\<forall>t \<in> {ticks demo_alice..<ticks a1}. py_int (clock demo_lib (ticks demo_bob)) - py_int (clock demo_lib t) \<le> 2 * republish_duration demo_bob"
    by (simp add: py_int_def demo_client_def new_client_def)
  have seen: "find_meta demo_bob (MSGACK, ?qid) 0 = None" by (simp add: find_meta_alt)
  have own: "ordered_ack_send demo_lib (PyStr ''hi'') (to_h demo_lib (compact_public_key (kp demo_bob))) ?qid MSG None demo_alice = (Inr ((?qid, 0), 0), a1)"
    using a1(1) unfolding keys .
  have hexq: "?qid = to_h demo_lib (replicate 32 1)" by simp
  have known: "map_of (recv_msg_ids demo_bob) h = None" for h by simp
  note first = demo_peers(1) demo_peers(2) demo_peers(2) demo_identities fits enc(1) own hexq len a2(1,2) cut a2(3) rec timely
    enc(2) demo_contained seen known
  from message_leg [OF first] obtain b1 ma pa c5 c6 where
    b1: "py_for [take 9 wire, drop 9 wire] (mqtt_packet_reader demo_lib) demo_bob = (Inr (), b1)"
    and ack: "find_meta b1 (MSGACK, ?qid) 0 = Some ma" "unsent demo_lib ma" "post b1 = (\<lambda>_. [], Some 0, True)" "m_dest_pk_hex ma = ?alice"
      "kp c5 = kp demo_bob" "pack demo_lib (AppPacket ?qid 0 (msg_val MSGACK) (PyStr ''ack'')) c5 = (Inr (m_out ma, pa), c6)"
    by (auto simp: demo_client_def new_client_def)
  have "length (compact_public_key (kp c5)) = 33" by (simp add: ack(5))
  from demo_goes [OF ack(1-4) _ ack(6) len this] obtain reply b2 where
    b2: "republish_entry demo_lib (MSGACK, ?qid) 0 0 2 60 False b1 = (Inr (), b2)" "trace b2 = trace b1 @ [Sent 0 reply]" "length reply < 128 ^ 4"
    by auto
  obtain ra a3 where a3: "py_for [reply] (mqtt_packet_reader demo_lib) a2 = (ra, a3)" by fastforce
  have "pipe a2 = Some 0" using republish_sent [OF m(1) a2(1,2)] by simp
  then have rec': "receptive demo_lib a2" using a2(4) by (simp add: receptive_def)
  have whole: "concat [reply] = reply" by simp
  from exchange_completes [OF first b1 b2(1,2) whole b2(3) rec' a3] have
    "Handled 7 (PyStr ''hi'') ?alice ?qid \<in> set (trace b1)" "ra = Inr ()" "futs a3 ! 0 = Result FTrue"
    by (auto simp: calls_def demo_client_def new_client_def)
  with a1(1) a2(1,2) b1 b2(1,2) a3 show ?thesis by blast
qed

end
