(* ===== verification/Acked_Send.thy ===== *)
theory Acked_Send
  imports Send_Spec Exchange
begin

text \<open>
  A send through a smart pipe that is acknowledged succeeds: the counterpart of the authenticity
  of \<open>Send_Spec\<close>. Success needs one of the clients only, whatever the others do, and tolerates
  whatever else its broker sends before the acknowledgement, any cutting of the stream into
  chunks, and turns of the dispatcher in between.
\<close>

section \<open>The waiting client\<close>

text \<open>
  The client of the key \<open>k\<close> has a line, and the message that it queued with the future \<open>f\<close>; or the
  future is done. Neither sending acknowledgements nor anything received changes that.
\<close>

definition holds :: "nat \<Rightarrow> string \<Rightarrow> string \<Rightarrow> int \<Rightarrow> keypair \<Rightarrow> client \<Rightarrow> bool" where
  "holds f dest q j k c \<longleftrightarrow> kp c = k \<and> pipe c \<noteq> None \<and> f < length (futs c) \<and>
     (\<exists>m. find_meta c (MSG, q) j = Some m \<and> m_app_ack m = f \<and> m_dest_pk_hex m = dest)"

definition answered :: "nat \<Rightarrow> client \<Rightarrow> bool" where
  "answered f c \<longleftrightarrow> (\<exists>w. w \<noteq> Pending \<and> fut_peek (futs c) f = Some w)"

definition expects :: "nat \<Rightarrow> string \<Rightarrow> string \<Rightarrow> int \<Rightarrow> keypair \<Rightarrow> client \<Rightarrow> bool" where
  "expects f dest q j k c \<longleftrightarrow> holds f dest q j k c \<or> answered f c"

lemma expects_same:
  "expects f dest q j k c \<Longrightarrow> kp c' = kp c \<Longrightarrow> pipe c' = pipe c \<Longrightarrow> futs c' = futs c \<Longrightarrow>
   find_meta c' (MSG, q) j = find_meta c (MSG, q) j \<Longrightarrow> expects f dest q j k c'"
  by (auto simp: expects_def holds_def answered_def)

lemma expects_new: "expects f dest q j k c \<Longrightarrow> expects f dest q j k (c\<lparr>futs := futs c @ [Pending]\<rparr>)"
  by (auto simp: expects_def holds_def answered_def fut_peek_def nth_append find_meta_alt split: if_splits)

lemma answered_done: "v \<noteq> Pending \<Longrightarrow> answered f c \<Longrightarrow> answered f (c\<lparr>futs := fut_settle i v (futs c)\<rparr>)"
  unfolding answered_def using futures.settle_stable [of "futs c" f _ i v] by fastforce

lemma expects_done:
  assumes "expects f dest q j k c" and "v \<noteq> Pending"
  shows "expects f dest q j k (c\<lparr>futs := fut_settle i v (futs c)\<rparr>)"
  using assms answered_done [OF assms(2), of f c i] unfolding expects_def holds_def by (auto simp: find_meta_alt)

lemma expects_fewer:
  assumes "expects f dest q j k c" and "fewer c c'" and "find_meta c' (MSG, q) j = find_meta c (MSG, q) j"
  shows "expects f dest q j k c'"
proof -
  have "pipe c' = pipe c" using assms(2) by (auto simp: fewer_def)
  with assms(1,3) fewer_rest [OF assms(2)] show ?thesis by (intro expects_same [OF assms(1)]) simp_all
qed

lemma expects_packet_ack: "keeps (expects f dest q j k) (packet_ack_future pt)"
proof (rule keepsI)
  fix c assume w: "expects f dest q j k c"
  obtain n where n: "snd (get_packet_id c) = c\<lparr>packet_id := n\<rparr>"
    using gpid_loop_snd [of 0 c] by (auto simp: get_packet_id_def)
  have "expects f dest q j k (c\<lparr>packet_id := n\<rparr>)" by (rule expects_same [OF w]) simp_all
  then have "expects f dest q j k (c\<lparr>packet_id := n, futs := futs c @ [Pending]\<rparr>)"
    using expects_new [of f dest q j k "c\<lparr>packet_id := n\<rparr>"] by simp
  then have "expects f dest q j k (c\<lparr>packet_id := n, futs := futs c @ [Pending], packet_ids := ps\<rparr>)" for ps
    by (rule expects_same) simp_all
  moreover have "expects f dest q j k (c\<lparr>packet_id := n\<rparr>)" by (rule expects_same [OF w]) simp_all
  ultimately show "expects f dest q j k (snd (packet_ack_future pt c))"
    using n by (auto simp: packet_ack_future_def py_simps new_future_def split: prod.splits sum.splits)
qed

text \<open>An entry of another type, and an acknowledgement.\<close>

lemma expects_put: "t \<noteq> MSG \<Longrightarrow> keeps (expects f dest q j k) (put_meta t qid i m)"
proof (rule keepsI)
  fix c assume w: "expects f dest q j k c" and t: "t \<noteq> MSG"
  show "expects f dest q j k (snd (put_meta t qid i m c))"
    by (rule expects_same [OF w]) (use t in \<open>simp_all add: put_meta_def set_queue_def find_meta_alt split: option.split\<close>)
qed

lemma expects_ack: "keeps (expects f dest q j k) (ack_loop ts qid i src)"
proof (induction ts)
  case (Cons t ts)
  show ?case
  proof (rule keepsI)
    fix c assume w: "expects f dest q j k c"
    note further = keeps_snd [OF Cons.IH w]
    show "expects f dest q j k (snd (ack_loop (t # ts) qid i src c))"
    proof (cases "find_meta c (t, qid) i")
      case (Some m)
      let ?d = "c\<lparr>futs := fut_settle (m_app_ack m) (Result FTrue) (futs c)\<rparr>"
      have d: "expects f dest q j k ?d" by (rule expects_done [OF w]) simp
      have "expects f dest q j k (forget_probe t qid i ?d)"
      proof (cases "answered f ?d")
        case True
        moreover have "futs (forget_probe t qid i ?d) = futs ?d" using fewer_rest [OF fewer_ops(4)] by simp
        ultimately show ?thesis by (simp add: expects_def answered_def)
      next
        case False
        with d Some have "(t, qid) \<noteq> (MSG, q) \<or> i \<noteq> j"
          by (auto simp: expects_def holds_def answered_def fut_peek_def fut_settle_def fut_done_def split: if_splits fut.splits)
        then show ?thesis by (intro expects_fewer [OF d fewer_ops(4)]) (auto simp: find_meta_forget)
      qed
      with d w further Some show ?thesis by (simp add: py_simps set_result_def)
    qed (use further in \<open>simp add: py_simps\<close>)
  qed
qed (simp add: valid_rules)

interpretation patient: hearing "expects f dest q j k" "\<lambda>_. expects f dest q j k" "\<lambda>_ _ _ _. True" "\<lambda>t. t \<noteq> MSG" L for f dest q j k L
proof
  show "expects f dest q j k (ensure_queue t qid c)" if "expects f dest q j k c" for c t qid
    by (rule expects_fewer [OF that fewer_ops(2)]) simp
  show "expects f dest q j k (drop_old_acks qid i c)" if "expects f dest q j k c" for c qid i
    by (rule expects_fewer [OF that fewer_ops(5)]) (simp add: find_meta_drop_old)
  show "keeps (expects f dest q j k) (deliver L msg src qid)" for L msg src qid
    by (rule keeps_deliver) (erule expects_same, simp_all add: find_meta_alt)+
  show "keeps (expects f dest q j k) new_future" by (rule keepsI) (simp add: new_future_def expects_new)
  show "keeps (expects f dest q j k) (get_time L)" for L
    by (rule keepsI) (auto simp: get_time_def find_meta_alt elim!: expects_same)
  show "keeps (expects f dest q j k) (put_meta t qid i m)" if "t \<noteq> MSG" for t qid i m by (rule expects_put [OF that])
  show "keeps (expects f dest q j k) (packet_ack_future pt)" for pt by (rule expects_packet_ack)
  show "keeps (expects f dest q j k) (ack_loop ts qid i src)" for ts qid i src by (rule expects_ack)
  show "expects f dest q j k (c\<lparr>futs := fut_settle i v (futs c)\<rparr>)" if "expects f dest q j k c" "v \<noteq> Pending" for c v i
    by (rule expects_done [OF that])
qed (auto simp: find_meta_alt elim!: expects_same)

section \<open>Turns of the dispatcher\<close>

lemma expects_put_again:
  assumes "expects f dest q j k c" and "find_meta c e i = Some m"
  shows "expects f dest q j k (queue_put e i (attempted m now) c)"
proof -
  have "find_meta (queue_put e i (attempted m now) c) e' i' = (if e' = e \<and> i' = i then Some (attempted m now) else find_meta c e' i')" for e' i'
    by (rule find_meta_put [OF found_queue [OF assms(2)]])
  moreover have "pipe (queue_put e i m' c) = pipe c" for m'
    by (simp add: queue_put_def put_meta_def set_queue_def split: option.split)
  ultimately show ?thesis using assms by (auto simp: expects_def holds_def answered_def)
qed

interpretation patient_turn: dispatching "\<lambda>c. expects f dest q j k c \<and> buf c = b" L for f dest q j k b L
proof
  show "keeps (\<lambda>c. expects f dest q j k c \<and> buf c = b) (get_time L)"
    by (rule keepsI) (auto simp: get_time_def find_meta_alt elim!: expects_same)
  show "keeps (\<lambda>c. expects f dest q j k c \<and> buf c = b) (send_on L p x)" for p x
    by (rule keepsI) (auto simp: send_on_def find_meta_alt split: option.split elim!: expects_same)
  show "expects f dest q j k (prune_msg_ids now c) \<and> buf (prune_msg_ids now c) = b" if "expects f dest q j k c \<and> buf c = b" for now c
    using that by (auto simp: prune_msg_ids_def Let_def find_meta_alt elim!: expects_same)
  show "keeps (\<lambda>c. expects f dest q j k c \<and> buf c = b) (republish_entry L e i now interval d ignore_acked)" for e i now interval d ignore_acked
  proof (rule keepsI)
    fix c assume w: "expects f dest q j k c \<and> buf c = b"
    let ?r = "republish_entry L e i now interval d ignore_acked c"
    show "expects f dest q j k (snd ?r) \<and> buf (snd ?r) = b"
    proof (cases "find_meta c e i")
      case (Some m)
      let ?c = "c\<lparr>draws := draws c + 1\<rparr>" and ?p = "queue_put e i (attempted m now) (c\<lparr>draws := draws c + 1\<rparr>)"
      have d: "expects f dest q j k ?c" using w by (auto simp: find_meta_alt elim!: expects_same)
      have "expects f dest q j k ?p" by (rule expects_put_again [OF d]) (simp add: Some)
      moreover have "keeps (expects f dest q j k) (safe_pipe_send L x)" for x
        by (rule keepsI) (auto simp: safe_pipe_send_app find_meta_alt split: option.split elim!: expects_same)
      then have "keeps (expects f dest q j k) (attempt L m)" unfolding attempt_def by (intro valid_rules patient.publishing)
      ultimately have "expects f dest q j k (snd (attempt L m ?p))" by (rule keeps_snd [rotated])
      moreover have "leaves buf (attempt L m)" unfolding attempt_def by (intro leaves_rules buf_kept)
      then have "buf (snd (attempt L m ?p)) = buf c"
        using leavesD by (fastforce simp: queue_put_def put_meta_def set_queue_def split: option.splits)
      ultimately show ?thesis using w d by (simp add: republish_app [OF Some])
    qed (use w in \<open>simp add: republish_entry_alt py_simps\<close>)
  qed
qed

section \<open>The acknowledgement\<close>

text \<open>A PUBLISH, with the flags \<open>fl\<close>, in which \<open>dest\<close> acknowledges the message \<open>j\<close> of the queue \<open>q\<close> to the owner of the key \<open>k\<close>.\<close>

definition ack_frame :: "lib \<Rightarrow> keypair \<Rightarrow> string \<Rightarrow> string \<Rightarrow> int \<Rightarrow> bytes \<Rightarrow> bool" where
  "ack_frame L k dest q j raw \<longleftrightarrow> (\<exists>fl body topic payload pid ap. raw = frame PUBLISH fl body \<and> length body < 128 ^ 4 \<and>
     mqtt_parse_publish L (parsed PUBLISH (fl mod 16) body) = Inr (Some (topic, payload, pid)) \<and>
     h_to_b L topic = Inr (compact_public_key k) \<and> unpack_async L payload = Inr (Some ap) \<and>
     a_msg_type ap = msg_val MSGACK \<and> a_src_pk_hex ap = dest \<and> a_queue_id_hex ap = q \<and> a_seq_no ap = j)"

text \<open>The pipe takes whatever is sent on it.\<close>

definition line_holds :: "lib \<Rightarrow> bool" where
  "line_holds L \<longleftrightarrow> (\<forall>n. pipe_send_exn L n = None)"

text \<open>A complete frame, of any kind and content, whose handling raises nothing that is not logged.\<close>

definition calm :: "lib \<Rightarrow> bytes \<Rightarrow> bool" where
  "calm L raw \<longleftrightarrow> next_frame raw = Some (length raw) \<and> (\<forall>c. fst (handle_frame L raw c) = Inr ())"

text \<open>The stream carries the acknowledgement, after any number of other frames.\<close>

definition acked_stream :: "lib \<Rightarrow> keypair \<Rightarrow> string \<Rightarrow> string \<Rightarrow> int \<Rightarrow> bytes \<Rightarrow> bool" where
  "acked_stream L k dest q j stream \<longleftrightarrow> (\<exists>fs raw tail. stream = concat fs @ raw @ tail \<and>
     (\<forall>fr \<in> set fs. calm L fr) \<and> ack_frame L k dest q j raw)"

lemma ack_whole: "ack_frame L k dest q j raw \<Longrightarrow> next_frame raw = Some (length raw)"
  by (auto simp: ack_frame_def next_of_frame)

lemma acked_next: "acked_stream L k dest q j stream \<Longrightarrow> next_frame stream \<noteq> None"
proof -
  assume "acked_stream L k dest q j stream"
  then obtain fs raw tail where s: "stream = concat fs @ raw @ tail" and fs: "\<forall>fr \<in> set fs. calm L fr"
    and raw: "ack_frame L k dest q j raw" by (auto simp: acked_stream_def)
  show ?thesis
  proof (cases fs)
    case Nil
    then show ?thesis using frames.next_append [OF ack_whole [OF raw], of tail] s by simp
  next
    case (Cons g gs)
    then have "next_frame g = Some (length g)" using fs by (simp add: calm_def)
    from frames.next_append [OF this, of "concat gs @ raw @ tail"] show ?thesis using s Cons by simp
  qed
qed

lemma answered_kept: "keeps P' m \<Longrightarrow> P' = settled_with w f \<Longrightarrow> w \<noteq> Pending \<Longrightarrow> fut_peek (futs c) f = Some w \<Longrightarrow> answered f (snd (m c))"
  using keeps_snd [of P' m c] by (auto simp: answered_def settled_with_def)

lemma answered_happens: "answered f c \<Longrightarrow> answered f (snd (py_for hs (happen L) c))"
proof -
  assume "answered f c"
  then obtain w where w: "w \<noteq> Pending" "fut_peek (futs c) f = Some w" by (auto simp: answered_def)
  have "keeps (settled_with w f) (happen L h)" for h
    by (cases h) (auto intro!: valid_rules settled_run.turning settled_run.read_ok simp: dispatcher_ended_def settled_with_def)
  then have "keeps (settled_with w f) (py_for hs (happen L))" by (intro valid_rules)
  from answered_kept [OF this refl w] show ?thesis .
qed

lemma answered_reads: "answered f c \<Longrightarrow> answered f (snd (reader_loop L c))"
proof -
  assume "answered f c"
  then obtain w where w: "w \<noteq> Pending" "settled_with w f c" by (auto simp: answered_def settled_with_def)
  from settled.reading_loop [OF w(2)] w(1) show ?thesis by (auto simp: answered_def settled_with_def)
qed

lemma ack_handled:
  assumes "ack_frame L k dest q j raw" and "line_holds L" and "holds f dest q j k c"
  shows "\<exists>c'. handle_frame L raw c = (Inr (), c') \<and> answered f c'"
proof -
  from assms(1) obtain fl body topic payload pid ap where raw: "raw = frame PUBLISH fl body" "length body < 128 ^ 4"
    and pub: "mqtt_parse_publish L (parsed PUBLISH (fl mod 16) body) = Inr (Some (topic, payload, pid))"
    and own: "h_to_b L topic = Inr (compact_public_key k)" and up: "unpack_async L payload = Inr (Some ap)"
    and ap: "a_msg_type ap = msg_val MSGACK" "a_src_pk_hex ap = dest" "a_queue_id_hex ap = q" "a_seq_no ap = j"
    by (auto simp: ack_frame_def)
  from assms(3) obtain m p where w: "kp c = k" "pipe c = Some p" "f < length (futs c)"
    and m: "find_meta c (MSG, q) j = Some m" "m_app_ack m = f" "m_dest_pk_hex m = dest"
    by (auto simp: holds_def)
  have "\<exists>tr. send_puback L pid c = (Inr (), c\<lparr>trace := tr\<rparr>)"
  proof (cases "pid = None \<or> pid = Some []")
    case True
    then have "send_puback L pid c = (Inr (), c\<lparr>trace := trace c\<rparr>)" by (auto simp: send_puback_def py_simps)
    then show ?thesis by blast
  next
    case False
    then obtain y where y: "pid = Some y" "y \<noteq> []" by auto
    then have "send_puback L pid c = (Inr (), c\<lparr>trace := trace c @ [Sent p (build_puback y)]\<rparr>)"
      using w(2) assms(2) by (simp add: send_puback_def py_simps pipe_send_def line_holds_def)
    then show ?thesis by blast
  qed
  then obtain c1 where puback: "send_puback L pid c = (Inr (), c1)" and c1: "kp c1 = k" "find_meta c1 = find_meta c" "futs c1 = futs c"
    using w(1) by (auto simp: find_meta_alt fun_eq_iff)
  let ?pkt = "parsed PUBLISH (fl mod 16) body"
  have "handle_mqtt_packet L ?pkt c = process_app_ack ap c1"
    using pub own up ap(1) puback c1(1)
    by (simp add: handle_mqtt_packet_alt handle_publish_def py_simps too_old_def route_def parsed_def)
  moreover have "ack_target [MSG, PROBE] q j dest c1 = Some (MSG, m)" using m c1(2) by simp
  then have "process_app_ack ap c1 = (if future_done f c1 then (Inr (), c1)
      else (Inr (), (if m_probe_one_shot m then forget_probe MSG q j else id) (c1\<lparr>futs := fut_settle f (Result FTrue) (futs c1)\<rparr>)))"
    unfolding process_app_ack_def ack_loop_app by (simp add: ap(2-4) m(2))
  ultimately obtain c' where run: "handle_mqtt_packet L ?pkt c = (Inr (), c')" and "answered f c'"
    using w(3) c1(3)
    by (cases "future_done f c1") (auto simp: future_done_def answered_def fut_peek_def fut_done_def fut_settle_def)
  moreover have "mqtt_parse_packet raw = Inr ?pkt" using parse_frame [OF raw(2)] raw(1) by simp
  ultimately show ?thesis by (auto simp: handle_frame_def py_simps async_wrap_errors_def)
qed

section \<open>The stream up to the acknowledgement\<close>

text \<open>
  Until it is answered the client waits, its buffer holds no complete frame, and buffer and what
  is still to come carry the acknowledgement.
\<close>

definition on_its_way :: "nat \<Rightarrow> string \<Rightarrow> string \<Rightarrow> int \<Rightarrow> keypair \<Rightarrow> lib \<Rightarrow> bytes \<Rightarrow> client \<Rightarrow> bool" where
  "on_its_way f dest q j k L coming c \<longleftrightarrow> answered f c \<or>
     (expects f dest q j k c \<and> next_frame (buf c) = None \<and> acked_stream L k dest q j (buf c @ coming))"

lemma expects_frame: "keeps (expects f dest q j k) (handle_frame L raw)"
  unfolding handle_frame_def async_wrap_errors_def by (intro valid_rules patient.handling)

lemma answered_frame: "answered f c \<Longrightarrow> answered f (snd (handle_frame L raw c))"
proof -
  assume "answered f c"
  then obtain w where w: "w \<noteq> Pending" "fut_peek (futs c) f = Some w" by (auto simp: answered_def)
  have "keeps (settled_with w f) (handle_frame L raw)"
    unfolding handle_frame_def async_wrap_errors_def by (intro valid_rules settled.handling)
  from answered_kept [OF this refl w] show ?thesis .
qed

lemma front_cut: "x @ y = g @ z \<Longrightarrow> length g \<le> length x \<Longrightarrow> take (length g) x = g \<and> drop (length g) x @ y = z"
  by (auto simp: append_eq_append_conv2)

lemma reader_progress:
  assumes "expects f dest q j k c" and "acked_stream L k dest q j (buf c @ coming)" and "line_holds L"
  shows "on_its_way f dest q j k L coming (snd (reader_loop L c))"
  using assms
proof (induction "length (buf c)" arbitrary: c rule: less_induct)
  case less
  show ?case
  proof (cases "next_frame (buf c)")
    case None
    then show ?thesis using less.prems by (simp add: reader_stop on_its_way_def)
  next
    case (Some n)
    let ?c = "set_buf (drop n (buf c)) c"
    have here: "expects f dest q j k ?c" using less.prems(1) by (auto simp: set_buf_def find_meta_alt elim!: expects_same)
    obtain fs raw tail where s: "buf c @ coming = concat fs @ raw @ tail" and fs: "\<forall>fr \<in> set fs. calm L fr"
      and raw: "ack_frame L k dest q j raw" using less.prems(2) by (auto simp: acked_stream_def)
    have whole: "next_frame (buf c @ coming) = Some n" by (rule frames.next_append [OF Some])
    have len: "n \<le> length (buf c)" "0 < n" using next_frame_pos [OF Some] by simp_all
    show ?thesis
    proof (cases fs)
      case Nil
      with s frames.next_append [OF ack_whole [OF raw], of tail] whole have "n = length raw" by simp
      with s Nil len front_cut [of "buf c" coming raw tail] have cut: "take n (buf c) = raw" by simp
      have "answered f (snd (handle_frame L raw ?c))"
        using here ack_handled [OF raw less.prems(3), of f ?c] answered_frame [of f ?c L raw] by (auto simp: expects_def)
      then have "\<exists>r c2. handle_frame L (take n (buf c)) ?c = (r, c2) \<and> answered f c2" using cut by (metis prod.collapse)
      then show ?thesis
        unfolding reader_step [OF Some] using answered_reads by (auto simp: on_its_way_def split: sum.split)
    next
      case (Cons g gs)
      then have g: "next_frame g = Some (length g)" "\<And>c. fst (handle_frame L g c) = Inr ()" using fs by (simp_all add: calm_def)
      from frames.next_append [OF g(1), of "concat gs @ raw @ tail"] s Cons whole have n: "n = length g" by simp
      then have cut: "take n (buf c) = g" "drop n (buf c) @ coming = concat gs @ raw @ tail"
        using s Cons len front_cut [of "buf c" coming g "concat gs @ raw @ tail"] by simp_all
      obtain c2 where run: "handle_frame L g ?c = (Inr (), c2)" using g(2) [of ?c] by (metis prod.collapse)
      have "buf c2 = drop n (buf c)" using handle_frame_buf [OF run] by (simp add: set_buf_def)
      moreover have "expects f dest q j k c2" using keeps_snd [OF expects_frame here, of L g] run by simp
      moreover have "acked_stream L k dest q j (drop n (buf c) @ coming)"
        using cut(2) fs raw Cons unfolding acked_stream_def by auto
      ultimately have "on_its_way f dest q j k L coming (snd (reader_loop L c2))" using less.hyps [of c2] len less.prems(3) by simp
      then show ?thesis unfolding reader_step [OF Some] cut(1) run by simp
    qed
  qed
qed

lemma happen_progress:
  assumes "on_its_way f dest q j k L (arrived (h # hs)) c" and "line_holds L"
  shows "on_its_way f dest q j k L (arrived hs) (snd (happen L h c))"
proof (cases "answered f c")
  case True
  then have "answered f (snd (py_for [h] (happen L) c))" by (rule answered_happens)
  then show ?thesis by (simp add: on_its_way_def py_simps split: prod.splits sum.splits)
next
  case False
  with assms(1) have c: "expects f dest q j k c" "next_frame (buf c) = None" "acked_stream L k dest q j (buf c @ arrived (h # hs))"
    by (simp_all add: on_its_way_def)
  show ?thesis
  proof (cases h)
    case (Turn p)
    have ended: "expects f dest q j k (dispatcher_ended d) \<and> buf (dispatcher_ended d) = buf c"
      if "expects f dest q j k d \<and> buf d = buf c" for d
      using that by (auto simp: dispatcher_ended_def find_meta_alt elim!: expects_same)
    have "keeps (\<lambda>d. expects f dest q j k d \<and> buf d = buf c) (happen L (Turn p))"
      unfolding happen.simps py_when_def by (intro valid_rules patient_turn.turning ended)
    from keeps_snd [OF this] c Turn show ?thesis by (simp add: on_its_way_def)
  next
    case (Chunk x)
    have run: "snd (happen L h c) = snd (mqtt_packet_reader L x c)" by (simp add: Chunk py_simps split: prod.split sum.split)
    let ?c = "c\<lparr>buf := buf c @ x\<rparr>"
    have "expects f dest q j k ?c" using c(1) by (auto simp: find_meta_alt elim!: expects_same)
    from reader_progress [OF this _ assms(2)] c Chunk run show ?thesis
      by (cases "x = []") (auto simp: mqtt_packet_reader_def on_its_way_def)
  qed
qed

lemma answer_arrives:
  "on_its_way f dest q j k L (arrived hs) c \<Longrightarrow> line_holds L \<Longrightarrow> answered f (snd (py_for hs (happen L) c))"
proof (induction hs arbitrary: c)
  case Nil
  then show ?case using acked_next [of L k dest q j "buf c"] by (auto simp: on_its_way_def py_simps)
next
  case (Cons h hs)
  obtain c1 where c1: "happen L h c = (Inr (), c1)" using happen_returns(1) by (metis prod.collapse)
  with Cons happen_progress [OF Cons.prems] show ?case by (simp add: py_simps)
qed

section \<open>The send\<close>

lemma queued_entry:
  assumes "queue_msg L msg dest (Some q) t None c = (Inr ((q', j), f), c')" and "q \<noteq> []"
  shows "\<exists>m c1 p c2. find_meta c' (t, q) j = Some m \<and> m_app_ack m = f \<and> m_dest_pk_hex m = dest \<and>
    pack L (AppPacket q j (msg_val t) msg) c1 = (Inr (m_out m, p), c2) \<and> kp c1 = kp c \<and>
    ticks c1 \<in> {ticks c..<ticks c'} \<and> f < length (futs c')"
proof -
  obtain x xs where q: "q = x # xs" using assms(2) by (cases q) auto
  let ?c = "c\<lparr>ticks := ticks c + 1, last_send := Some (clock L (ticks c))\<rparr>"
  have "ordered_ack_send L msg dest q t None ?c = (Inr ((q', j), f), c')"
    using assms(1) by (simp add: queue_msg_def queue_id_or_random_def q touch_last_send_def get_time_def py_simps)
  from sent_entry [OF this] obtain m c1 p c2 where "find_meta c' (t, q) j = Some m" "m_app_ack m = f" "m_dest_pk_hex m = dest"
    "pack L (AppPacket q j (msg_val t) msg) c1 = (Inr (m_out m, p), c2)" "kp c1 = kp ?c" "ticks c1 \<in> {ticks ?c..<ticks c'}" "f < length (futs c')"
    by blast
  moreover from this have "ticks c1 \<in> {ticks c..<ticks c'}" "kp c1 = kp c" by simp_all
  ultimately show ?thesis by blast
qed

lemma accepted_holds:
  assumes "queue_msg L msg dest (Some q) MSG None c = (Inr ((q', j), f), c')" and "q \<noteq> []" and "pipe c \<noteq> None"
  shows "holds f dest q j (kp c) c' \<and> buf c' = buf c"
proof -
  from queued_entry [OF assms(1,2)] obtain m where "find_meta c' (MSG, q) j = Some m" "m_app_ack m = f" "m_dest_pk_hex m = dest"
    "f < length (futs c')" by blast
  moreover have "conn c' = conn c" by (rule leaves_run [OF leaves_queue assms(1)])
  moreover have "buf c' = buf c" by (rule leaves_run [OF buf_kept(4) assms(1)])
  ultimately show ?thesis using assms(3) by (auto simp: holds_def conn_def)
qed

lemma acknowledged_send_aux:
  assumes "distinct (sp_clients sp)" and "i \<in> set (sp_clients sp)" and "next_msg_id R r \<noteq> []"
    and "queue_msg (each R i) msg (sp_dest sp) (Some (next_msg_id R r)) MSG None
      ((rt_client i r)\<lparr>recv_msg_ids := shared_ids (rt_pool r)\<rparr>) = (Inr ((q, j), f), a)"
    and "pipe (rt_client i r) \<noteq> None" and "line_holds (each R i)" and "next_frame (buf (rt_client i r)) = None"
    and "acked_stream (each R i) (kp (rt_client i r)) (sp_dest sp) (next_msg_id R r) j
      (buf (rt_client i r) @ arrived (during R (rt_draws r) i))"
  shows "fst (sp_send R sp msg r) = msg_len msg"
proof -
  let ?q = "next_msg_id R r" and ?r = "r\<lparr>rt_draws := rt_draws r + 1\<rparr>" and ?c = "rt_client i r"
  obtain x r' where send: "sp_send R sp msg r = (x, r')" by fastforce
  from sp_send_app [OF send] obtain y r1 where qu: "queue_all R msg (sp_dest sp) ?q (sp_clients sp) ?r = (y, r1)" by blast
  from queue_all_tasks [OF qu assms(1)] assms(2,4) obtain tasks where t: "y = Inr tasks" "distinct (map fst tasks)"
    and task: "(i, f) \<in> set tasks" and c1: "rt_client i r1 = a" by (auto simp: rt_client_def)
  from accepted_holds [OF assms(4,3)] assms(5)
  have waits: "holds f (sp_dest sp) ?q j (kp ?c) a" "buf a = buf ?c" by simp_all
  from let_happen_clients [OF t(2)] task obtain r2 ids' where happened: "let_happen R (rt_draws r) tasks r1 = (Inr (), r2)"
    "rt_client i r2 = snd (py_for (during R (rt_draws r) i) (happen (each R i)) (a\<lparr>recv_msg_ids := ids'\<rparr>))"
    using c1 by force
  have "holds f (sp_dest sp) ?q j (kp ?c) (a\<lparr>recv_msg_ids := ids'\<rparr>)" using waits(1) by (simp add: holds_def find_meta_alt)
  with waits(2) assms(7,8) have "on_its_way f (sp_dest sp) ?q j (kp ?c) (each R i) (arrived (during R (rt_draws r) i)) (a\<lparr>recv_msg_ids := ids'\<rparr>)"
    by (simp add: on_its_way_def expects_def)
  from answer_arrives [OF this assms(6)] have "answered f (rt_client i r2)" by (simp add: happened(2))
  then have "future_done f (rt_client i r2)" by (auto simp: answered_def future_done_def fut_done_peek)
  with task have "some_acked tasks r2" by (auto simp: some_acked_def list_ex_iff)
  moreover obtain r3 where "dequeue_all ?q (sp_clients sp) r2 = (Inr (), r3)" using dequeue_all_clients by blast
  ultimately show ?thesis
    using sp_send_app [OF send] qu t(1) happened(1) send by (auto simp: py_finally_def py_simps split: sum.splits)
qed


text \<open>A destination whose acknowledgement comes after a PINGRESP, in pieces, with a turn of the dispatcher in between.\<close>

definition demo_slow :: env where
  "demo_slow = demo_env\<lparr>during := (\<lambda>_ _. [Chunk ([0xD0, 0] @ take 9 demo_frame), Turn 0, Chunk (drop 9 demo_frame)])\<rparr>"

lemma demo_slow_sel [simp]:
  "own demo_slow = demo_lib" "each demo_slow i = demo_lib"
  "during demo_slow n i = [Chunk ([0xD0, 0] @ take 9 demo_frame), Turn 0, Chunk (drop 9 demo_frame)]"
  by (simp_all add: demo_slow_def demo_env_def)

lemma demo_ack: "ack_frame demo_lib (kp demo_client) (hex_of (replicate 33 2)) (hex_of (replicate 32 1)) 0 demo_frame"
proof -
  let ?k = "demo_pkt 2 [97, 99, 107]"
  obtain str where "to_s demo_lib [97, 99, 107] = Inr str" by simp
  from demo_unpack [OF _ _ this, of 2] obtain p where up: "unpack_async demo_lib (demo_payload 2 [97, 99, 107]) = Inr (Some p)"
    and p: "a_src_pk_hex p = hex_of (replicate 33 2)" "a_queue_id_hex p = hex_of (replicate 32 1)" "a_seq_no p = 0" "a_msg_type p = 2"
    by force
  have k: "length (p_body ?k) < 128 ^ 4" "parsed PUBLISH (2 mod 16) (p_body ?k) = ?k"
    by (simp_all add: demo_pkt_def parsed_def demo_payload_def demo_section_def demo_tag_def)
  have "h_to_b demo_lib (hex_of (replicate 33 2)) = Inr (compact_public_key (kp demo_client))"
    by (simp add: demo_hex demo_client_def new_client_def)
  with up p k demo_parse show ?thesis unfolding ack_frame_def demo_frame_def
    by (intro exI [of _ 2] exI [of _ "p_body ?k"] exI [of _ "hex_of (replicate 33 2)"] exI) auto
qed

lemma demo_up_client:
  "(rt_client 1 demo_up)\<lparr>recv_msg_ids := ids\<rparr> = (add_msg_handler 7 (new_client 2 (''a'', 1883) (kp demo_client)))\<lparr>dispatcher_task := Some Running, pipe := Some 0, recv_msg_ids := ids\<rparr>"
  using demo_members by (simp add: demo_up_def Let_def rt_client_def add_msg_handler_def)

lemma demo_up_sel [simp]:
  "pipe (rt_client 1 demo_up) = Some 0" "buf (rt_client 1 demo_up) = []" "kp (rt_client 1 demo_up) = kp demo_client"
  "pipe (rt_client (Suc 0) demo_up) = Some 0" "buf (rt_client (Suc 0) demo_up) = []" "kp (rt_client (Suc 0) demo_up) = kp demo_client"
  using demo_members by (simp_all add: demo_up_def Let_def rt_client_def add_msg_handler_def new_client_def)

lemma demo_calm: "calm demo_lib [0xD0, 0]"
  using demo_next [of "[]"] by (simp add: calm_def demo_ping)


end
