(* ===== verification/Nodes.thy ===== *)
theory Nodes
  imports Acked_Send
begin

text \<open>
  Two nodes: a message that one sends through a smart pipe to the key of another, whose client is
  there, reaches the handlers of the other, and the send reports success.
\<close>

section \<open>What the dispatcher sends\<close>

text \<open>The bytes of a PUBLISH that is made of a queued entry, with whatever packet id was free.\<close>

definition publishes :: "lib \<Rightarrow> client \<Rightarrow> msg_enum \<times> string \<Rightarrow> int \<Rightarrow> bytes \<Rightarrow> bool" where
  "publishes L c e j wire \<longleftrightarrow> (\<exists>m d g d'. find_meta c e j = Some m \<and>
     publish L (m_dest_pk_hex m) (PyBytes (m_out m)) False d = (Inr (wire, g), d'))"

text \<open>Every attempt at an entry that sends something sends such bytes.\<close>

lemma attempt_publishes:
  assumes "republish_entry L e j now interval duration ignore_acked c = (r, c')" and "trace c' = trace c @ [Sent p wire]"
  shows "publishes L c e j wire"
proof (cases "find_meta c e j")
  case None
  with assms show ?thesis by (auto simp: republish_entry_alt py_simps)
next
  case (Some m)
  with republish_sent [OF Some assms] show ?thesis by (auto simp: publishes_def)
qed

text \<open>The acknowledgement that the other has queued is one for the sender.\<close>

lemma reply_acknowledges:
  assumes link: "peers LA LB" "conversions LA" "conversions LB"
    and made: "pack LB (AppPacket qid j (msg_val MSGACK) (PyStr ''ack'')) d = (Inr (raw, p), d')" "identity LB d"
      "qid = to_h LA q" "length q = 32"
    and sent: "publish LB (to_h LA (compact_public_key k)) (PyBytes raw) False d1 = (Inr (reply, g), d2)" "length reply < 128 ^ 4"
  shows "ack_frame LA k (to_h LA (compact_public_key (kp d))) qid j reply"
proof -
  have hex: "to_h LB = to_h LA" using link(1) by (simp add: peers_def)
  note link' = peers_sym [OF link(1)] link(3,2)
  from publish_wire [OF sent(1) link'] obtain body pid where r: "reply = frame PUBLISH 2 body"
    "mqtt_parse_publish LA (parsed PUBLISH 2 body) = Inr (Some (to_h LA (compact_public_key k), raw, Some pid))" by blast
  have "length body < 128 ^ 4" using sent(2) by (simp add: r(1) length_frame)
  moreover have "h_to_b LA (to_h LA (compact_public_key k)) = Inr (compact_public_key k)"
    using link(2) by (simp add: conversions_def hex_codec_def)
  moreover have "a_queue_id_hex (AppPacket qid j (msg_val MSGACK) (PyStr ''ack'')) = to_h LB q"
    "a_msg (AppPacket qid j (msg_val MSGACK) (PyStr ''ack'')) = PyStr ''ack''" by (simp_all add: AppPacket_def made(3) hex)
  note pack_arrives [OF made(1) made(2) [unfolded identity_def] link' this(1) made(4) this(2)]
  ultimately show ?thesis
    using r unfolding ack_frame_def by (intro exI [of _ 2] exI) (auto simp: AppPacket_def hex)
qed

section \<open>From the send to the handlers and back\<close>

text \<open>What the first PUBLISH is made of: the message as it was packed when the client took it.\<close>

lemma sent_message:
  assumes "queue_msg L (PyStr s) dest (Some qid) MSG None a = (Inr ((qid', j), f), a1)" and "qid \<noteq> []"
    and "publishes L a1 (MSG, qid) j wire"
  shows "\<exists>raw c1 p c2 d g d'. pack L (AppPacket qid j (msg_val MSG) (PyStr s)) c1 = (Inr (raw, p), c2) \<and> kp c1 = kp a \<and>
    ticks c1 \<in> {ticks a..<ticks a1} \<and> publish L dest (PyBytes raw) False d = (Inr (wire, g), d')"
proof -
  from queued_entry [OF assms(1,2)] obtain m c1 p c2 where m: "find_meta a1 (MSG, qid) j = Some m" "m_dest_pk_hex m = dest"
    and pk: "pack L (AppPacket qid j (msg_val MSG) (PyStr s)) c1 = (Inr (m_out m, p), c2)" "kp c1 = kp a" "ticks c1 \<in> {ticks a..<ticks a1}"
    by blast
  from assms(3) m obtain d g d' where "publish L dest (PyBytes (m_out m)) False d = (Inr (wire, g), d')"
    by (auto simp: publishes_def)
  with pk show ?thesis by blast
qed

text \<open>The way back: the acknowledgement that \<open>b\<close> has queued, in \<open>b1\<close>, makes the send succeed.\<close>

lemma reply_succeeds:
  assumes pipe: "distinct (sp_clients sp)" "i \<in> set (sp_clients sp)" "sp_dest sp = to_h LA (compact_public_key (kp b))"
    and client: "LA = each R i" "a = (rt_client i r)\<lparr>recv_msg_ids := shared_ids (rt_pool r)\<rparr>" "pipe a \<noteq> None"
      "line_holds LA" "next_frame (buf a) = None"
    and link: "peers LA LB" "conversions LA" "conversions LB" and id: "identity LB b"
    and queued: "queue_msg LA (PyStr s) (sp_dest sp) (Some qid) MSG None a = (Inr ((qid', j), f), a1)"
      "qid = next_msg_id R r" "qid = to_h LA q" "length q = 32"
    and ack: "find_meta b1 (MSGACK, qid) j = Some ma" "m_dest_pk_hex ma = to_h LA (compact_public_key (kp a))" "kp d1 = kp b"
      "pack LB (AppPacket qid j (msg_val MSGACK) (PyStr ''ack'')) d1 = (Inr (m_out ma, pb), d2)"
    and replied: "publishes LB b1 (MSGACK, qid) j reply" "length reply < 128 ^ 4"
    and home: "buf a @ arrived (during R (rt_draws r) i) = concat fs @ reply @ tail" "\<forall>fr \<in> set fs. calm LA fr"
  shows "fst (sp_send R sp (PyStr s) r) = Inr (length s)"
proof -
  from replied(1) ack(1,2) obtain e g' e' where
    "publish LB (to_h LA (compact_public_key (kp a))) (PyBytes (m_out ma)) False e = (Inr (reply, g'), e')"
    by (auto simp: publishes_def)
  moreover have "identity LB d1" using id ack(3) by (simp add: identity_def)
  ultimately have "ack_frame LA (kp a) (sp_dest sp) qid j reply"
    using reply_acknowledges [OF link ack(4) _ queued(3,4) _ replied(2)] ack(3) pipe(3) by metis
  then have "acked_stream LA (kp (rt_client i r)) (sp_dest sp) qid j (buf (rt_client i r) @ arrived (during R (rt_draws r) i))"
    using home client(2) unfolding acked_stream_def by auto
  moreover have "length qid = 64" using queued(3,4) link(2) by (simp add: conversions_def hex_codec_def)
  then have "next_msg_id R r \<noteq> []" using queued(2) by auto
  ultimately have "fst (sp_send R sp (PyStr s) r) = msg_len (PyStr s)"
    using client queued(1,2) pipe(1,2) by (intro acknowledged_send_aux [of sp i R r "PyStr s" qid' j f a1]) simp_all
  then show ?thesis by simp
qed


section \<open>A send between two concrete nodes\<close>

definition demo_answer :: "bytes \<Rightarrow> env" where
  "demo_answer reply = demo_env\<lparr>during := (\<lambda>_ _. [Turn 0, Chunk reply])\<rparr>"

lemma demo_answer_sel [simp]:
  "own (demo_answer reply) = demo_lib" "each (demo_answer reply) i = demo_lib" "during (demo_answer reply) n i = [Turn 0, Chunk reply]"
  by (simp_all add: demo_answer_def demo_env_def)

lemma demo_publishes:
  assumes "find_meta c e j = Some m" and "m_dest_pk_hex m = hex_of k" and "length k = 33"
    and "pack demo_lib (AppPacket (hex_of q) i ty (PyStr s)) d = (Inr (m_out m, ap), d')"
    and "length q = 32" and "length (compact_public_key (kp d)) = 33" and "s \<noteq> []" and "length s < 800"
  shows "\<exists>wire. publishes demo_lib c e j wire \<and> length wire < 128 ^ 4"
proof -
  have "packet_ids demo_client t = []" for t by (simp add: demo_client_def new_client_def)
  then obtain pid g d' where "publish demo_lib (hex_of k) (PyBytes (m_out m)) False demo_client =
      (Inr (frame PUBLISH 2 (([0, 66] @ map of_char (hex_of k)) @ pid @ m_out m), g), d')" "length pid = 2"
    using publish_goes [of demo_lib "hex_of k" _ "m_out m" demo_client] demo_topic [OF assms(3)] by (auto simp: demo_ascii)
  moreover have "length (m_out m) < 1000" using demo_raw_length [OF assms(4-7)] assms(8) by simp
  moreover have "length ([0, 66] @ map of_char (hex_of k) :: bytes) = 68" using assms(3) by simp
  ultimately show ?thesis using demo_frame_small assms(1,2) unfolding publishes_def by metis
qed

text \<open>Alice's client, ready to send, a pipe from her to Bob, and what her client makes of \<open>hi\<close>.\<close>

definition demo_sender :: client where
  "demo_sender = (rt_client 1 demo_up)\<lparr>recv_msg_ids := shared_ids (rt_pool demo_up)\<rparr>"

definition demo_to_bob :: smart_pipe where
  "demo_to_bob = demo_pipe\<lparr>sp_dest := hex_of (replicate 33 3)\<rparr>"

lemma demo_sender_sel [simp]:
  "kp demo_sender = kp demo_client" "pipe demo_sender = Some 0" "buf demo_sender = []"
  by (simp_all add: demo_sender_def)

lemma demo_keys:
  "to_h demo_lib (compact_public_key (kp demo_bob)) = hex_of (replicate 33 3)"
  "to_h demo_lib (compact_public_key (kp demo_sender)) = hex_of (replicate 33 2)"
  by (simp_all add: demo_client_def new_client_def)

lemma demo_route:
  "distinct (sp_clients demo_to_bob)" "1 \<in> set (sp_clients demo_to_bob)"
  "sp_dest demo_to_bob = to_h demo_lib (compact_public_key (kp demo_bob))"
  by (simp_all add: demo_to_bob_def demo_pipe_def)

lemma demo_ready:
  "demo_lib = each (demo_answer reply) 1" "demo_sender = (rt_client 1 demo_up)\<lparr>recv_msg_ids := shared_ids (rt_pool demo_up)\<rparr>"
  "pipe demo_sender \<noteq> None" "line_holds demo_lib" "next_frame (buf demo_sender) = None"
  by (simp_all add: demo_sender_def next_frame_def line_holds_def demo_lib_def)

lemma demo_sender_identity: "kp c = kp demo_sender \<Longrightarrow> identity demo_lib c"
  using demo_identities(1) by (simp add: identity_def)

lemma demo_query: "hex_of (replicate 32 1) = next_msg_id (demo_answer reply) demo_up"
    "hex_of (replicate 32 1) = to_h demo_lib (replicate 32 1)" "length (replicate 32 1 :: bytes) = 32"
  by (simp_all add: next_msg_id_def demo_up_def Let_def)

lemma demo_home:
  "buf demo_sender @ arrived (during (demo_answer reply) (rt_draws demo_up) 1) = concat [] @ reply @ []"
  "\<forall>fr \<in> set []. calm demo_lib fr"
  by simp_all

lemma demo_texts:
  "to_b demo_lib (PyStr ''ack'') = Inr (map of_char ''ack'')" "to_b demo_lib (PyStr ''hi'') = Inr (map of_char ''hi'')"
  by simp_all

lemma demo_timely: "py_int (clock demo_lib (ticks demo_bob)) - py_int (clock demo_lib n) \<le> 2 * republish_duration demo_bob"
  by (simp add: py_int_def demo_client_def new_client_def)

lemma demo_outgoing:
  "\<exists>a1 wire raw c1 p c2 d g d'.
     queue_msg demo_lib (PyStr ''hi'') (sp_dest demo_to_bob) (Some (hex_of (replicate 32 1))) MSG None demo_sender =
       (Inr ((hex_of (replicate 32 1), 0), 0), a1) \<and>
     publishes demo_lib a1 (MSG, hex_of (replicate 32 1)) 0 wire \<and> length wire < 128 ^ 4 \<and> identity demo_lib c1 \<and> kp c1 = kp demo_sender \<and>
     pack demo_lib (AppPacket (hex_of (replicate 32 1)) 0 (msg_val MSG) (PyStr ''hi'')) c1 = (Inr (raw, p), c2) \<and>
     publish demo_lib (to_h demo_lib (compact_public_key (kp demo_bob))) (PyBytes raw) False d = (Inr (wire, g), d')"
proof -
  let ?qid = "hex_of (replicate 32 1)" and ?bob = "hex_of (replicate 33 3)"
  have "length ?bob = 66" by simp
  from demo_queue [OF demo_up_client this] obtain a1 where
    queued: "queue_msg demo_lib (PyStr ''hi'') (sp_dest demo_to_bob) (Some ?qid) MSG None demo_sender = (Inr ((?qid, 0), 0), a1)"
    by (auto simp: demo_sender_def demo_to_bob_def)
  have some: "?qid \<noteq> []" using demo_queue_id(1) by (metis list.size(3) zero_neq_numeral)
  from queued_entry [OF queued some] obtain m c1 p c2 where m: "find_meta a1 (MSG, ?qid) 0 = Some m" "m_dest_pk_hex m = ?bob"
    and pk: "pack demo_lib (AppPacket ?qid 0 (msg_val MSG) (PyStr ''hi'')) c1 = (Inr (m_out m, p), c2)" "kp c1 = kp demo_sender"
    by (auto simp: demo_to_bob_def)
  have "length (compact_public_key (kp c1)) = 33" by (simp add: pk(2) demo_client_def new_client_def)
  from demo_publishes [OF m _ pk(1) demo_query(3) this] obtain wire where
    wire: "publishes demo_lib a1 (MSG, ?qid) 0 wire" "length wire < 128 ^ 4" by auto
  from wire(1) m obtain d g d' where "publish demo_lib ?bob (PyBytes (m_out m)) False d = (Inr (wire, g), d')"
    by (auto simp: publishes_def)
  with queued wire pk demo_sender_identity [OF pk(2)] show ?thesis unfolding demo_keys(1) by blast
qed

lemma demo_reply_goes:
  assumes "find_meta b1 (MSGACK, hex_of (replicate 32 1)) 0 = Some ma" and "m_dest_pk_hex ma = hex_of (replicate 33 2)"
    and "pack demo_lib (AppPacket (hex_of (replicate 32 1)) 0 (msg_val MSGACK) (PyStr ''ack'')) c5 = (Inr (m_out ma, pa), c6)"
    and "length (compact_public_key (kp c5)) = 33"
  shows "\<exists>reply. publishes demo_lib b1 (MSGACK, hex_of (replicate 32 1)) 0 reply \<and> length reply < 128 ^ 4"
  using demo_publishes [OF assms(1,2) _ assms(3) demo_query(3) assms(4)] by simp

lemma cut_nine: "concat [take 9 w, drop 9 w] = w"
  by simp


end
