(* ===== verification/Same_Text.thy ===== *)
theory Same_Text
  imports Nodes
begin

text \<open>
  Messages with the same text. The table of received hashes is keyed by the text of a message
  alone, not by its sender, queue or number: a second message with a text that has been received
  lately reaches no handler, but is acknowledged like any other.
\<close>

lemma swallowed:
  assumes "to_b L (PyStr s) = Inr b" and "handlers_contained L"
    and "map_of (recv_msg_ids c) (sha256_hex_async L b) = Some t" and "find_meta c (MSGACK, qid) j = None"
    and "key_pair L (private_key (kp c)) (compact_public_key (kp c))" and "conversions L" and "clock_fits L (ticks c + 1)"
    and "to_b L (PyStr ''ack'') = Inr x" and "qid = to_h L q" and "length q = 32" and "length src = 66" and "0 \<le> j" and "j < 2 ^ 32"
    and "a_queue_id_hex p = qid" and "a_seq_no p = j" and "a_src_pk_hex p = src" and "a_msg p = PyStr s"
  shows "\<exists>c' m d1 pa d2. process_app_msg L p c = (Inr (), c') \<and> handled c' = handled c \<and>
    find_meta c' (MSGACK, qid) j = Some m \<and> m_dest_pk_hex m = src \<and> kp d1 = kp c \<and>
    pack L (AppPacket qid j (msg_val MSGACK) (PyStr ''ack'')) d1 = (Inr (m_out m, pa), d2)"
proof -
  let ?d = "drop_old_acks qid j c"
  have del: "deliver L (PyStr s) src qid ?d = (Inr (), ?d)"
    using assms(3) unfolding deliver_app [OF assms(1,2)] by simp
  have gone: "find_meta ?d (MSGACK, qid) j = None" using assms(4) by (simp add: find_meta_drop_old)
  have d: "kp ?d = kp c" "ticks ?d = ticks c" by (simp_all add: drop_old_acks_def set_queue_def split: option.split)
  have fits: "clock_fits L (ticks ?d + 1)" using assms(7) by (simp add: d)
  from enqueue_ack_queues [OF assms(5) [folded d(1)] assms(6) fits assms(8-13) gone]
  obtain c' m pa d1 d2 where ack: "enqueue_ack L src qid j ?d = (Inr (), c')" "find_meta c' (MSGACK, qid) j = Some m" "m_dest_pk_hex m = src"
    "kp d1 = kp c" "pack L (AppPacket qid j (msg_val MSGACK) (PyStr ''ack'')) d1 = (Inr (m_out m, pa), d2)"
    by (auto simp: d(1))
  have "process_app_msg L p c = (Inr (), c')"
    using resend_ack_none [OF assms(4)] del ack(1) by (simp add: process_app_msg_def Let_def py_simps assms(14-17))
  moreover have "handled c' = handled c" using inbox_run [OF quiet_enqueue_ack ack(1)] by simp
  ultimately show ?thesis using ack by blast
qed

lemma message_swallowed:
  assumes link: "peers LA LB" "conversions LA" "conversions LB"
    and ids: "identity LA c1" "identity LB b" "clock_fits LB (ticks b + 2)" "to_b LB (PyStr ''ack'') = Inr x"
    and made: "pack LA (AppPacket qid i (msg_val MSG) (PyStr s)) c1 = (Inr (raw, p), c2)" "qid = to_h LA q" "length q = 32"
    and pub: "publish LA (to_h LA (compact_public_key (kp b))) (PyBytes raw) False c3 = (Inr (wire, g), c4)"
    and arrives: "concat chunks = wire" "length wire < 128 ^ 4" "receptive LB b"
      "py_int (clock LB (ticks b)) - py_int (clock LA (ticks c1)) \<le> 2 * republish_duration b"
    and seen: "to_b LB (PyStr s) = Inr sb" "handlers_contained LB" "find_meta b (MSGACK, qid) i = None"
      "map_of (recv_msg_ids b) (sha256_hex_async LB sb) = Some t"
  shows "\<exists>b1 m d1 pa d2. py_for chunks (mqtt_packet_reader LB) b = (Inr (), b1) \<and> handled b1 = handled b \<and>
    find_meta b1 (MSGACK, qid) i = Some m \<and> m_dest_pk_hex m = to_h LA (compact_public_key (kp c1)) \<and> kp d1 = kp b \<and>
    pack LB (AppPacket qid i (msg_val MSGACK) (PyStr ''ack'')) d1 = (Inr (m_out m, pa), d2)"
proof -
  from publish_wire [OF pub link] obtain body pid where wire: "wire = frame PUBLISH 2 body" "length pid = 2"
    "mqtt_parse_publish LB (parsed PUBLISH 2 body) = Inr (Some (to_h LA (compact_public_key (kp b)), raw, Some pid))" by blast
  from wire(2) have pid: "pid \<noteq> []" by auto
  from arrives(3) obtain r where r: "pipe b = Some r" "pipe_send_exn LB (length (trace b)) = None" "buf b = []"
    by (auto simp: receptive_def)
  let ?b = "b\<lparr>trace := trace b @ [Sent r (build_puback pid)], ticks := ticks b + 1\<rparr>"
  have "p_type (parsed PUBLISH 2 body) = PUBLISH" by (simp add: parsed_def)
  from message_reaches [OF made(1) ids(1) [unfolded identity_def] link made(2,3) this pid wire(3) arrives(4) r(1,2)]
  have run: "handle_mqtt_packet LB (parsed PUBLISH 2 body) b = process_app_msg LB p ?b"
    and p: "a_queue_id_hex p = qid" "a_seq_no p = i" "a_src_pk_hex p = to_h LA (compact_public_key (kp c1))" "a_msg p = PyStr s"
    and len: "length (to_h LA (compact_public_key (kp c1))) = 66" and num: "0 \<le> i" "i < 2 ^ 32" and qid: "qid = to_h LB q" by simp_all
  have "map_of (recv_msg_ids ?b) (sha256_hex_async LB sb) = Some t" "find_meta ?b (MSGACK, qid) i = None"
    "key_pair LB (private_key (kp ?b)) (compact_public_key (kp ?b))" "clock_fits LB (ticks ?b + 1)"
    using seen(3,4) ids(2,3) by (simp_all add: find_meta_alt identity_def)
  from swallowed [OF seen(1,2) this(1,2,3) link(3) this(4) ids(4) qid made(3) len num p]
  obtain b1 m d1 pa d2 where got: "process_app_msg LB p ?b = (Inr (), b1)" "handled b1 = handled ?b"
    and facts: "find_meta b1 (MSGACK, qid) i = Some m" "m_dest_pk_hex m = to_h LA (compact_public_key (kp c1))" "kp d1 = kp ?b"
      "pack LB (AppPacket qid i (msg_val MSGACK) (PyStr ''ack'')) d1 = (Inr (m_out m, pa), d2)" by blast
  have "py_for chunks (mqtt_packet_reader LB) b = (Inr (), b1)"
    using read_frame [of LB PUBLISH 2 body b b1 chunks] run got(1) r(3) arrives(1,2) wire(1) by simp
  moreover have "handled b1 = handled b" using got(2) by (simp add: handled_def)
  ultimately show ?thesis using facts by auto
qed

text \<open>
  C4: success does not mean delivery. Everything is as in a send that reaches a node
  (\<open>send_reaches_node\<close> in \<open>Nodes\<close>), but the client of the destination knows the hash of the text,
  from whatever message with the same text it has received lately, from whomever: then the send
  still returns the length of the message, and no handler of the destination is called.
\<close>

theorem success_without_delivery:
  assumes pipe: "distinct (sp_clients sp)" "i \<in> set (sp_clients sp)" "sp_dest sp = to_h LA (compact_public_key (kp b))"
    and client: "LA = each R i" "a = (rt_client i r)\<lparr>recv_msg_ids := shared_ids (rt_pool r)\<rparr>" "pipe a \<noteq> None"
      "line_holds LA" "next_frame (buf a) = None"
    and link: "peers LA LB" "conversions LA" "conversions LB"
    and ids: "identity LA a" "identity LB b" "clock_fits LB (ticks b + 2)" "to_b LB (PyStr ''ack'') = Inr x"
    and queued: "queue_msg LA (PyStr s) (sp_dest sp) (Some qid) MSG None a = (Inr ((qid', j), f), a1)"
      "qid = next_msg_id R r" "qid = to_h LA q" "length q = 32"
    and sent: "publishes LA a1 (MSG, qid) j wire"
    and arrives: "concat chunks = wire" "length wire < 128 ^ 4" "receptive LB b"
      "\<forall>t \<in> {ticks a..<ticks a1}. py_int (clock LB (ticks b)) - py_int (clock LA t) \<le> 2 * republish_duration b"
    and seen: "to_b LB (PyStr s) = Inr sb" "handlers_contained LB" "find_meta b (MSGACK, qid) j = None"
      "map_of (recv_msg_ids b) (sha256_hex_async LB sb) = Some t"
    and read: "py_for chunks (mqtt_packet_reader LB) b = (rb, b1)"
    and replied: "publishes LB b1 (MSGACK, qid) j reply" "length reply < 128 ^ 4"
    and home: "buf a @ arrived (during R (rt_draws r) i) = concat fs @ reply @ tail" "\<forall>fr \<in> set fs. calm LA fr"
  shows "handled b1 = handled b \<and> fst (sp_send R sp (PyStr s) r) = Inr (length s)"
proof -
  have "length qid = 64" using queued(3,4) link(2) by (simp add: conversions_def hex_codec_def)
  then have some: "qid \<noteq> []" by auto
  from sent_message [OF queued(1) this sent] obtain raw c1 p c2 d g d' where
    pk: "pack LA (AppPacket qid j (msg_val MSG) (PyStr s)) c1 = (Inr (raw, p), c2)" "kp c1 = kp a" "ticks c1 \<in> {ticks a..<ticks a1}"
    and pub: "publish LA (to_h LA (compact_public_key (kp b))) (PyBytes raw) False d = (Inr (wire, g), d')"
    by (auto simp: pipe(3))
  have own: "identity LA c1" using ids(1) pk(2) by (simp add: identity_def)
  from message_swallowed [OF link own ids(2-4) pk(1) queued(3,4) pub arrives(1-3) bspec [OF arrives(4) pk(3)] seen] read pk(2)
  obtain ma d1 pb d2 where b1: "handled b1 = handled b"
    and ack: "find_meta b1 (MSGACK, qid) j = Some ma" "m_dest_pk_hex ma = to_h LA (compact_public_key (kp a))" "kp d1 = kp b"
      "pack LB (AppPacket qid j (msg_val MSGACK) (PyStr ''ack'')) d1 = (Inr (m_out ma, pb), d2)"
    by auto
  from reply_succeeds [OF pipe client link ids(2) queued ack replied home] b1 show ?thesis by blast
qed

text \<open>Bob, who has received \<open>hi\<close> from somebody else.\<close>

definition demo_greeted :: client where
  "demo_greeted = demo_bob\<lparr>recv_msg_ids := [(sha256_hex_async demo_lib (map of_char ''hi''), 0)]\<rparr>"

lemma demo_greeted_sel [simp]:
  "kp demo_greeted = kp demo_bob" "buf demo_greeted = []" "pipe demo_greeted = Some 0" "trace demo_greeted = []" "ticks demo_greeted = 0"
  "republish_duration demo_greeted = republish_duration demo_bob" "find_meta demo_greeted k i = None"
  "map_of (recv_msg_ids demo_greeted) (sha256_hex_async demo_lib (map of_char ''hi'')) = Some 0"
  by (simp_all add: demo_greeted_def find_meta_alt)

theorem success_without_delivery_witness:
  "\<exists>wire b1 reply. py_for [take 9 wire, drop 9 wire] (mqtt_packet_reader demo_lib) demo_greeted = (Inr (), b1) \<and> handled b1 = [] \<and>
     fst (sp_send (demo_answer reply) demo_to_bob (PyStr ''hi'') demo_up) = Inr 2"
proof -
  let ?qid = "hex_of (replicate 32 1)" and ?alice = "hex_of (replicate 33 2)"
  from demo_outgoing obtain a1 wire raw c1 p c2 d g d' where
    queued: "queue_msg demo_lib (PyStr ''hi'') (sp_dest demo_to_bob) (Some ?qid) MSG None demo_sender = (Inr ((?qid, 0), 0), a1)"
    and wire: "publishes demo_lib a1 (MSG, ?qid) 0 wire" "length wire < 128 ^ 4"
    and own: "identity demo_lib c1" "kp c1 = kp demo_sender"
    and pk: "pack demo_lib (AppPacket ?qid 0 (msg_val MSG) (PyStr ''hi'')) c1 = (Inr (raw, p), c2)"
    and pub: "publish demo_lib (to_h demo_lib (compact_public_key (kp demo_greeted))) (PyBytes raw) False d = (Inr (wire, g), d')"
    unfolding demo_greeted_sel(1) by blast
  have rec: "receptive demo_lib demo_greeted" by (simp add: receptive_def)
  have fits: "clock_fits demo_lib (ticks demo_greeted + 2)" by (simp add: clock_fits_def)
  have id: "identity demo_lib demo_greeted" using demo_identities(2) by (simp add: identity_def)
  have timely: "py_int (clock demo_lib (ticks demo_greeted)) - py_int (clock demo_lib n) \<le> 2 * republish_duration demo_greeted" for n
    using demo_timely by simp
  from message_swallowed [OF demo_peers(1) demo_peers(2) demo_peers(2) own(1) id fits demo_texts(1) pk demo_query(2,3)
      pub cut_nine wire(2) rec timely demo_texts(2) demo_contained demo_greeted_sel(7,8)]
  obtain b1 ma c5 pa c6 where b1: "py_for [take 9 wire, drop 9 wire] (mqtt_packet_reader demo_lib) demo_greeted = (Inr (), b1)"
    and ack: "find_meta b1 (MSGACK, ?qid) 0 = Some ma" "m_dest_pk_hex ma = ?alice" "kp c5 = kp demo_greeted"
      "pack demo_lib (AppPacket ?qid 0 (msg_val MSGACK) (PyStr ''ack'')) c5 = (Inr (m_out ma, pa), c6)"
    using own(2) demo_keys(2) by auto
  have "length (compact_public_key (kp c5)) = 33" by (simp add: ack(3))
  from demo_reply_goes [OF ack(1,2,4) this] obtain reply where
    reply: "publishes demo_lib b1 (MSGACK, ?qid) 0 reply" "length reply < 128 ^ 4" by blast
  have "\<forall>t \<in> {ticks demo_sender..<ticks a1}. py_int (clock demo_lib (ticks demo_greeted)) - py_int (clock demo_lib t) \<le> 2 * republish_duration demo_greeted"
    using timely by blast
  moreover have "sp_dest demo_to_bob = to_h demo_lib (compact_public_key (kp demo_greeted))" using demo_route(3) by simp
  ultimately have "handled b1 = handled demo_greeted" "fst (sp_send (demo_answer reply) demo_to_bob (PyStr ''hi'') demo_up) = Inr 2"
    using success_without_delivery [OF demo_route(1,2) _ demo_ready demo_peers(1) demo_peers(2) demo_peers(2) demo_sender_identity [OF refl] id
      fits demo_texts(1) queued demo_query wire(1) cut_nine wire(2) rec _ demo_texts(2) demo_contained demo_greeted_sel(7,8) b1 reply demo_home]
    by simp_all
  with b1 show ?thesis by (auto simp: handled_def)
qed

end
