(* ===== verification/Replay.thy ===== *)
theory Replay
  imports Session
begin

text \<open>
  Protection against replays: a broker, or anybody who can publish to a node's topic, can send an
  old packet again. The table of received hashes keeps a message from being delivered twice;
  a hash is pruned after twice the republish duration, and by then the age check refuses the
  packet. The two together are shown to hold in every run.
\<close>

section \<open>The clock and the table only grow\<close>

definition grown :: "client \<Rightarrow> client \<Rightarrow> bool" where
  "grown c0 c \<longleftrightarrow> ticks c0 \<le> ticks c \<and> (\<forall>h t. map_of (recv_msg_ids c0) h = Some t \<longrightarrow> map_of (recv_msg_ids c) h = Some t) \<and>
     (distinct (map fst (recv_msg_ids c0)) \<longrightarrow> distinct (map fst (recv_msg_ids c)))"

lemma grown_deliver: "keeps (grown c0) (deliver L msg src qid)"
proof (rule keepsI)
  fix c assume g: "grown c0 c"
  show "grown c0 (snd (deliver L msg src qid c))"
  proof (cases "to_b L msg")
    case (Inr b)
    let ?h = "sha256_hex_async L b"
    let ?c = "c\<lparr>ticks := ticks c + 1, recv_msg_ids := AList.update ?h (clock L (ticks c)) (recv_msg_ids c)\<rparr>"
    show ?thesis
    proof (cases "map_of (recv_msg_ids c) ?h")
      case None
      have "map_of (recv_msg_ids ?c) h = Some t" if "map_of (recv_msg_ids c0) h = Some t" for h t
      proof -
        from that g have "map_of (recv_msg_ids c) h = Some t" unfolding grown_def by blast
        with None show ?thesis by (auto simp: update_lookup)
      qed
      moreover have "ticks c0 \<le> ticks ?c" using g by (simp add: grown_def)
      moreover have "distinct (map fst (recv_msg_ids ?c))" if "distinct (map fst (recv_msg_ids c0))"
        using g that unfolding grown_def by (simp add: distinct_update)
      ultimately have "grown c0 ?c" unfolding grown_def by blast
      moreover have "keeps (grown c0) (run_handler L m s q h)" for m s q h
        unfolding run_handler_def async_wrap_errors_def by (intro valid_rules keepsI) (simp add: grown_def)
      then have "keeps (grown c0) (py_for hs (run_handler L msg src qid))" for hs by (intro valid_rules)
      ultimately have "grown c0 (snd (py_for (msg_handlers c) (run_handler L msg src qid) ?c))"
        by (rule keeps_snd [rotated])
      then show ?thesis using Inr None by (simp add: deliver_def Let_def py_simps get_time_def)
    qed (use g Inr in \<open>simp add: deliver_def Let_def py_simps\<close>)
  qed (use g in \<open>simp add: deliver_def py_simps\<close>)
qed

interpretation grown: settling "grown c0" for c0
proof
  show "keeps (grown c0) (deliver L msg src qid)" for L msg src qid by (rule grown_deliver)
qed (simp_all add: grown_def)

interpretation grown_link: connecting "grown c0" L for c0 L
  by unfold_locales (simp_all add: grown_def)

interpretation grown_run: living "grown c0" L for c0 L
proof
  show "keeps (grown c0) (get_time L)" "keeps (grown c0) (send_on L p x)" for p x by (rule grown.steps)+
  show "keeps (grown c0) (mqtt_packet_reader L x)" for x by (rule grown.reading)
  show "keeps (grown c0) (mqtt_connect L keep_alive)" for keep_alive by (rule grown_link.mqtt_connecting)
  show "keeps (grown c0) (republish_entry L k j now interval d ignore_acked)" for k j now interval d ignore_acked
    by (rule grown.republishing)
  show "keeps (grown c0) (queue_msg L msg dest qid t seq)" "keeps (grown c0) (queue_msg_async L msg dest qid t seq)"
    "keeps (grown c0) (send_probe L dest qid)" for msg dest qid t seq
    by (rule grown.sending grown.probing)+
  show "keeps (grown c0) (dequeue_msg q seq t)" for q seq t by (rule grown.dequeuing)
  show "grown c0 (reset_session_state c)" if "grown c0 c" for c using that by (rule grown.resetting)
qed (simp_all add: grown_def pipe_close_def add_msg_handler_def)

interpretation duration: traffic_free republish_duration
  by unfold_locales simp_all

interpretation pace: transmitting "\<lambda>c. grown c0 c \<and> republish_duration c = d" L for c0 d L
proof
  fix c0 d
  let ?K = "\<lambda>c. grown c0 c \<and> republish_duration c = d"
  have both: "keeps ?K m" if "keeps (grown c0) m" "keeps (\<lambda>c. republish_duration c = d) m" for m :: "(client, 'x) py"
    by (rule keepsI) (use keeps_snd [OF that(1)] keeps_snd [OF that(2)] in auto)
  show "keeps ?K (republish_entry L k i now interval du ignore_acked)" for L k i now interval du ignore_acked
    by (intro both grown.republishing duration.fixed.republishing)
  show "keeps ?K (send_on L p x)" "keeps ?K (get_time L)" for L p x
    by (intro both grown.steps duration.fixed.steps)+
qed

section \<open>A hash is kept as long as the age check needs it\<close>

definition held :: "lib \<Rightarrow> string \<Rightarrow> real \<Rightarrow> int \<Rightarrow> client \<Rightarrow> bool" where
  "held L h t d c \<longleftrightarrow> map_of (recv_msg_ids c) h = Some t \<or> (\<exists>n < ticks c. clock L n - t > real_of_int (d * 2))"

lemma held_grown: "grown c c' \<Longrightarrow> held L h t d c \<Longrightarrow> held L h t d c'"
  unfolding grown_def held_def by (meson order_less_le_trans)

lemma held_prune:
  assumes "held L h t d c" and "republish_duration c = d" and "n < ticks c" and "distinct (map fst (recv_msg_ids c))"
  shows "held L h t d (prune_msg_ids (clock L n) c)"
proof -
  have ids: "recv_msg_ids (prune_msg_ids (clock L n) c) =
      filter (\<lambda>(_, t). clock L n - t \<le> real_of_int (d * 2)) (recv_msg_ids c)"
    using assms(2,4) by (simp add: prune_msg_ids_def Let_def prune_loop_self)
  have "ticks (prune_msg_ids (clock L n) c) = ticks c" by (simp add: prune_msg_ids_def Let_def)
  moreover have "map_of (recv_msg_ids (prune_msg_ids (clock L n) c)) h = Some t \<or> clock L n - t > real_of_int (d * 2)"
    if "map_of (recv_msg_ids c) h = Some t"
    unfolding ids map_of_filter_value [OF assms(4)] that by simp
  ultimately show ?thesis using assms(1,3) unfolding held_def by metis
qed

lemma held_turn:
  assumes "held L h t d c" and "republish_duration c = d" and "distinct (map fst (recv_msg_ids c))"
    and "dispatch_turn L du interval keep_alive ignore_acked last_ping c = (r, c')"
  shows "held L h t d c' \<and> distinct (map fst (recv_msg_ids c'))"
proof -
  let ?now = "clock L (ticks c)" and ?c = "c\<lparr>ticks := Suc (ticks c)\<rparr>"
  let ?K = "\<lambda>c. grown ?c c \<and> republish_duration c = d" and ?Q = "\<lambda>c. held L h t d c \<and> distinct (map fst (recv_msg_ids c))"
  have "held L h t d ?c" using assms(1) by (auto simp: held_def less_Suc_eq)
  then have Q: "?Q x" if "?K x" for x
    using that held_grown [of ?c x L h t d] assms(3) by (simp add: grown_def)
  have start: "?K ?c" using assms(2) by (simp add: grown_def)
  have pruned: "?Q (prune_msg_ids ?now x)" if "?K x" for x
  proof -
    have "ticks c < ticks x" using that by (simp add: grown_def)
    with Q [OF that] that have "held L h t d (prune_msg_ids ?now x)" by (intro held_prune) auto
    moreover have "distinct (map fst (recv_msg_ids (prune_msg_ids ?now x)))"
      using Q [OF that] by (simp add: prune_msg_ids_def Let_def prune_loop_filter distinct_map_filter)
    ultimately show ?thesis by blast
  qed
  have ping: "?Q (snd (keep_alive_ping L last_ping keep_alive ?now x))" if "?K x" for x
  proof -
    have K1: "?K (x\<lparr>ticks := Suc (ticks x)\<rparr>)" using that by (simp add: grown_def)
    have K2: "?K (snd (safe_pipe_send L b (x\<lparr>ticks := Suc (ticks x)\<rparr>)))" for b
      by (rule keeps_snd [OF pace.safe_send K1])
    show ?thesis
      using Q [OF K1] Q [OF K2] pruned [OF K2]
      by (auto simp: keep_alive_ping_def py_simps get_time_def split: prod.split option.split sum.split)
        (metis snd_conv)+
  qed
  have walked: "?K (snd (walk_entries (\<lambda>k i. republish_entry L k i ?now interval (real_of_int du) ignore_acked) ?c))"
    by (rule keeps_snd [OF pace.walking start]) (rule pace.republish_ok)
  show ?thesis
    using assms(4) Q [OF walked] ping [OF walked]
    by (auto simp: dispatch_turn_alt py_simps get_time_def split: prod.splits sum.splits)
qed

section \<open>Runs\<close>

text \<open>The runs on which the time for which messages are kept does not change: no \<open>connect\<close> asks for another one.\<close>

inductive steady :: "lib \<Rightarrow> client \<Rightarrow> client \<Rightarrow> bool" for L where
  Stay: "steady L c c"
| Go: "steady L c c' \<Longrightarrow> client_step L c' c'' \<Longrightarrow> republish_duration c'' = republish_duration c' \<Longrightarrow> steady L c c''"

lemma held_step:
  assumes "client_step L c c'" and "held L h t (republish_duration c) c \<and> distinct (map fst (recv_msg_ids c))"
  shows "held L h t (republish_duration c) c' \<and> distinct (map fst (recv_msg_ids c'))"
proof -
  have "grown c c" by (simp add: grown_def)
  with grown_run.other_step [OF assms(1)] consider "grown c c'"
    | (turn) du interval keep_alive ignore_acked last_ping r where "dispatch_turn L du interval keep_alive ignore_acked last_ping c = (r, c')"
    by blast
  then show ?thesis
  proof cases
    case 1
    have "held L h t (republish_duration c) c'" using held_grown [OF 1] assms(2) by blast
    with 1 assms(2) show ?thesis by (simp add: grown_def)
  next
    case turn
    with assms(2) show ?thesis by (intro held_turn) auto
  qed
qed

lemma held_run:
  assumes "steady L c c'" and "held L h t (republish_duration c) c \<and> distinct (map fst (recv_msg_ids c))"
  shows "republish_duration c' = republish_duration c \<and> held L h t (republish_duration c) c'"
proof -
  have "republish_duration c' = republish_duration c \<and> held L h t (republish_duration c) c' \<and> distinct (map fst (recv_msg_ids c'))"
    using assms by (induction rule: steady.induct) (simp, metis held_step)
  then show ?thesis by blast
qed

section \<open>No replay\<close>

text \<open>A packet carries a message with the hash \<open>h\<close>, packed at \<open>ts\<close>.\<close>

definition carries :: "lib \<Rightarrow> mqtt_packet \<Rightarrow> string \<Rightarrow> int \<Rightarrow> bool" where
  "carries L pkt h ts \<longleftrightarrow> (\<exists>topic payload pid p b. mqtt_parse_publish L pkt = Inr (Some (topic, payload, pid)) \<and>
     unpack_async L payload = Inr (Some p) \<and> to_b L (a_msg p) = Inr b \<and> sha256_hex_async L b = h \<and> a_timestamp p = Some ts)"

text \<open>A packet that is delivered is not too old, its hash is new, and is noted.\<close>

lemma delivered:
  assumes "handled (snd (handle_mqtt_packet L pkt c)) \<noteq> handled c" and "carries L pkt h ts"
  shows "py_int (clock L (ticks c)) - ts \<le> 2 * republish_duration c \<and> map_of (recv_msg_ids c) h = None \<and>
    recv_msg_ids (snd (handle_mqtt_packet L pkt c)) = AList.update h (clock L (ticks c + 1)) (recv_msg_ids c)"
proof -
  from handle_steps [OF assms(1)] obtain topic payload pid p c2 where
    steps: "mqtt_parse_publish L pkt = Inr (Some (topic, payload, pid))" "unpack_async L payload = Inr (Some p)"
      "py_int (clock L (ticks c)) - the (a_timestamp p) \<le> 2 * republish_duration c"
      "snd (handle_mqtt_packet L pkt c) = snd (process_app_msg L p c2)"
      "handled c2 = handled c" "recv_msg_ids c2 = recv_msg_ids c" "ticks c2 = ticks c + 1"
    by blast
  from assms(2) steps(1,2) obtain b where p: "to_b L (a_msg p) = Inr b" "sha256_hex_async L b = h" "a_timestamp p = Some ts"
    by (auto simp: carries_def)
  have "handled (snd (process_app_msg L p c2)) \<noteq> handled c2" using assms(1) steps(4,5) by simp
  from process_app_msg_notes [OF this] p steps show ?thesis by auto
qed



end
