(* ===== verification/Typed.thy ===== *)
theory Typed
  imports Session
begin

text \<open>
  The types of what is queued. The code stores in its queues the bytes that the dispatcher will
  publish; nothing there says what they are. Here they are typed: in every run each entry holds
  an application packet of its own client, with numbers that fit their fields, packed for the
  very place at which it is queued.
\<close>

section \<open>Packed for a place\<close>

definition packed_as :: "lib \<Rightarrow> keypair \<Rightarrow> msg_enum \<Rightarrow> string \<Rightarrow> int \<Rightarrow> bytes \<Rightarrow> bool" where
  "packed_as L k t qid i out \<longleftrightarrow> length qid = 64 \<and> i \<in> {0..<2 ^ 32} \<and>
     (\<exists>sg n q ts b s sig. sg \<in> {sign L, ecdsa_sign_async L} \<and> h_to_b L qid = Inr q \<and> ts \<in> {0..<2 ^ 64} \<and>
        signed_section q i ts (msg_val t) b = Inr s \<and> sg n (private_key k) s = Inr sig \<and>
        out = compact_public_key k @ sig @ s)"

lemma section_range:
  assumes "signed_section q i ts m b = Inr s"
  shows "i \<in> {0..<2 ^ 32} \<and> ts \<in> {0..<2 ^ 64}"
  using assms by (auto simp: signed_section_Inr struct_pack_def split: if_splits)

lemma packed_asI:
  assumes "length qid = 64" "h_to_b L qid = Inr q" "signed_section q i ts (msg_val t) b = Inr s"
    and "sg \<in> {sign L, ecdsa_sign_async L}" "sg n (private_key k) s = Inr sig"
  shows "packed_as L k t qid i (compact_public_key k @ sig @ s)"
  unfolding packed_as_def using assms section_range [OF assms(3)] by blast

lemma pack_packed_as:
  assumes "pack L (AppPacket qid i (msg_val t) msg) c = (Inr (out, p), c')"
  shows "packed_as L (kp c) t qid i out"
proof -
  have "length qid = 64" using assms by (auto simp: pack_app AppPacket_def split: if_splits)
  with pack_Inr [OF assms] show ?thesis
    by (auto simp: AppPacket_def intro: packed_asI [where sg = "sign L"])
qed

lemma pack_async_packed_as:
  assumes "pack_async L (AppPacket qid i (msg_val t) msg) c = (Inr (out, p), c')"
  shows "packed_as L (kp c) t qid i out"
  using assms unfolding pack_async_def
  by (auto simp: py_simps stamp_app sign_with_def AppPacket_def Let_def split: if_splits sum.splits
      intro: packed_asI [where sg = "ecdsa_sign_async L"])

section \<open>The queues stay typed\<close>

definition well_typed :: "lib \<Rightarrow> keypair \<Rightarrow> client \<Rightarrow> bool" where
  "well_typed L k c \<longleftrightarrow> kp c = k \<and>
     (\<forall>t qid i m. find_meta c (t, qid) i = Some m \<longrightarrow> m_seq_no m = i \<and> packed_as L k t qid i (m_out m))"

lemma well_typed_same: "well_typed L k c \<Longrightarrow> kp c' = kp c \<Longrightarrow> msg_queues c' = msg_queues c \<Longrightarrow> well_typed L k c'"
  by (simp add: well_typed_def find_meta_alt)

lemma well_typed_fewer:
  assumes "well_typed L k c" and "fewer c c'"
  shows "well_typed L k c'"
  using assms(1) fewer_entry [OF assms(2)] fewer_rest [OF assms(2)] unfolding well_typed_def by metis

lemma well_typed_put:
  assumes "well_typed L k c" and "m_seq_no m = i" and "packed_as L k t qid i (m_out m)"
  shows "well_typed L k (snd (put_meta t qid i m c))"
proof (cases "queue_seqs c (t, qid)")
  case None
  with assms(1) show ?thesis by (simp add: put_meta_def queue_seqs_def split: option.split)
next
  case (Some I)
  then have "find_meta (queue_put (t, qid) i m c) j n = (if j = (t, qid) \<and> n = i then Some m else find_meta c j n)" for j n
    by (intro find_meta_put) simp
  moreover have "kp (queue_put (t, qid) i m c) = kp c" by (simp add: queue_put_def put_meta_def set_queue_def split: option.split)
  ultimately show ?thesis using assms by (auto simp: well_typed_def queue_put_def)
qed

lemma well_typed_packet_ack: "keeps (well_typed L k) (packet_ack_future pt)"
proof (rule keepsI)
  fix c assume w: "well_typed L k c"
  obtain n where "snd (get_packet_id c) = c\<lparr>packet_id := n\<rparr>"
    using gpid_loop_snd [of 0 c] by (auto simp: get_packet_id_def)
  then have "kp (snd (packet_ack_future pt c)) = kp c \<and> msg_queues (snd (packet_ack_future pt c)) = msg_queues c"
    by (auto simp: packet_ack_future_def py_simps new_future_def split: prod.split sum.split)
  with w show "well_typed L k (snd (packet_ack_future pt c))" by (blast intro: well_typed_same)
qed

interpretation typed: answering "well_typed L k" "\<lambda>_. well_typed L k" "packed_as L k" L for k L
proof
  show "well_typed L k (ensure_queue t qid c)" "well_typed L k (drop_old_acks qid i c)" "well_typed L k (forget_probe t qid i c)"
    if "well_typed L k c" for c t qid i by (rule well_typed_fewer [OF that]; rule fewer_ops)+
  show "keeps (well_typed L k) (deliver L msg src qid)" for msg src qid
    by (rule keeps_deliver) (auto elim: well_typed_same)
  show "valid (well_typed L k) new_future (\<lambda>_. well_typed L k) (well_typed L k)"
    by (rule keepsI) (auto simp: new_future_def elim: well_typed_same)
  show "keeps (well_typed L k) (get_time L)" by (rule keepsI) (auto simp: get_time_def elim: well_typed_same)
  show "packed_as L k t qid i out"
    if "well_typed L k c" "pack L (AppPacket qid i (msg_val t) msg) c = (Inr (out, p), c')" for c qid i t msg out p c'
    using that pack_packed_as by (metis well_typed_def)
  show "packed_as L k t qid i out"
    if "well_typed L k c" "pack_async L (AppPacket qid i (msg_val t) msg) c = (Inr (out, p), c')" for c qid i t msg out p c'
    using that pack_async_packed_as by (metis well_typed_def)
  show "keeps (well_typed L k) (put_meta t qid i m)" if "m_seq_no m = i" "packed_as L k t qid i (m_out m)" for m i t qid
    by (rule keepsI) (rule well_typed_put [OF _ that])
  show "keeps (well_typed L k) (packet_ack_future pt)" for pt by (rule well_typed_packet_ack)
qed (auto elim: well_typed_same)

lemma well_typed_republish: "keeps (well_typed L k) (republish_entry L j i now interval d ignore_acked)"
proof (rule keepsI)
  fix c assume w: "well_typed L k c"
  obtain t qid where j: "j = (t, qid)" by (cases j)
  show "well_typed L k (snd (republish_entry L j i now interval d ignore_acked c))"
  proof (cases "find_meta c j i")
    case (Some m)
    have "m_seq_no (attempted m now) = i \<and> packed_as L k t qid i (m_out (attempted m now))"
      using w Some by (auto simp: well_typed_def j)
    moreover have "well_typed L k (c\<lparr>draws := draws c + 1\<rparr>)" using w by (auto elim: well_typed_same)
    ultimately have "well_typed L k (queue_put j i (attempted m now) (c\<lparr>draws := draws c + 1\<rparr>))"
      using well_typed_put by (simp add: queue_put_def j)
    moreover have "keeps (well_typed L k) (safe_pipe_send L b)" for b
      by (rule keepsI) (auto simp: safe_pipe_send_app elim: well_typed_same split: option.split)
    then have "keeps (well_typed L k) (attempt L x)" for x
      unfolding attempt_def by (intro valid_rules typed.publishing)
    ultimately show ?thesis using w keeps_snd by (fastforce simp: republish_app [OF Some] elim: well_typed_same)
  qed (use w in \<open>simp add: republish_entry_alt py_simps\<close>)
qed

interpretation typed_link: connecting "well_typed L k" L for k L
  by unfold_locales (auto elim: well_typed_same)

interpretation typed_run: session "well_typed L k" L for k L
proof
  show "keeps (well_typed L k) (get_time L)" "keeps (well_typed L k) (send_on L p x)" for p x by (rule typed.steps)+
  show "keeps (well_typed L k) (mqtt_packet_reader L x)" for x by (rule typed.reading)
  show "keeps (well_typed L k) (mqtt_connect L keep_alive)" for keep_alive by (rule typed_link.mqtt_connecting)
  show "keeps (well_typed L k) (republish_entry L j i now interval d ignore_acked)" for j i now interval d ignore_acked
    by (rule well_typed_republish)
  show "keeps (well_typed L k) (queue_msg L msg dest qid t seq)" "keeps (well_typed L k) (queue_msg_async L msg dest qid t seq)"
    "keeps (well_typed L k) (send_probe L dest qid)" for msg dest qid t seq
    by (rule typed.sending typed.probing)+
  show "keeps (well_typed L k) (dequeue_msg q seq t)" for q seq t
    by (rule keepsI) (auto simp: dequeue_msg_def set_result_def fewer_ops intro: well_typed_fewer elim: well_typed_same split: option.split)
  show "well_typed L k (reset_session_state c)" if "well_typed L k c" for c using that by (rule typed.resetting)
qed (auto simp: pipe_close_def add_msg_handler_def prune_msg_ids_def Let_def elim: well_typed_same)

section \<open>Property\<close>

text \<open>
  C10: the queues are typed. In every run of a client from its construction, an entry of a queue
  stands under a queue id of 64 characters and a 32-bit sequence number, which it carries, and
  its bytes are the client's own key, a signature made with its private key, and the section
  that the signature covers: this queue id, this number, a 64-bit time and the type of the
  queue. Nothing else is ever published from a queue, whichever operation put it there.
\<close>

theorem queues_well_typed:
  assumes "reachable L (new_client a dest k) c" and "find_meta c (t, qid) i = Some m"
  shows "m_seq_no m = i \<and> packed_as L k t qid i (m_out m)"
proof -
  have "well_typed L k (new_client a dest k)" by (simp add: well_typed_def new_client_def find_meta_alt)
  from typed_run.every_run [OF assms(1) this] assms(2) show ?thesis by (simp add: well_typed_def)
qed

lemma demo_queue_msg:
  assumes "q = hex_of (replicate 32 1)"
  shows "\<exists>c m. queue_msg demo_lib (PyStr ''hi'') (hex_of (replicate 33 2)) (Some q) MSG None demo_client = (Inr ((q, 0), 0), c) \<and>
     find_meta c (MSG, q) 0 = Some m"
proof -
  let ?c = "demo_client\<lparr>ticks := 1, last_send := Some 0\<rparr>" and ?send = "ordered_ack_send demo_lib (PyStr ''hi'') (hex_of (replicate 33 2)) q MSG None"
  have sec: "signed_section (replicate 32 1) 0 2 1 [104, 105] =
      Inr (replicate 32 1 @ [0, 0, 0, 0, 0, 0, 0, 0, 0, 0, 0, 2, 1, 104, 105])"
    by (simp add: signed_section_def struct_pack_def be_encode_widths)
  have len: "length q = 64" using assms by simp
  have hex: "hex_to_bytes q = Inr (replicate 32 1)" unfolding assms by (rule demo_hex)
  obtain c where run: "?send ?c = (Inr ((q, 0), 0), c)"
    using sec len hex
    by (simp add: ordered_ack_send_def oas_prepare_def py_simps note_sent_def Let_def get_time_def
        ensure_queue_def set_queue_def get_queue_def next_seq_no_def pack_app AppPacket_def
        stamp_value_def stamped_def oas_commit_app demo_client_def new_client_def py_int_def)
  have "queue_id_or_random demo_lib (Some q) = py_return q"
    using len by (cases q) (auto simp: queue_id_or_random_def)
  then have "queue_msg demo_lib (PyStr ''hi'') (hex_of (replicate 33 2)) (Some q) MSG None demo_client = ?send ?c"
    by (simp add: queue_msg_def touch_last_send_def py_simps get_time_def demo_client_def new_client_def)
  with run ordered_ack_send_aux [OF run] show ?thesis by auto
qed

theorem queues_well_typed_witness:
  "\<exists>c m. reachable demo_lib demo_client c \<and> find_meta c (MSG, hex_of (replicate 32 1)) 0 = Some m \<and>
     packed_as demo_lib (kp demo_client) MSG (hex_of (replicate 32 1)) 0 (m_out m)"
proof -
  define q where "q = hex_of (replicate 32 1)"
  obtain c m where run: "queue_msg demo_lib (PyStr ''hi'') (hex_of (replicate 33 2)) (Some q) MSG None demo_client = (Inr ((q, 0), 0), c)"
    and m: "find_meta c (MSG, q) 0 = Some m"
    using demo_queue_msg [OF q_def] by blast
  from run have r: "reachable demo_lib demo_client c" by (blast intro: reachable.intros client_step.Queue)
  have "packed_as demo_lib (kp demo_client) MSG q 0 (m_out m)"
    using queues_well_typed [OF r [unfolded demo_client_def] m] by (simp add: demo_client_def new_client_def)
  with r m show ?thesis unfolding q_def by blast
qed

end
