(* ===== verification/Router_Spec.thy ===== *)
theory Router_Spec
  imports Router_System
begin

text \<open>
  What the small operations on the router promise: making a client on demand, evicting a client
  from the cache, closing a smart pipe.
\<close>

section \<open>Making a client\<close>

lemma lookup_in_family: "lookup_client cm a h = Some i \<Longrightarrow> \<exists>hosts. map_of cm a = Some hosts \<and> map_of hosts h = Some i"
  by (auto simp: lookup_client_def split: option.splits)

text \<open>
  What \<open>ensure_client\<close> returns: the client stands for the broker asked for, has the router's
  keys and every handler ever registered; asking again, with whatever port, returns the same
  client and changes nothing; no other client and no other place of the table changes.
\<close>

theorem ensure_client_spec:
  assumes "ensure_client R a h p r = (Inr (Some i), r')" and "router_ok r"
  shows "lookup_client (rt_clients r') a h = Some i \<and> serves a h (rt_kp r) (set (rt_handlers r)) (rt_client i r') \<and>
    ensure_client R a h p' r' = (Inr (Some i), r') \<and>
    (\<forall>b g. (b, g) \<noteq> (a, h) \<longrightarrow> lookup_client (rt_clients r') b g = lookup_client (rt_clients r) b g) \<and>
    (\<forall>j < rt_next r. rt_client j r' = rt_client j r)"
  using ensure_cases [OF assms(1)]
proof (elim disjE exE conjE)
  fix j assume old: "r' = r" "Inr (Some i) = Inr (Some j)" "a \<in> set (supported (net R))" "lookup_client (rt_clients r) a h = Some j"
  then have "serves a h (rt_kp r) (set (rt_handlers r)) (rt_client i r)" using assms(2) by (simp add: router_ok_def registry_ok_def)
  with old show ?thesis by (auto simp: ensure_client_def dest!: lookup_in_family)
next
  fix hosts assume new: "Inr (Some i) = Inr (Some (rt_next r))" "a \<in> set (supported (net R))" "map_of (rt_clients r) a = Some hosts"
    "r' = r\<lparr>rt_pool := (rt_pool r)\<lparr>members := (members (rt_pool r))(rt_next r := make_client a h p r)\<rparr>,
       rt_clients := AList.update a (AList.update h (rt_next r) hosts) (rt_clients r), rt_next := rt_next r + 1\<rparr>"
  then have "lookup_client (rt_clients r') a h = Some i" by (simp add: lookup_new)
  with new show ?thesis by (auto simp: lookup_new made_client rt_client_def ensure_client_def dict_simps)
qed simp_all

theorem ensure_client_spec_witness:
  "\<exists>r. ensure_client demo_env 10 ''new'' 1883 demo_router = (Inr (Some 3), r) \<and> lookup_client (rt_clients r) 10 ''new'' = Some 3 \<and>
     7 \<in> set (msg_handlers (rt_client 3 r)) \<and> lookup_client (rt_clients r) 2 ''a'' = Some 1"
proof -
  obtain r where run: "ensure_client demo_env 10 ''new'' 1883 demo_router = (Inr (Some 3), r)"
    by (simp add: ensure_client_def demo_clients)
  moreover have "router_ok demo_router" using init_router_ok by (simp add: demo_router_def)
  moreover have "lookup_client (rt_clients demo_router) 2 ''a'' = Some 1" by (simp add: demo_clients lookup_client_def)
  ultimately show ?thesis using ensure_client_spec [OF run] by (auto simp: serves_def demo_rest)
qed

section \<open>Eviction\<close>

lemma fold_delete_lookup:
  "map_of (fold AList.delete ks al) k = (if k \<in> set ks then None else map_of al k)"
  by (induction ks arbitrary: al) (auto simp: dict_simps)

lemma evict_lookup:
  assumes "distinct (map fst (rt_cache r))"
  shows "map_of (rt_cache (evict_client_from_cache i r)) k =
    (case map_of (rt_cache r) k of Some (t, cs) \<Rightarrow> if i \<in> set cs then None else Some (t, cs) | None \<Rightarrow> None)"
proof -
  have stale: "k \<in> fst ` {x \<in> set (rt_cache r). i \<in> set (snd (snd x))} \<longleftrightarrow> (\<exists>t cs. map_of (rt_cache r) k = Some (t, cs) \<and> i \<in> set cs)"
    using assms by (force simp: map_of_eq_Some_iff)
  have f: "map_of (rt_cache (evict_client_from_cache i r)) k =
      (if k \<in> fst ` {x \<in> set (rt_cache r). i \<in> set (snd (snd x))} then None else map_of (rt_cache r) k)"
    by (simp add: evict_client_from_cache_def Let_def fold_delete_lookup case_prod_unfold)
  show ?thesis unfolding f stale by (auto split: option.split)
qed

lemma evict_distinct: "distinct (map fst (rt_cache r)) \<Longrightarrow> distinct (map fst (rt_cache (evict_client_from_cache i r)))"
proof -
  have "distinct (map fst (fold AList.delete ks al))" if "distinct (map fst al)" for ks and al :: "(string \<times> real \<times> nat list) list"
    using that by (induction ks arbitrary: al) (auto simp: distinct_delete)
  then show "distinct (map fst (rt_cache r)) \<Longrightarrow> distinct (map fst (rt_cache (evict_client_from_cache i r)))"
    by (simp add: evict_client_from_cache_def Let_def)
qed

lemma evict_fields [simp]:
  "rt_pool (evict_client_from_cache i r) = rt_pool r" "rt_protected (evict_client_from_cache i r) = rt_protected r"
  "rt_clients (evict_client_from_cache i r) = rt_clients r" "rt_client j (evict_client_from_cache i r) = rt_client j r"
  by (simp_all add: evict_client_from_cache_def Let_def)

text \<open>
  closing a smart pipe. It only forgets: the cache loses exactly the entries that name one of
  the pipe's clients, and no client is touched, so that they stay connected for others.
\<close>

theorem sp_close_spec:
  assumes "distinct (map fst (rt_cache r))"
  shows "rt_pool (sp_close sp r) = rt_pool r \<and> rt_clients (sp_close sp r) = rt_clients r \<and>
    map_of (rt_cache (sp_close sp r)) k =
      (case map_of (rt_cache r) k of
         Some (t, cs) \<Rightarrow> if set cs \<inter> set (sp_clients sp) = {} then Some (t, cs) else None
       | None \<Rightarrow> None)"
proof -
  have "rt_pool (fold evict_client_from_cache is r) = rt_pool r \<and> rt_clients (fold evict_client_from_cache is r) = rt_clients r \<and>
    map_of (rt_cache (fold evict_client_from_cache is r)) k =
      (case map_of (rt_cache r) k of Some (t, cs) \<Rightarrow> if set cs \<inter> set is = {} then Some (t, cs) else None | None \<Rightarrow> None)" for "is"
    using assms by (induction "is" arbitrary: r) (auto simp: evict_lookup evict_distinct split: option.splits)
  then show ?thesis by (simp add: sp_close_def)
qed

theorem sp_close_spec_witness:
  "map_of (rt_cache (sp_close \<lparr>sp_dest = ''ab'', sp_clients = [1], sp_hints = []\<rparr>
     (demo_router\<lparr>rt_cache := [(''ab'', 0, [1]), (''cd'', 5, [0, 2])]\<rparr>))) ''cd'' = Some (5, [0, 2])"
  using sp_close_spec [of "demo_router\<lparr>rt_cache := [(''ab'', 0, [1]), (''cd'', 5, [0, 2])]\<rparr>"
      "\<lparr>sp_dest = ''ab'', sp_clients = [1], sp_hints = []\<rparr>" "''cd''"] by simp

end
