(* ===== verification/Idle.thy ===== *)
theory Idle
  imports Router_Spec
begin

text \<open>
  Closing idle clients: which clients a pass closes, what state they are left in, and two
  consequences of that state for the next connection.
\<close>

section \<open>One client\<close>

text \<open>What closing does not touch.\<close>

definition contents :: "client \<Rightarrow> (msg_enum \<Rightarrow> (string \<times> queue) list) \<times> bytes \<times> real option \<times> nat list \<times> fut list \<times> (mqtt_enum \<Rightarrow> (bytes \<times> nat) list)" where
  "contents c = (msg_queues c, buf c, last_connect c, msg_handlers c, futs c, packet_ids c)"

lemma close_contents: "leaves contents (close L)"
proof -
  have "leaves contents (send_on L p b)" "leaves contents (pipe_close L p)" for p b
    by (rule leavesI, simp add: send_on_def pipe_close_def contents_def split: option.split)+
  moreover have "leaves contents (async_wrap_errors L m)" if "leaves contents m" for m :: "(client, unit) py"
    using that unfolding async_wrap_errors_def by (intro leaves_rules)
  moreover have "leaves contents (py_modify (\<lambda>c. c\<lparr>is_closed := True\<rparr>))" "leaves contents (py_modify (\<lambda>c. c\<lparr>dispatcher_task := None\<rparr>))"
    "leaves contents (py_modify (\<lambda>c. c\<lparr>pipe := None\<rparr>))"
    by (rule leaves_modify, simp add: contents_def)+
  ultimately show ?thesis unfolding close_def cancel_dispatcher_def by (intro leaves_rules)
qed

lemma close_dispatcher: "\<not> is_closed c \<Longrightarrow> dispatcher_task (snd (close L c)) = None"
proof -
  have send: "leaves dispatcher_task (async_wrap_errors L (send_on L p b))" for p b
    by (rule leavesI) (simp add: disconnect_app split: option.split)
  have shut: "leaves dispatcher_task (pipe_close L p)" "leaves dispatcher_task (py_modify (\<lambda>c. c\<lparr>pipe := None\<rparr>))" for p
    by (rule leavesI, simp add: pipe_close_def py_simps)+
  have "leaves dispatcher_task (py_seq (async_wrap_errors L (send_on L p build_disconnect))
            (py_seq (pipe_close L p) (py_modify (\<lambda>c. c\<lparr>pipe := None\<rparr>))))" for p
    by (intro leaves_rules send shut)
  then show "\<not> is_closed c \<Longrightarrow> dispatcher_task (snd (close L c)) = None"
    by (simp add: close_app Let_def leavesD split: option.split)
qed

text \<open>
  Its connection is shut: the pipe it had is closed, with a DISCONNECT, sent or attempted, as its
  last message, unless the cancelled dispatcher has closed it before.
\<close>

definition shut :: "lib \<Rightarrow> client \<Rightarrow> client \<Rightarrow> bool" where
  "shut L c c' \<longleftrightarrow> \<not> pipe_open c' \<and> (case pipe c of None \<Rightarrow> trace c' = trace c
     | Some p \<Rightarrow> pipe_closed c' p \<and>
         (if dispatcher_task c = Some Running \<and> cut_off L (length (trace c)) then trace c' = trace c @ [PipeShut p]
          else \<exists>x e. trace c' = trace c @ [x, PipeShut p] \<and> x \<in> {Sent p [0xE0, 0], SendFailed p [0xE0, 0] e}))"

lemma close_shut:
  assumes "close L c = (r, c')" and "\<forall>e. swallows L e" and "\<not> is_closed c"
  shows "shut L c c'"
proof -
  note spec = close_spec [OF assms(1) assms(2) [rule_format], unfolded if_not_P [OF assms(3)]]
  then have p: "pipe c' \<in> {None, pipe c}" "pipe c = None \<longrightarrow> trace c' = trace c"
    and q: "\<forall>p. pipe c = Some p \<longrightarrow> pipe_closed c' p \<and>
        (if cut L c then trace c' = trace c @ [PipeShut p]
         else \<exists>x e. trace c' = trace c @ [x, PipeShut p] \<and> x \<in> {Sent p [0xE0, 0], SendFailed p [0xE0, 0] e})"
    by blast+
  from p q have "\<not> pipe_open c'" by (auto simp: pipe_open_def split: option.split)
  with p q show ?thesis by (cases "pipe c") (auto simp: shut_def)
qed

lemma shut_fields:
  "shut L (c\<lparr>recv_msg_ids := ids, last_send := t\<rparr>) c' = shut L c c'" "shut L c (reuse c') = shut L c c'"
  by (cases "pipe c"; cases "pipe c'"; simp add: shut_def reuse_def client_reset_session_state_def pipe_open_def)+

text \<open>The state in which an idle client is left.\<close>

definition idled :: "client \<Rightarrow> client \<Rightarrow> bool" where
  "idled c c' \<longleftrightarrow> \<not> is_closed c' \<and> last_send c' = None \<and> packet_ids c' = (\<lambda>_. []) \<and> (\<not> is_closed c \<longrightarrow> dispatcher_task c' = None) \<and>
     (\<forall>pt pid f. map_of (packet_ids c pt) pid = Some f \<longrightarrow> pt \<in> set ack_types \<longrightarrow> f < length (futs c) \<longrightarrow> fut_done (futs c') f) \<and>
     msg_queues c' = msg_queues c \<and> buf c' = buf c \<and> last_connect c' = last_connect c \<and> msg_handlers c' = msg_handlers c"

lemma closed_and_reused:
  assumes "contents c2 = contents c" and "\<not> is_closed c \<Longrightarrow> dispatcher_task c2 = None"
  shows "idled c (reuse c2)"
proof -
  have "fut_done (futs (reuse c2)) f" if "map_of (packet_ids c pt) pid = Some f" "pt \<in> set ack_types" "f < length (futs c)" for pt pid f
  proof -
    have "f \<in> set (concat (map (\<lambda>pt. map snd (packet_ids c pt)) ack_types))" using that map_of_SomeD by force
    then show ?thesis
      using cancel_futures_done [of f] that(3) assms(1) by (simp add: reuse_def client_reset_session_state_def contents_def)
  qed
  with assms show ?thesis by (simp add: idled_def reuse_def client_reset_session_state_def contents_def)
qed

lemma on_pool_client:
  "on_pool (on_client i m) r = (case m ((rt_client i r)\<lparr>recv_msg_ids := shared_ids (rt_pool r)\<rparr>) of
     (x, c') \<Rightarrow> (x, r\<lparr>rt_pool := (rt_pool r)\<lparr>members := (members (rt_pool r))(i := c'), shared_ids := recv_msg_ids c'\<rparr>\<rparr>))"
  by (simp add: on_pool_def on_client_def rt_client_def split: prod.split)

lemma last_active_shared [simp]: "last_active now (c\<lparr>recv_msg_ids := ids\<rparr>) = last_active now c"
  by (simp add: last_active_def split: option.split)

text \<open>Everything a pass may do while it is at the client \<open>i\<close>, whose state was \<open>c\<close>.\<close>

definition idle_step :: "lib \<Rightarrow> nat \<Rightarrow> real \<Rightarrow> router \<Rightarrow> unit res \<Rightarrow> router \<Rightarrow> bool" where
  "idle_step L i now r x r' \<longleftrightarrow>
     rt_protected r' = rt_protected r \<and> (\<forall>j. j \<noteq> i \<longrightarrow> rt_client j r' = rt_client j r) \<and>
     rt_cache r' \<in> {rt_cache r, rt_cache (evict_client_from_cache i r)} \<and>
     (let c = rt_client i r; active = last_active now c in
      if i \<in> rt_protected r \<or> dispatcher_task c = None then x = Inr () \<and> r' = r
      else if now - active < IDLE_CLIENT_TIMEOUT
      then x = Inr () \<and> rt_cache r' = rt_cache r \<and> (\<exists>ids. rt_client i r' = c\<lparr>recv_msg_ids := ids, last_send := Some active\<rparr>)
      else x = Inr () \<longrightarrow> idled c (rt_client i r') \<and> ((\<forall>e. swallows L e) \<longrightarrow> \<not> is_closed c \<longrightarrow> shut L c (rt_client i r')) \<and>
        rt_cache r' = rt_cache (evict_client_from_cache i r))"

lemma close_if_idle_step:
  assumes "close_if_idle R (\<lambda>_ r. r) now i r = (x, r')"
  shows "idle_step (each R i) i now r x r'"
proof (cases "i \<in> rt_protected r \<or> dispatcher_task (rt_client i r) = None")
  case True
  with assms show ?thesis by (auto simp: close_if_idle_def py_simps idle_step_def Let_def)
next
  case False
  let ?c = "rt_client i r"
  let ?c1 = "?c\<lparr>recv_msg_ids := shared_ids (rt_pool r), last_send := Some (last_active now ?c)\<rparr>"
  let ?r1 = "r\<lparr>rt_pool := (rt_pool r)\<lparr>members := (members (rt_pool r))(i := ?c1), shared_ids := shared_ids (rt_pool r)\<rparr>\<rparr>"
  have touch: "on_pool (on_client i (py_modify (\<lambda>c. c\<lparr>last_send := Some (last_active now ?c)\<rparr>))) r = (Inr (), ?r1)"
    by (simp add: on_pool_client py_simps)
  show ?thesis
  proof (cases "now - last_active now ?c < IDLE_CLIENT_TIMEOUT")
    case True
    then have "x = Inr () \<and> r' = ?r1"
      using assms False by (auto simp: close_if_idle_def py_simps Let_def touch)
    with False True show ?thesis by (auto simp: idle_step_def Let_def rt_client_def)
  next
    case late: False
    obtain y c2 where cl: "close (each R i) ?c1 = (y, c2)" by fastforce
    let ?r2 = "?r1\<lparr>rt_pool := (rt_pool r)\<lparr>members := (members (rt_pool r))(i := c2), shared_ids := recv_msg_ids c2\<rparr>\<rparr>"
    have c1: "(rt_client i ?r1)\<lparr>recv_msg_ids := shared_ids (rt_pool ?r1)\<rparr> = ?c1" by (simp add: rt_client_def)
    have "contents c2 = contents ?c1" using leaves_run [OF close_contents cl] .
    moreover have "dispatcher_task c2 = None" if "\<not> is_closed ?c" using close_dispatcher [of ?c1 "each R i"] cl that by simp
    ultimately have idled: "idled ?c (reuse c2)" by (intro closed_and_reused) (simp_all add: contents_def)
    have off: "shut (each R i) ?c (reuse c2)" if "\<forall>e. swallows (each R i) e" "\<not> is_closed ?c"
      using close_shut [OF cl that(1)] that(2) by (simp add: shut_fields)
    have "on_pool (on_client i (py_except (close (each R i)) is_OSError (py_return ()))) ?r1 =
        (if \<exists>e. y = Inl e \<and> \<not> is_OSError e then y else Inr (), ?r2)"
      unfolding on_pool_client c1 py_except_app cl by (auto simp: py_simps split: sum.split)
    moreover have "on_pool (on_client i (py_modify reuse)) ?r2 =
        (Inr (), ?r2\<lparr>rt_pool := (rt_pool r)\<lparr>members := (members (rt_pool r))(i := reuse c2), shared_ids := recv_msg_ids (reuse c2)\<rparr>\<rparr>)"
      by (simp add: on_pool_client py_simps rt_client_def)
    ultimately have "x = Inr () \<and> (\<exists>p. r' = evict_client_from_cache i (r\<lparr>rt_pool := p\<rparr>) \<and>
          members p = (members (rt_pool r))(i := reuse c2)) \<or>
        x \<noteq> Inr () \<and> r' = ?r2"
      using assms False late
      by (auto simp: close_if_idle_def py_simps Let_def touch split: if_splits sum.splits)
    moreover have "rt_cache (evict_client_from_cache i (r\<lparr>rt_pool := p\<rparr>)) = rt_cache (evict_client_from_cache i r)" for p
      by (simp add: evict_client_from_cache_def Let_def)
    ultimately show ?thesis using False late idled off by (auto simp: idle_step_def Let_def rt_client_def)
  qed
qed

section \<open>A pass\<close>

lemma same_clients: "leaves rt_clients (on_pool m)" "leaves rt_clients (py_modify (evict_client_from_cache i))"
  by (rule leavesI, simp add: on_pool_def evict_client_from_cache_def Let_def py_simps split: prod.split)+

lemma close_idle_app:
  "close_idle_clients R r =
     py_for (client_ids (rt_clients r)) (close_if_idle R (\<lambda>_ r. r) (clock (own R) (rt_ticks r))) (r\<lparr>rt_ticks := rt_ticks r + 1\<rparr>)"
proof -
  have "leaves rt_clients (py_modify (\<lambda>r. r))" by (rule leaves_modify) simp
  then have "leaves rt_clients (close_if_idle R (\<lambda>_ r. r) now i)" for now i
    unfolding close_if_idle_def Let_def by (intro leaves_rules same_clients)
  from for_clients_same [OF this] show ?thesis by (simp add: close_idle_clients_def idle_pass_def rt_time_def py_simps)
qed

definition smaller_cache :: "router \<Rightarrow> router \<Rightarrow> bool" where
  "smaller_cache r r' \<longleftrightarrow> distinct (map fst (rt_cache r')) \<and>
     (\<forall>k v. map_of (rt_cache r') k = Some v \<longrightarrow> map_of (rt_cache r) k = Some v)"

lemma smaller_step:
  assumes "rt_cache r' \<in> {rt_cache r, rt_cache (evict_client_from_cache i r)}" and "distinct (map fst (rt_cache r))"
  shows "smaller_cache r r'"
proof -
  have "map_of (rt_cache r) k = Some v" if "map_of (rt_cache (evict_client_from_cache i r)) k = Some v" for k v
    using that by (auto simp: evict_lookup [OF assms(2)] split: option.splits if_splits)
  then show ?thesis using assms evict_distinct [OF assms(2), of i] by (auto simp: smaller_cache_def)
qed

lemma idle_small: "idle_step L i now r x r' \<Longrightarrow> distinct (map fst (rt_cache r)) \<Longrightarrow> smaller_cache r r'"
  unfolding idle_step_def by (blast intro: smaller_step)

lemma smaller_trans: "smaller_cache r r' \<Longrightarrow> smaller_cache r' r'' \<Longrightarrow> smaller_cache r r''"
  unfolding smaller_cache_def by blast

lemma pass_others:
  assumes "py_for ids (close_if_idle R (\<lambda>_ r. r) now) r = (x, r')" and "distinct (map fst (rt_cache r))"
  shows "rt_protected r' = rt_protected r \<and> (\<forall>i. i \<notin> set ids \<longrightarrow> rt_client i r' = rt_client i r) \<and> smaller_cache r r'"
  using assms
proof (induction ids arbitrary: r)
  case Nil
  then show ?case by (simp add: py_simps smaller_cache_def)
next
  case (Cons i ids)
  obtain y r1 where first: "close_if_idle R (\<lambda>_ r. r) now i r = (y, r1)" by fastforce
  note one = close_if_idle_step [OF first, unfolded idle_step_def]
  from idle_small [OF close_if_idle_step [OF first] Cons.prems(2)] have small: "smaller_cache r r1" .
  then have d: "distinct (map fst (rt_cache r1))" by (simp add: smaller_cache_def)
  show ?case
  proof (cases y)
    case (Inl e)
    with first Cons.prems(1) have "r' = r1" by (simp add: py_simps)
    with one small show ?thesis by simp
  next
    case (Inr u)
    with first Cons.prems(1) have "py_for ids (close_if_idle R (\<lambda>_ r. r) now) r1 = (x, r')" by (simp add: py_simps)
    from Cons.IH [OF this d] one small show ?thesis by (auto dest: smaller_trans)
  qed
qed

lemma pass_untouched:
  assumes "py_for ids (close_if_idle R (\<lambda>_ r. r) now) r = (x, r')" and "i \<in> rt_protected r \<or> dispatcher_task (rt_client i r) = None"
  shows "rt_client i r' = rt_client i r"
  using assms
proof (induction ids arbitrary: r)
  case (Cons j ids)
  obtain y r1 where first: "close_if_idle R (\<lambda>_ r. r) now j r = (y, r1)" by fastforce
  have same: "rt_client i r1 = rt_client i r" "rt_protected r1 = rt_protected r"
    using close_if_idle_step [OF first] Cons.prems(2) by (cases "i = j"; auto simp: idle_step_def Let_def)+
  show ?case
  proof (cases y)
    case (Inl e)
    with first Cons.prems(1) same show ?thesis by (simp add: py_simps)
  next
    case (Inr u)
    with first Cons.prems(1) have "py_for ids (close_if_idle R (\<lambda>_ r. r) now) r1 = (x, r')" by (simp add: py_simps)
    from Cons.IH [OF this] Cons.prems(2) same show ?thesis by simp
  qed
qed (simp add: py_simps)

lemma pass_here:
  assumes "py_for ids (close_if_idle R (\<lambda>_ r. r) now) r = (Inr (), r')" and "distinct (map fst (rt_cache r))" and "i \<in> set ids" and "distinct ids"
  shows "\<exists>r1 r2. idle_step (each R i) i now r1 (Inr ()) r2 \<and> rt_client i r1 = rt_client i r \<and> rt_protected r1 = rt_protected r \<and>
    distinct (map fst (rt_cache r1)) \<and> rt_client i r' = rt_client i r2 \<and> smaller_cache r2 r'"
  using assms
proof (induction ids arbitrary: r)
  case (Cons j ids)
  obtain y r1 where first: "close_if_idle R (\<lambda>_ r. r) now j r = (y, r1)" by fastforce
  with Cons.prems(1) have more: "y = Inr ()" "py_for ids (close_if_idle R (\<lambda>_ r. r) now) r1 = (Inr (), r')"
    by (auto simp: py_simps split: sum.splits)
  note one = close_if_idle_step [OF first]
  then have "smaller_cache r r1" using Cons.prems(2) by (rule idle_small)
  then have d: "distinct (map fst (rt_cache r1))" by (simp add: smaller_cache_def)
  show ?case
  proof (cases "i = j")
    case True
    with Cons.prems(4) pass_others [OF more(2) d] have "rt_client i r' = rt_client i r1" "smaller_cache r1 r'" by auto
    with True one more(1) Cons.prems(2) show ?thesis by blast
  next
    case False
    with one have "rt_client i r1 = rt_client i r" "rt_protected r1 = rt_protected r" by (auto simp: idle_step_def)
    with Cons.IH [OF more(2) d] Cons.prems(3,4) False show ?thesis by auto
  qed
qed simp

text \<open>
  C16: a pass over the idle clients. Clients that are protected, and clients without a dispatcher,
  are not touched, also when the pass is cut short by an exception. If it returns, every other
  client that was active less than 600 seconds ago only has its time of activity noted, and
  every client that was not, unless it had been closed already, is closed and made fit for use: its
  pipe is shut, with a DISCONNECT as its last message (if \<open>async_wrap_errors\<close> catches what sending it
  raises), and the client is open again, without a dispatcher, without packet ids, their futures
  done, its queued messages still there, and in no entry of the cache.
\<close>

theorem close_idle_clients_spec:
  assumes "close_idle_clients R r = (x, r')" and "router_ok r"
  shows "(\<forall>i. i \<in> rt_protected r \<or> dispatcher_task (rt_client i r) = None \<longrightarrow> rt_client i r' = rt_client i r) \<and>
    (x = Inr () \<longrightarrow> (\<forall>a h i. lookup_client (rt_clients r) a h = Some i \<longrightarrow> i \<notin> rt_protected r \<longrightarrow> dispatcher_task (rt_client i r) \<noteq> None \<longrightarrow>
      (let now = clock (own R) (rt_ticks r); active = last_active now (rt_client i r) in
       if now - active < 600 then \<exists>ids. rt_client i r' = (rt_client i r)\<lparr>recv_msg_ids := ids, last_send := Some active\<rparr>
       else idled (rt_client i r) (rt_client i r') \<and>
         ((\<forall>e. swallows (each R i) e) \<longrightarrow> \<not> is_closed (rt_client i r) \<longrightarrow> shut (each R i) (rt_client i r) (rt_client i r')) \<and>
         (\<forall>k t cs. map_of (rt_cache r') k = Some (t, cs) \<longrightarrow> i \<notin> set cs))))"
proof -
  let ?r = "r\<lparr>rt_ticks := rt_ticks r + 1\<rparr>" and ?now = "clock (own R) (rt_ticks r)" and ?ids = "client_ids (rt_clients r)"
  have run: "py_for ?ids (close_if_idle R (\<lambda>_ r. r) ?now) ?r = (x, r')"
    using assms(1) by (simp add: close_idle_app)
  have ok: "distinct (map fst (rt_cache ?r))" "distinct ?ids" using assms(2) by (simp_all add: router_ok_def ids_ok_def)
  have untouched: "rt_client i r' = rt_client i r" if "i \<in> rt_protected r \<or> dispatcher_task (rt_client i r) = None" for i
    using pass_untouched [OF run] that by simp
  have rest: "if ?now - last_active ?now (rt_client i r) < 600
       then \<exists>ids. rt_client i r' = (rt_client i r)\<lparr>recv_msg_ids := ids, last_send := Some (last_active ?now (rt_client i r))\<rparr>
       else idled (rt_client i r) (rt_client i r') \<and>
         ((\<forall>e. swallows (each R i) e) \<longrightarrow> \<not> is_closed (rt_client i r) \<longrightarrow> shut (each R i) (rt_client i r) (rt_client i r')) \<and>
         (\<forall>k t cs. map_of (rt_cache r') k = Some (t, cs) \<longrightarrow> i \<notin> set cs)"
    if "x = Inr ()" "lookup_client (rt_clients r) a h = Some i" "i \<notin> rt_protected r" "dispatcher_task (rt_client i r) \<noteq> None" for a h i
  proof -
    from pass_here [OF run [unfolded that(1)] ok(1) lookup_listed [OF that(2)] ok(2)]
    obtain r1 r2 where s: "idle_step (each R i) i ?now r1 (Inr ()) r2" "rt_client i r1 = rt_client i r" "rt_protected r1 = rt_protected r"
      "distinct (map fst (rt_cache r1))" "rt_client i r' = rt_client i r2" "smaller_cache r2 r'" by auto
    have "i \<notin> set cs" if "rt_cache r2 = rt_cache (evict_client_from_cache i r1)" "map_of (rt_cache r') k = Some (t, cs)" for k t cs
    proof -
      have "map_of (rt_cache r2) k = Some (t, cs)" using s(6) that(2) by (simp add: smaller_cache_def)
      with that(1) show ?thesis by (auto simp: evict_lookup [OF s(4)] split: option.splits if_splits)
    qed
    with s that show ?thesis by (auto simp: idle_step_def Let_def IDLE_CLIENT_TIMEOUT_def)
  qed
  show ?thesis using untouched rest by (simp add: Let_def)
qed

text \<open>A router whose client 1 has been silent for too long.\<close>

definition demo_idle :: router where
  "demo_idle = (let p = rt_pool demo_router in demo_router\<lparr>rt_pool := p\<lparr>members := (members p)(1 :=
     (members p 1)\<lparr>dispatcher_task := Some Running, last_send := Some (-1000), pipe := Some 0, next_pipe := 1\<rparr>)\<rparr>\<rparr>)"

lemma demo_idle_fields [simp]:
  "rt_clients demo_idle = rt_clients demo_router" "rt_protected demo_idle = {}" "rt_ticks demo_idle = 0"
  "rt_client (Suc 0) demo_idle = (rt_client (Suc 0) demo_router)\<lparr>dispatcher_task := Some Running, last_send := Some (-1000), pipe := Some 0, next_pipe := 1\<rparr>"
  by (simp_all add: demo_idle_def Let_def demo_rest rt_client_def)

lemma demo_idle_ok: "router_ok demo_idle"
proof -
  have "pipe_closed (rt_client (Suc 0) demo_router) = (\<lambda>_. False)" by (simp add: demo_members [simplified] add_msg_handler_def new_client_def)
  moreover have "router_ok demo_router" using init_router_ok by (simp add: demo_router_def)
  ultimately show ?thesis
    by (simp add: demo_idle_def Let_def router_ok_def registry_ok_def clients_ok_def ids_ok_def rt_client_def pipes_ok_def serves_def)
qed

theorem close_idle_clients_spec_witness:
  "\<exists>r'. close_idle_clients demo_env demo_idle = (Inr (), r') \<and> dispatcher_task (rt_client 1 r') = None \<and> \<not> is_closed (rt_client 1 r') \<and>
    pipe_closed (rt_client 1 r') 0"
proof -
  let ?c = "rt_client 1 demo_idle"
  have c: "\<not> is_closed ?c" "pipe ?c = Some 0" "dispatcher_task ?c = Some Running" "last_send ?c = Some (-1000)"
    by (simp_all add: demo_members [simplified] add_msg_handler_def new_client_def)
  have other: "dispatcher_task (members (rt_pool demo_idle) 0) = None" "dispatcher_task (members (rt_pool demo_idle) 2) = None"
    by (simp_all add: demo_idle_def Let_def demo_router_def Router_init_def own_servers_def demo_servers_def empty_router_def
        seed_af_def ensure_client_def py_simps make_client_def add_msg_handler_def new_client_def)
  obtain r' where run: "close_idle_clients demo_env demo_idle = (Inr (), r')"
    using c other
    by (simp add: close_idle_app py_simps demo_clients client_ids_def close_if_idle_def rt_client_def
        on_pool_def on_client_def last_active_def IDLE_CLIENT_TIMEOUT_def close_app cancelled_def disconnect_app pipe_close_def evict_client_from_cache_def Let_def)
  have l: "lookup_client (rt_clients demo_idle) 2 ''a'' = Some 1" by (simp add: demo_clients lookup_client_def)
  have "idled ?c (rt_client 1 r') \<and> shut (each demo_env 1) ?c (rt_client 1 r')"
    using close_idle_clients_spec [OF run demo_idle_ok] l c unfolding Let_def last_active_def by fastforce
  with run c show ?thesis by (auto simp: idled_def shut_def)
qed

section \<open>The idle window after a failed connect\<close>

text \<open>
  A client that connects after a failure gets no idle window. \<open>last_connect\<close>, which a pass
  takes for the time of the last connect, is set by \<open>try_client\<close> when connecting fails, and it
  tries again only 1200 seconds later: a client that then connects and has not sent yet counts as
  idle from the start, and the next pass closes it.
\<close>

theorem late_connect_is_idle:
  assumes "try_client L c = (Inr True, c')" and "dispatcher_task c = None" and "last_connect c = Some t" and "t \<noteq> 0"
    and "last_send c' = None" and "clock L (ticks c) \<le> now"
  shows "dispatcher_task c' \<noteq> None \<and> \<not> now - last_active now c' < IDLE_CLIENT_TIMEOUT"
proof -
  let ?c = "c\<lparr>ticks := ticks c + 1\<rparr>"
  from assms(1-3) obtain p where late: "\<not> clock L (ticks c) - t < 1200" and con: "connect L (cancelled_by L \<noteq> Connect_Limit) 60 10 ?c = (Inr p, c')"
    by (auto simp: try_client_app Let_def split: if_splits prod.splits sum.splits)
  from con assms(2) obtain c1 q where run: "mqtt_connect L 10 (?c\<lparr>republish_duration := 60\<rparr>) = (Inr q, c1)" and c': "c' = start_dispatcher c1"
    by (auto simp: connect_app split: prod.splits sum.splits)
  have "last_connect c' = Some t" using leaves_run [OF life_mqtt_connect run] assms(3) c' by (simp add: life_def)
  with assms(4-6) late have "\<not> now - last_active now c' < IDLE_CLIENT_TIMEOUT" by (simp add: last_active_def IDLE_CLIENT_TIMEOUT_def)
  then show ?thesis using c' by simp
qed

theorem late_connect_is_idle_witness:
  "\<exists>c'. try_client demo_lib (demo_client\<lparr>last_connect := Some (-2000)\<rparr>) = (Inr True, c') \<and> \<not> 1 - last_active 1 c' < IDLE_CLIENT_TIMEOUT"
proof -
  let ?c = "demo_client\<lparr>last_connect := Some (-2000)\<rparr>"
  obtain c1 where con: "mqtt_connect demo_lib 10 (demo_client\<lparr>republish_duration := 60, last_connect := Some (-2000), ticks := 1\<rparr>) = (Inr 0, c1)"
    and none: "last_send c1 = None"
    using demo_connect_at [where d = 60 and l = "Some (-2000)" and k = 1 and ids = "[]"] by (auto simp: demo_client_def new_client_def)
  have run: "try_client demo_lib ?c = (Inr True, start_dispatcher c1)"
    using con by (simp add: try_client_app connect_app demo_client_def new_client_def)
  have "last_send (start_dispatcher c1) = None" using none by (simp add: start_dispatcher_def)
  with late_connect_is_idle [OF run, of "-2000" 1] run show ?thesis by (simp add: demo_client_def new_client_def)
qed

section \<open>A stream left wedged\<close>

text \<open>The buffer begins with a length no packet can have, so nothing will ever be cut off it.\<close>

definition wedged :: "client \<Rightarrow> bool" where
  "wedged c \<longleftrightarrow> buf c \<noteq> [] \<and> mqtt_decode_varint (buf c) 1 = Inl (ValueError ''malformed varint'')"

lemma wedged_buf: "buf c' = buf c \<Longrightarrow> wedged c' = wedged c"
  by (simp add: wedged_def)

lemma wedged_chunks:
  assumes "wedged c"
  shows "\<exists>b. py_for chunks (\<lambda>x. py_except (mqtt_packet_reader L x) (\<lambda>_. True) (py_return ())) c = (Inr (), set_buf b c) \<and> wedged (set_buf b c)"
  using assms
proof (induction chunks arbitrary: c)
  case Nil
  then show ?case by (intro exI [of _ "buf c"]) (simp add: py_simps set_buf_def)
next
  case (Cons x chunks)
  let ?c = "set_buf (buf c @ x) c"
  have read: "mqtt_packet_reader L x c = (Inr (), ?c)"
    using malformed_aux [of c "[x]" L] Cons.prems by (simp add: wedged_def py_simps split: prod.splits sum.splits)
  have "mqtt_decode_varint (buf c @ x) 1 = Inl (ValueError ''malformed varint'')"
    using Cons.prems by (intro decode_malformed_append) (auto simp: wedged_def Suc_le_eq)
  then have "wedged ?c" using Cons.prems by (simp add: wedged_def set_buf_def)
  from Cons.IH [OF this] read show ?case by (auto simp: py_simps set_buf_def)
qed

lemma wedged_await:
  assumes "wedged c" and "fut_peek (futs c) f = Some Pending"
  shows "\<exists>c'. await_codes L f c = (Inl TimeoutError, c') \<and> wedged c'"
proof -
  from wedged_chunks [OF assms(1)] obtain b where
    "py_for (arrivals L (length (trace c))) (\<lambda>x. py_except (mqtt_packet_reader L x) (\<lambda>_. True) (py_return ())) c = (Inr (), set_buf b c)"
    "wedged (set_buf b c)" by blast
  then show ?thesis using assms(2) by (auto simp: await_codes_def py_simps set_buf_def wedged_def)
qed

lemma wedged_subscribe:
  assumes "wedged c"
  shows "\<exists>e c'. subscribe_to_identity L p c = (Inl e, c') \<and> wedged c'"
proof -
  let ?t = "to_h L (compact_public_key (kp c))"
  obtain x c1 where sub: "subscribe L ?t c = (x, c1)" by fastforce
  then have b: "wedged c1" using assms wedged_buf [OF leaves_run [OF buf_kept(2)]] by blast
  show ?thesis
  proof (cases x)
    case (Inl e)
    with sub b show ?thesis by (simp add: subscribe_to_identity_def py_simps)
  next
    case (Inr y)
    then obtain raw f where y: "x = Inr (raw, f)" by (cases y) auto
    with sub have "fut_peek (futs c1) f = Some Pending"
      by (auto simp: subscribe_def py_simps fut_peek_def dest!: packet_ack_future_Inr split: prod.splits sum.splits)
    moreover obtain z c2 where send: "send_on L p raw c1 = (z, c2)" by fastforce
    then have "wedged c2" "futs c2 = futs c1" using b by (auto simp: send_on_def wedged_def split: option.splits)
    ultimately obtain c3 where "await_codes L f c2 = (Inl TimeoutError, c3)" "wedged c3" using wedged_await by metis
    with sub y send \<open>wedged c2\<close> show ?thesis by (cases z) (simp_all add: subscribe_to_identity_def py_simps)
  qed
qed

lemma wedged_connect:
  assumes "wedged c"
  shows "\<exists>e c'. mqtt_connect L keep_alive c = (Inl e, c') \<and> wedged c'"
proof -
  have shut: "leaves buf (pipe_close L p)" for p by (rule leavesI) (simp add: pipe_close_def)
  have "leaves buf (ensure_client_id L)" "leaves buf (tcp_pipe L)" "leaves buf (send_on L p b)" for p b
    by (rule leavesI, simp add: ensure_client_id_def tcp_pipe_def send_on_def Let_def split: option.split list.split sum.split)+
  then have o: "leaves buf (open_line L keep_alive)" unfolding open_line_def by (intro leaves_rules)
  have r: "leaves buf (read_connack L p)" for p
    unfolding read_connack_def using shut by (cases "recv_n L p 4") (auto intro!: leaves_rules)
  obtain x c1 where opened: "open_line L keep_alive c = (x, c1)" by fastforce
  then have w1: "wedged c1" using assms wedged_buf [OF leaves_run [OF o]] by blast
  show ?thesis
  proof (cases x)
    case (Inr p)
    obtain y c2 where ack: "read_connack L p c1 = (y, c2)" by fastforce
    then have w2: "wedged c2" using w1 wedged_buf [OF leaves_run [OF r]] by blast
    then have "wedged (c2\<lparr>pipe := Some p\<rparr>)" by (simp add: wedged_def)
    then obtain e c3 where "subscribe_to_identity L p (c2\<lparr>pipe := Some p\<rparr>) = (Inl e, c3)" "wedged c3"
      using wedged_subscribe by blast
    with opened ack Inr w2 show ?thesis
      by (cases y) (auto simp: mqtt_connect_parts use_line_def py_simps py_cleanup_def pipe_close_def wedged_def)
  qed (use opened w1 in \<open>auto simp: mqtt_connect_parts py_simps\<close>)
qed

text \<open>
  What can happen to a client that has no dispatcher: the application and the router use it, chunks
  arrive, the router tries to connect it, closes it and makes it fit for use again. Turns and
  reconnects are the work of a dispatcher.
\<close>

inductive stopped_step :: "lib \<Rightarrow> client \<Rightarrow> client \<Rightarrow> bool" for L where
  Handler: "stopped_step L c (add_msg_handler h c)"
| Queue: "queue_msg L msg dest qid t seq c = (r, c') \<Longrightarrow> stopped_step L c c'"
| QueueAsync: "queue_msg_async L msg dest qid t seq c = (r, c') \<Longrightarrow> stopped_step L c c'"
| Probe: "send_probe L dest qid c = (r, c') \<Longrightarrow> stopped_step L c c'"
| Dequeue: "dequeue_msg qid seq t c = (r, c') \<Longrightarrow> stopped_step L c c'"
| Receive: "mqtt_packet_reader L chunk c = (r, c') \<Longrightarrow> stopped_step L c c'"
| Connect: "connect L outside duration keep_alive c = (r, c') \<Longrightarrow> stopped_step L c c'"
| Try: "try_client L c = (r, c') \<Longrightarrow> stopped_step L c c'"
| Close: "close L c = (r, c') \<Longrightarrow> stopped_step L c c'"
| Reuse: "stopped_step L c (reuse c)"

inductive stopped_run :: "lib \<Rightarrow> client \<Rightarrow> client \<Rightarrow> bool" for L where
  Start: "stopped_run L c c"
| Step: "stopped_run L c c' \<Longrightarrow> stopped_step L c' c'' \<Longrightarrow> stopped_run L c c''"

abbreviation stuck :: "client \<Rightarrow> bool" where
  "stuck c \<equiv> wedged c \<and> dispatcher_task c = None"

lemma stuck_same: "buf c' = buf c \<Longrightarrow> life c' = life c \<Longrightarrow> stuck c \<Longrightarrow> stuck c'"
  by (simp add: wedged_def life_def)

lemma stuck_kept: "leaves buf m \<Longrightarrow> leaves life m \<Longrightarrow> m c = (r, c') \<Longrightarrow> stuck c \<Longrightarrow> stuck c'"
  by (metis stuck_same leaves_run)

lemma quiet_kept:
  "leaves buf (queue_msg_async L msg dest q t seq)" "leaves buf (send_probe L dest q)" "leaves buf (dequeue_msg qid s t)"
  "leaves life (queue_msg L msg dest q t seq)" "leaves life (queue_msg_async L msg dest q t seq)" "leaves life (send_probe L dest q)"
  "leaves life (dequeue_msg qid s t)"
proof -
  show "leaves buf (queue_msg_async L msg dest q t seq)" unfolding queue_msg_async_def by (intro unbuffered_leaves allI commutes_rules)
  show "leaves buf (send_probe L dest q)" unfolding send_probe_def one_shot_meta_def Let_def
    by (intro unbuffered_leaves allI commutes_rules) (simp add: ensure_queue_def set_queue_def set_buf_def split: option.split)
  show "leaves buf (dequeue_msg qid s t)"
    by (rule leavesI) (simp add: dequeue_msg_def set_result_def del_queue_def split: option.split)
qed (simp_all add: leaves_def life.fixed.sending life.fixed.probing life.fixed.dequeuing)

lemma stuck_read:
  assumes "mqtt_packet_reader L x c = (r, c')" and "stuck c"
  shows "stuck c'"
proof -
  have "mqtt_packet_reader L x c = (Inr (), set_buf (buf c @ x) c)"
    using malformed_aux [of c "[x]" L] assms(2) by (simp add: wedged_def py_simps split: prod.splits sum.splits)
  moreover have "mqtt_decode_varint (buf c @ x) 1 = Inl (ValueError ''malformed varint'')"
    using assms(2) by (intro decode_malformed_append) (auto simp: wedged_def Suc_le_eq)
  ultimately show ?thesis using assms by (simp add: wedged_def set_buf_def)
qed

lemma stuck_connect:
  assumes "connect L outside duration keep_alive c = (r, c')" and "stuck c"
  shows "(\<exists>e. r = Inl e) \<and> stuck c'"
proof -
  let ?c = "c\<lparr>republish_duration := max duration (2 * keep_alive)\<rparr>"
  from assms(2) have "wedged ?c" by (simp add: wedged_def)
  then obtain e c1 where run: "mqtt_connect L keep_alive ?c = (Inl e, c1)" "wedged c1" using wedged_connect by blast
  moreover have "dispatcher_task c1 = None" using leaves_run [OF life_mqtt_connect run(1)] assms(2) by (simp add: life_def)
  ultimately show ?thesis using assms by (auto simp: connect_app)
qed

lemma stuck_try:
  assumes "try_client L c = (r, c')" and "stuck c"
  shows "r \<noteq> Inr True \<and> stuck c'"
proof -
  let ?c = "c\<lparr>ticks := ticks c + 1\<rparr>"
  obtain x d where con: "connect L (cancelled_by L \<noteq> Connect_Limit) 60 10 ?c = (x, d)" by fastforce
  with stuck_connect [OF con] assms(2) have "(\<exists>e. x = Inl e) \<and> stuck d" by (simp add: wedged_def)
  with con assms show ?thesis by (auto simp: try_client_app Let_def wedged_def split: if_splits prod.splits sum.splits)
qed

lemma stuck_step: "stopped_step L c c' \<Longrightarrow> stuck c \<Longrightarrow> stuck c'"
proof (induction rule: stopped_step.induct)
  case (Close c r c')
  then have "buf c' = buf c" using leaves_run [OF close_contents Close(1)] by (simp add: contents_def)
  moreover have "dispatcher_task c' = None"
    using Close close_dispatcher [of c L] by (cases "is_closed c") (auto simp: close_app)
  ultimately show ?case using Close(2) by (simp add: wedged_def)
qed (use stuck_kept [OF _ quiet_kept(4)] stuck_kept [OF quiet_kept(1,5)] stuck_kept [OF quiet_kept(2,6)] stuck_kept [OF quiet_kept(3,7)]
    buf_kept(4) stuck_read stuck_connect stuck_try in
    \<open>auto simp: wedged_def add_msg_handler_def reuse_def client_reset_session_state_def\<close>)

lemma stuck_run: "stopped_run L c c' \<Longrightarrow> stuck c \<Longrightarrow> stuck c'"
  by (induction rule: stopped_run.induct) (use stuck_step in blast)+

text \<open>
  C34: idle closing does not unwedge a client. The buffer of the stream survives the idle pass (and
  a plain \<open>close\<close>), and connecting does not clear it either: a client whose buffer begins with a
  malformed length when it is closed can never be connected again. Whatever is done to it from
  there on, by the application, the router or the network, failed connects and further closing
  included, the next \<open>connect\<close> raises, a \<open>try_client\<close> does not succeed, and the client stays without
  a dispatcher.
\<close>

theorem idled_client_stays_wedged:
  assumes "idled c0 c" and "\<not> is_closed c0" and "wedged c0" and "stopped_run L c c1"
  shows "dispatcher_task c1 = None \<and> wedged c1 \<and> (\<exists>e. fst (connect L outside duration keep_alive c1) = Inl e) \<and>
    fst (try_client L c1) \<noteq> Inr True"
proof -
  have "stuck c" using assms(1-3) by (simp add: idled_def wedged_def)
  with stuck_run [OF assms(4)] have "stuck c1" by blast
  then show ?thesis
    using stuck_connect [of L outside duration keep_alive c1] stuck_try [of L c1] by (metis prod.collapse)
qed

text \<open>Three connects in a row, each of which fails.\<close>

theorem idled_client_stays_wedged_witness:
  "\<exists>e1 c1 e2 c2 e3. connect demo_lib False 60 10 (reuse (demo_client\<lparr>buf := [0x30, 0xFF, 0xFF, 0xFF, 0xFF]\<rparr>)) = (Inl e1, c1) \<and>
     connect demo_lib False 60 10 c1 = (Inl e2, c2) \<and> fst (connect demo_lib False 60 10 c2) = Inl e3"
proof -
  let ?c = "demo_client\<lparr>buf := [0x30, 0xFF, 0xFF, 0xFF, 0xFF]\<rparr>"
  obtain r1 c1 where one: "connect demo_lib False 60 10 (reuse ?c) = (r1, c1)" by fastforce
  obtain r2 c2 where two: "connect demo_lib False 60 10 c1 = (r2, c2)" by fastforce
  have c: "\<not> is_closed ?c" "dispatcher_task ?c = None" "wedged ?c"
    by (simp_all add: wedged_def decode_varint_spec varint_spec_def Let_def demo_client_def new_client_def)
  have idle: "idled ?c (reuse ?c)" by (rule closed_and_reused) (simp_all add: c)
  have first: "stopped_run demo_lib (reuse ?c) (reuse ?c)" and second: "stopped_run demo_lib (reuse ?c) c1"
    and third: "stopped_run demo_lib (reuse ?c) c2"
    using one two stopped_run.intros stopped_step.Connect by meson+
  note stays = idled_client_stays_wedged [OF idle c(1,3), where outside = False and duration = 60 and keep_alive = 10]
  from stays [OF first] stays [OF second] stays [OF third] one two show ?thesis by auto
qed

end
