(* ===== verification/Races.thy ===== *)
theory Races
  imports Idle
begin

text \<open>
  A client that is made while the router closes clients. The loops of \<open>close_idle_clients\<close> and
  \<open>close\<close> await in their bodies, and a pipe that another task opens meanwhile may add a broker
  to the very dictionary that is iterated over.
\<close>

section \<open>A dictionary that grows under a loop\<close>

lemma dict_for_skip:
  "(\<And>k. k \<in> set ks \<Longrightarrow> f k s = (Inr (), s)) \<Longrightarrow> sz s = n \<Longrightarrow> dict_for sz n (ks @ ks') f s = dict_for sz n ks' f s"
  by (induction ks) (simp_all add: py_simps)

lemma dict_for_grown: "f k s = (Inr (), s') \<Longrightarrow> sz s = n \<Longrightarrow> sz s' \<noteq> n \<Longrightarrow> dict_for sz n (k # ks) f s = (Inl RuntimeError, s')"
  by (cases ks) (simp_all add: py_simps)

lemma for_clients_grown:
  assumes table: "rt_clients r = fams @ (a, before @ (h0, i) # after) # fams'"
    and skip: "\<And>j. j \<in> set (client_ids fams) \<union> snd ` set before \<Longrightarrow> f j r = (Inr (), r)"
    and grow: "f i r = (Inr (), r')" "rt_clients r' = fams @ (a, before @ (h0, i) # after @ [x]) # fams'"
  shows "for_clients f r = (Inl RuntimeError, r')"
proof -
  let ?k = "length fams" and ?n = "length (rt_clients r)"
  let ?turn = "\<lambda>k. py_bind (py_get (hosts_at k)) (\<lambda>hosts. dict_for (\<lambda>r. length (hosts_at k r)) (length hosts) (map snd hosts) f)"
  have here: "hosts_at ?k r = before @ (h0, i) # after" "hosts_at ?k r' = before @ (h0, i) # after @ [x]"
    by (simp_all add: hosts_at_def table grow(2))
  have "?turn k r = (Inr (), r)" if "k < ?k" for k
  proof -
    obtain b hs where "fams ! k = (b, hs)" by (cases "fams ! k")
    then have "hosts_at k r = hs" "(b, hs) \<in> set fams"
      using that nth_mem [OF that] by (simp_all add: hosts_at_def table nth_append)
    then have "snd ` set (hosts_at k r) \<subseteq> set (client_ids fams)" by (force simp: client_ids_def)
    then have "f j r = (Inr (), r)" if "j \<in> set (map snd (hosts_at k r))" for j using skip that by auto
    with dict_for_skip [of "map snd (hosts_at k r)" f r "\<lambda>r. length (hosts_at k r)" _ "[]"] show ?thesis
      by (simp add: py_simps)
  qed
  then have earlier: "py_for (ks @ ks') ?turn r = py_for ks' ?turn r" if "set ks \<subseteq> {..<?k}" for ks ks'
    using that by (induction ks) (auto simp: py_seq_app)
  have "?turn ?k r = (Inl RuntimeError, r')"
  proof -
    have "f j r = (Inr (), r)" if "j \<in> set (map snd before)" for j using skip that by auto
    then have "dict_for (\<lambda>r. length (hosts_at ?k r)) (length (hosts_at ?k r)) (map snd before @ i # map snd after) f r =
        dict_for (\<lambda>r. length (hosts_at ?k r)) (length (hosts_at ?k r)) (i # map snd after) f r"
      by (rule dict_for_skip) simp_all
    also have "\<dots> = (Inl RuntimeError, r')" by (rule dict_for_grown) (use grow(1) here in simp_all)
    finally show ?thesis by (simp add: py_bind_app py_get_app here)
  qed
  then have "py_for (?k # ks) ?turn r = (Inl RuntimeError, r')" for ks by (simp add: py_seq_app)
  moreover have "[0..<?n] = [0..<?k] @ ?k # [Suc ?k..<?n]"
    using upt_add_eq_append [of 0 ?k "Suc (length fams')"] by (simp add: table upt_conv_Cons del: upt_Suc)
  moreover have "{0..<?k} \<subseteq> {..<?k}" by auto
  ultimately have "py_for [0..<?n] ?turn r = (Inl RuntimeError, r')" using earlier [of "[0..<?k]"] by simp
  then show ?thesis by (simp add: for_clients_def py_bind_app py_get_app)
qed

section \<open>The idle pass\<close>

lemma ensure_new:
  assumes "rt_clients r = fams @ (a, hosts) # fams'" and "a \<notin> fst ` set fams" and "map_of hosts h = None"
    and "a \<in> set (supported (net R))"
  shows "rt_clients (snd (ensure_client R a h p r)) = fams @ (a, hosts @ [(h, rt_next r)]) # fams' \<and>
    (\<forall>j. j \<noteq> rt_next r \<longrightarrow> rt_client j (snd (ensure_client R a h p r)) = rt_client j r)"
proof -
  have "map_of fams a = None" using assms(2) by (simp add: map_of_eq_None_iff)
  then have "map_of (rt_clients r) a = Some hosts" by (simp add: assms(1) map_add_Some_iff)
  moreover have "AList.update h i hosts = hosts @ [(h, i)]" for i
    using assms(3) by (induction hosts) (auto split: if_splits)
  moreover have "AList.update a v (rt_clients r) = fams @ (a, v) # fams'" for v
    using assms(2) unfolding assms(1) by (induction fams) auto
  ultimately show ?thesis using assms(3,4) by (simp add: ensure_client_def rt_client_def)
qed

lemma busy_close:
  assumes "\<forall>c e. fst (close (each R i) c) = Inl e \<longrightarrow> is_OSError e"
    and "i \<notin> rt_protected r" and "dispatcher_task (rt_client i r) \<noteq> None"
    and "\<not> now - last_active now (rt_client i r) < IDLE_CLIENT_TIMEOUT"
  shows "\<exists>p r'. (\<forall>j. j \<noteq> i \<longrightarrow> members p j = rt_client j r) \<and> close_if_idle R others now i r = (Inr (), r') \<and>
    rt_clients r' = rt_clients (others i (r\<lparr>rt_pool := p\<rparr>)) \<and> (\<forall>j. j \<noteq> i \<longrightarrow> rt_client j r' = rt_client j (others i (r\<lparr>rt_pool := p\<rparr>)))"
proof -
  let ?now = "last_active now (rt_client i r)"
  let ?touch = "on_pool (on_client i (py_modify (\<lambda>c. c\<lparr>last_send := Some ?now\<rparr>)))"
    and ?close = "on_pool (on_client i (py_except (close (each R i)) is_OSError (py_return ())))"
  have one: "\<exists>p. (\<forall>j. j \<noteq> i \<longrightarrow> members p j = rt_client j s) \<and> snd (on_pool (on_client i m) s) = s\<lparr>rt_pool := p\<rparr>"
    for m :: "(client, unit) py" and s
  proof -
    obtain x c where "m ((rt_client i s)\<lparr>recv_msg_ids := shared_ids (rt_pool s)\<rparr>) = (x, c)" by fastforce
    then show ?thesis
      by (intro exI [of _ "(rt_pool s)\<lparr>members := (members (rt_pool s))(i := c), shared_ids := recv_msg_ids c\<rparr>"])
        (simp add: on_pool_client rt_client_def)
  qed
  have "fst (?touch r) = Inr ()" by (simp add: on_pool_client py_simps)
  moreover obtain p1 where p1: "\<forall>j. j \<noteq> i \<longrightarrow> members p1 j = rt_client j r" "snd (?touch r) = r\<lparr>rt_pool := p1\<rparr>" using one by blast
  ultimately have touch: "?touch r = (Inr (), r\<lparr>rt_pool := p1\<rparr>)" by (cases "?touch r") simp
  have "fst (py_except (close (each R i)) is_OSError (py_return ()) c) = Inr ()" for c
    using assms(1) [rule_format, of c] by (cases "close (each R i) c") (auto simp: py_simps split: sum.split)
  then have "fst (?close (r\<lparr>rt_pool := p1\<rparr>)) = Inr ()" by (simp add: on_pool_client split: prod.split) (metis fst_conv)
  moreover obtain p2 where p2: "\<forall>j. j \<noteq> i \<longrightarrow> members p2 j = rt_client j (r\<lparr>rt_pool := p1\<rparr>)"
    "snd (?close (r\<lparr>rt_pool := p1\<rparr>)) = r\<lparr>rt_pool := p2\<rparr>" using one [of "r\<lparr>rt_pool := p1\<rparr>"] by auto
  ultimately have shut: "?close (r\<lparr>rt_pool := p1\<rparr>) = (Inr (), r\<lparr>rt_pool := p2\<rparr>)" by (cases "?close (r\<lparr>rt_pool := p1\<rparr>)") simp
  let ?r = "others i (r\<lparr>rt_pool := p2\<rparr>)"
  obtain p3 where p3: "on_pool (on_client i (py_modify reuse)) ?r = (Inr (), ?r\<lparr>rt_pool := p3\<rparr>)"
    and others: "\<forall>j. j \<noteq> i \<longrightarrow> members p3 j = rt_client j ?r"
    unfolding on_pool_client by (auto simp: py_simps rt_client_def)
  let ?r' = "evict_client_from_cache i (?r\<lparr>rt_pool := p3\<rparr>)"
  have "close_if_idle R others now i r = (Inr (), ?r')"
    using assms(2-4) unfolding close_if_idle_def Let_def
    by (cases "dispatcher_task (rt_client i r)") (simp_all add: py_simps touch shut p3)
  moreover have "rt_clients ?r' = rt_clients ?r" "\<forall>j. j \<noteq> i \<longrightarrow> rt_client j ?r' = rt_client j ?r"
    using others by (simp_all add: evict_client_from_cache_def Let_def rt_client_def)
  moreover have "\<forall>j. j \<noteq> i \<longrightarrow> members p2 j = rt_client j r" using p1(1) p2(1) by (simp add: rt_client_def)
  ultimately show ?thesis by blast
qed

text \<open>
  C36: a broker added at the wrong moment ends the idle closer. When the pass awaits the closing of
  a client, and another task makes a client for a new broker of the same family in the meantime
  (as a pipe with broker hints does), the pass ends with a \<open>RuntimeError\<close>. The background loop
  does not catch it: it ends too, and no client is closed for being idle any more; in this pass,
  no other client has been looked at.
\<close>

theorem broker_added_ends_idle_closer:
  assumes "rt_clients r = fams @ (a, before @ (h0, i) # after) # fams'" and "a \<notin> fst ` set fams"
    and "\<And>j. j \<in> set (client_ids fams) \<union> snd ` set before \<Longrightarrow> j \<in> rt_protected r \<or> dispatcher_task (rt_client j r) = None"
    and "i \<notin> rt_protected r" and "dispatcher_task (rt_client i r) \<noteq> None"
    and "600 \<le> clock (own R) (rt_ticks r) - last_active (clock (own R) (rt_ticks r)) (rt_client i r)"
    and "\<forall>c e. fst (close (each R i) c) = Inl e \<longrightarrow> is_OSError e"
    and "a \<in> set (supported (net R))" and "map_of (before @ (h0, i) # after) h = None"
  shows "\<exists>r'. idle_closer_loop R (Some (\<lambda>r. r, \<lambda>_ r. snd (ensure_client R a h p r)) # naps) r = (Inl RuntimeError, r') \<and>
    (\<forall>j. j \<noteq> i \<longrightarrow> j \<noteq> rt_next r \<longrightarrow> rt_client j r' = rt_client j r)"
proof -
  let ?others = "\<lambda>_ r. snd (ensure_client R a h p r)" and ?now = "clock (own R) (rt_ticks r)" and ?r = "r\<lparr>rt_ticks := rt_ticks r + 1\<rparr>"
  let ?f = "close_if_idle R ?others ?now"
  have skip: "?f j ?r = (Inr (), ?r)" if "j \<in> set (client_ids fams) \<union> snd ` set before" for j
    using assms(3) [OF that] by (auto simp: close_if_idle_def py_simps)
  have "\<not> ?now - last_active ?now (rt_client i ?r) < IDLE_CLIENT_TIMEOUT"
    using assms(6) by (simp add: IDLE_CLIENT_TIMEOUT_def)
  with busy_close [OF assms(7), where r = ?r and now = ?now and others = ?others] assms(4,5) obtain q r' where
    q: "\<forall>j. j \<noteq> i \<longrightarrow> members q j = rt_client j r" and run: "?f i ?r = (Inr (), r')"
      "rt_clients r' = rt_clients (?others i (?r\<lparr>rt_pool := q\<rparr>))"
      "\<forall>j. j \<noteq> i \<longrightarrow> rt_client j r' = rt_client j (?others i (?r\<lparr>rt_pool := q\<rparr>))" by auto
  have new: "rt_clients (?others i (?r\<lparr>rt_pool := q\<rparr>)) = fams @ (a, (before @ (h0, i) # after) @ [(h, rt_next r)]) # fams'"
    "\<forall>j. j \<noteq> rt_next r \<longrightarrow> rt_client j (?others i (?r\<lparr>rt_pool := q\<rparr>)) = members q j"
    using ensure_new [of "?r\<lparr>rt_pool := q\<rparr>" fams a "before @ (h0, i) # after" fams' h R p] assms(1,2,8,9) by simp_all
  have "for_clients ?f ?r = (Inl RuntimeError, r')"
    by (rule for_clients_grown [where f = ?f and x = "(h, rt_next r)" and fams = fams]) (use assms(1) skip run(1,2) new(1) in simp_all)
  then have "idle_pass R ?others r = (Inl RuntimeError, r')" by (simp add: idle_pass_def rt_time_def py_simps)
  with q run(3) new(2) show ?thesis by simp
qed

theorem broker_added_ends_idle_closer_witness:
  "\<exists>r'. idle_closer_loop demo_env [Some (\<lambda>r. r, \<lambda>_ r. snd (ensure_client demo_env 2 ''new'' 1883 r)), None] demo_idle = (Inl RuntimeError, r')"
proof -
  have "members (rt_pool demo_idle) 0 = members (rt_pool demo_router) 0" by (simp add: demo_idle_def Let_def)
  then have "dispatcher_task (rt_client 0 demo_idle) = None"
    by (simp add: rt_client_def demo_router_def Router_init_def own_servers_def demo_servers_def empty_router_def
        seed_af_def ensure_client_def py_simps make_client_def add_msg_handler_def new_client_def Let_def)
  then have skip: "j \<in> rt_protected demo_idle \<or> dispatcher_task (rt_client j demo_idle) = None"
    if "j \<in> set (client_ids []) \<union> snd ` set [(''bbb'', 0 :: nat)]" for j
    using that by (simp add: client_ids_def)
  have table: "rt_clients demo_idle = [] @ (2, [(''bbb'', 0)] @ (''a'', 1) # []) # [(10, [(''cc'', 2)])]" by (simp add: demo_clients)
  have shut: "\<forall>c e. fst (close (each demo_env 1) c) = Inl e \<longrightarrow> is_OSError e"
    by (simp add: close_app Let_def py_simps disconnect_app pipe_close_def split: option.split prod.split sum.split)
  show ?thesis
    using broker_added_ends_idle_closer [OF table _ skip _ _ _ shut, where h = "''new''" and p = 1883 and naps = "[None]"]
    by (auto simp: last_active_def)
qed

section \<open>Closing the router\<close>

text \<open>
  The loop of \<open>close\<close> ends in the same way, at the first client already, and leaves every other
  client as it was.
\<close>

theorem broker_added_stops_close:
  assumes "rt_clients r = (a, (h0, i) # after) # fams'" and "\<forall>c. fst (close (each R i) c) = Inr ()"
    and "a \<in> set (supported (net R))" and "map_of ((h0, i) # after) h = None"
  shows "\<exists>r'. close_pass R (\<lambda>_ r. snd (ensure_client R a h p r)) r = (Inl RuntimeError, r') \<and>
    (\<forall>j. j \<noteq> i \<longrightarrow> j \<noteq> rt_next r \<longrightarrow> rt_client j r' = rt_client j r)"
proof -
  let ?others = "\<lambda>r. snd (ensure_client R a h p r)" and ?r = "r\<lparr>rt_idle := None\<rparr>"
  let ?close = "\<lambda>i. on_pool (on_client i (py_seq (py_modify (\<lambda>c. c\<lparr>is_closed := False\<rparr>)) (close (each R i))))"
  let ?f = "\<lambda>i. py_seq (?close i) (py_modify ?others)"
  obtain x c where run: "py_seq (py_modify (\<lambda>c. c\<lparr>is_closed := False\<rparr>)) (close (each R i))
      ((rt_client i ?r)\<lparr>recv_msg_ids := shared_ids (rt_pool ?r)\<rparr>) = (x, c)" by fastforce
  then have x: "x = Inr ()" using assms(2) by (auto simp: py_simps) (metis fst_conv)
  let ?p = "(rt_pool r)\<lparr>members := (members (rt_pool r))(i := c), shared_ids := recv_msg_ids c\<rparr>"
  have "?close i ?r = (Inr (), ?r\<lparr>rt_pool := ?p\<rparr>)" unfolding on_pool_client run x by simp
  then have step: "?f i ?r = (Inr (), ?others (?r\<lparr>rt_pool := ?p\<rparr>))" by (simp add: py_simps)
  have new: "rt_clients (?others (?r\<lparr>rt_pool := ?p\<rparr>)) = [] @ (a, ((h0, i) # after) @ [(h, rt_next r)]) # fams'"
    "\<forall>j. j \<noteq> rt_next r \<longrightarrow> rt_client j (?others (?r\<lparr>rt_pool := ?p\<rparr>)) = members ?p j"
    using ensure_new [of "?r\<lparr>rt_pool := ?p\<rparr>" "[]" a "(h0, i) # after" fams' h R p] assms(1,3,4) by simp_all
  have "for_clients ?f ?r = (Inl RuntimeError, ?others (?r\<lparr>rt_pool := ?p\<rparr>))"
    by (rule for_clients_grown [where f = ?f and x = "(h, rt_next r)" and fams = "[]" and before = "[]"])
      (use assms(1) step new(1) in \<open>simp_all add: client_ids_def\<close>)
  then have "close_pass R (\<lambda>_. ?others) r = (Inl RuntimeError, ?others (?r\<lparr>rt_pool := ?p\<rparr>))"
    by (simp add: close_pass_def py_simps)
  with new(2) show ?thesis by (auto simp: rt_client_def)
qed

end
