(* ===== verification/Pipe_Spec.thy ===== *)
theory Pipe_Spec
  imports Router_Spec
begin

text \<open>
  Opening a pipe to a destination and starting the router: where the clients come from, that
  they are connected, and what is remembered of them.
\<close>

section \<open>Clients that answer\<close>

lemma on_pool_running:
  "keeps (running i) m \<Longrightarrow> keeps (\<lambda>r :: router. running i (rt_pool r)) (on_pool m)"
proof (rule keepsI)
  fix r :: router assume "keeps (running i) m" and "running i (rt_pool r)"
  then have "running i (snd (m (rt_pool r)))" by (rule keeps_snd)
  then show "running i (rt_pool (snd (on_pool m r)))" by (cases "m (rt_pool r)") (simp add: on_pool_def)
qed

lemma try_all_keeps: "keeps (\<lambda>r. running j (rt_pool r)) (try_all R is)"
  by (induction "is") (auto intro!: valid_rules on_pool_running try_keeps_running)

lemma try_all_running:
  "try_all R is r = (Inr out, r') \<Longrightarrow> set out \<subseteq> set is \<and> (\<forall>i \<in> set out. running i (rt_pool r'))"
proof (induction "is" arbitrary: r out r')
  case (Cons i "is")
  let ?attempt = "py_except (on_pool (on_client i (try_client (each R i)))) (\<lambda>_. True) (py_return False)"
  from Cons.prems obtain ok r1 out1 where run: "?attempt r = (Inr ok, r1)" "try_all R is r1 = (Inr out1, r')"
    and out: "out = (if ok then i # out1 else out1)"
    unfolding try_all.simps py_bind_app py_return_app by (auto split: prod.splits sum.splits)
  have "running i (rt_pool r')" if ok
  proof -
    have "running i (rt_pool r1)"
      using run(1) that by (auto simp: py_simps on_pool_def split: prod.splits sum.splits dest!: try_True_running)
    then show ?thesis using keeps_snd [OF try_all_keeps, of i r1 R "is"] run(2) by simp
  qed
  with Cons.IH [OF run(2)] out show ?case by auto
qed (simp add: py_simps)

lemma discover_found:
  assumes "discover R dest hints r = (Inr found, r')" and "completes (net R)"
  shows "length found \<le> 3 * length (supported (net R)) \<and> (\<exists>p. r' = r\<lparr>rt_pool := p\<rparr>) \<and>
    (\<forall>i \<in> set found. running i (rt_pool r') \<and> (\<exists>a h. lookup_client (rt_clients r) a h = Some i))"
proof -
  from assms(1) obtain p where "get_dest_clients (own R) (each R) (net R) dest (rt_servers r) (rt_clients r) hints (rt_pool r) = (Inr found, p)"
    and r': "r' = r\<lparr>rt_pool := p\<rparr>"
    by (auto simp: discover_def on_pool_def split: prod.splits)
  from get_dest_clients_aux [OF this(1) assms(2)] r' show ?thesis by (auto simp: running_def)
qed

lemma sp_connect_found:
  assumes "sp_connect R sp None r = (Inr sp', r')" and "completes (net R)"
  shows "sp_dest sp' = sp_dest sp \<and> (if sp_clients sp \<noteq> [] then sp' = sp \<and> r' = r
    else \<forall>i \<in> set (sp_clients sp'). running i (rt_pool r'))"
proof (cases "sp_clients sp = []")
  case False
  with assms(1) show ?thesis by (auto simp: sp_connect_def py_simps)
next
  case True
  let ?hint = "if sp_hints sp = [] then py_return [] else resolve_hint_clients R sp"
  from assms(1) True obtain cs cs' r1 where h: "?hint r = (Inr cs, r1)"
    and d: "(if cs \<noteq> [] then py_return cs else discover R (sp_dest sp) []) r1 = (Inr cs', r')"
    and sp': "sp' = sp\<lparr>sp_clients := cs'\<rparr>"
    by (auto simp: sp_connect_def py_bind_app py_seq_app py_modify_app py_return_app split: prod.splits sum.splits)
  have "\<forall>i \<in> set cs'. running i (rt_pool r')"
  proof (cases "cs = []")
    case True
    with d discover_found [OF _ assms(2), of "sp_dest sp" "[]" r1 cs' r'] show ?thesis by simp
  next
    case False
    with h obtain tr r0 where "try_all R tr r0 = (Inr cs, r1)"
      by (auto simp: resolve_hint_clients_def py_bind_app py_return_app split: if_splits prod.splits sum.splits)
    with try_all_running d False show ?thesis by (auto simp: py_return_app)
  qed
  with True sp' show ?thesis by simp
qed

section \<open>Properties\<close>

lemma cached_pipe [simp]:
  "sp_clients (SmartPipe dest cached hints) = (case cached of None \<Rightarrow> [] | Some cs \<Rightarrow> cs)"
  "sp_dest (SmartPipe dest cached hints) = dest"
  by (simp_all add: SmartPipe_def)



text \<open>
  What \<open>start\<close> sets up. The clients it returns are clients of the table, connected, at most
  three for each supported family; they are protected from idle closing from then on, they are
  cached as the way to the router's own key, and the idle closer runs.
\<close>

theorem start_spec:
  assumes "start R r = (Inr clients, r')" and "completes (net R)"
  shows "rt_protected r' = rt_protected r \<union> set clients \<and> length clients \<le> 3 * length (supported (net R)) \<and>
    (\<forall>i \<in> set clients. dispatcher_task (rt_client i r') \<noteq> None \<and> (\<exists>a h. lookup_client (rt_clients r') a h = Some i)) \<and>
    (\<exists>t. map_of (rt_cache r') (public_key_hex (rt_kp r)) = Some (t, clients)) \<and> rt_idle r' = Some Running"
proof -
  from assms(1) obtain hints r1 f where found: "discover R (public_key_hex (rt_kp r)) hints r = (Inr clients, r1)"
    and r': "r' = r1\<lparr>rt_protected := rt_protected r1 \<union> set clients, rt_file := f, rt_ticks := Suc (rt_ticks r1),
      rt_cache := AList.update (public_key_hex (rt_kp r)) (clock (own R) (rt_ticks r1), clients) (rt_cache r1),
      rt_idle := Some Running\<rparr>"
    by (auto simp: start_def py_simps cache_clients_def rt_time_def split: prod.splits sum.splits)
  from discover_found [OF found assms(2)] r' show ?thesis
    by (auto simp: dict_simps running_def rt_client_def)
qed

text \<open>A router whose clients are connected already.\<close>

definition demo_started :: router where
  "demo_started = demo_router\<lparr>rt_kp := (kp demo_client)\<lparr>public_key_hex := ''00''\<rparr>, rt_pool := demo_pool,
     rt_clients := [(2, [(''a'', 0), (''bbb'', 1)])], rt_servers := demo_servers, rt_file := JDict []\<rparr>"

theorem start_spec_witness:
  "\<exists>r'. start demo_env demo_started = (Inr [0], r') \<and> rt_protected r' = {0} \<and> rt_idle r' = Some Running"
proof -
  obtain p where found: "get_dest_clients demo_lib (\<lambda>_. demo_lib) demo_disc ''00'' demo_servers [(2, [(''a'', 0), (''bbb'', 1)])] [] demo_pool = (Inr [0], p)"
    using demo_found by blast
  have each: "each demo_env = (\<lambda>_. demo_lib)" by (simp add: demo_env_def)
  have disc: "discover demo_env ''00'' [] demo_started = (Inr [0], demo_started\<lparr>rt_pool := p\<rparr>)"
    by (simp add: discover_def on_pool_def demo_started_def each found [simplified])
  have load: "load_for (parse_int demo_env) ''00'' (rt_file demo_started) = Inr []"
    by (simp add: load_for_def load_all_def demo_started_def)
  have key: "public_key_hex (rt_kp demo_started) = ''00''" by (simp add: demo_started_def)
  have st: "store_for None k bs w js = (Inr (), snd (store_for None k bs w js))" for k bs w js by (simp add: store_for_def Let_def)
  have "\<exists>r'. start demo_env demo_started = (Inr [0], r')"
    using disc load key by (simp add: start_def py_simps cache_clients_def rt_time_def) (subst st, simp add: py_simps)
  then obtain r' where run: "start demo_env demo_started = (Inr [0], r')" by blast
  have "completes (net demo_env)" using demo_completes by simp
  from start_spec [OF run this] run show ?thesis by (auto simp: demo_started_def demo_rest)
qed

end
