(* ===== verification/Meeting.thy ===== *)
theory Meeting
  imports Broker_Walk
begin

text \<open>
  Whether two nodes meet. The ranking of the brokers of a key is the same for both
  (\<open>Discovery\<close>), but the walk does not take the best of the ranking: it takes the clients whose
  connects complete first, among the ten best. What they complete first is up to the network.
\<close>

section \<open>What the walk takes\<close>

text \<open>A client that is not connected, and whose attempt to connect succeeds.\<close>

definition connectable :: "(nat \<Rightarrow> lib) \<Rightarrow> pool \<Rightarrow> nat \<Rightarrow> bool" where
  "connectable E s i \<longleftrightarrow> dispatcher_task (members s i) = None \<and>
     (\<forall>ids. fst (try_client (E i) ((members s i)\<lparr>recv_msg_ids := ids\<rparr>)) = Inr True)"

lemma try_connects:
  "connectable E s i \<Longrightarrow> \<exists>s'. on_client i (try_client (E i)) s = (Inr True, s') \<and> (\<forall>j. j \<noteq> i \<longrightarrow> members s' j = members s j)"
  by (auto simp: connectable_def on_client_def split: prod.split) (metis fst_conv)

lemma collect_first:
  assumes "\<forall>i \<in> set order. connectable E s i" and "distinct order" and "length acc < needed"
  shows "fst (collect E needed order acc s) = Inr (take needed (acc @ order))"
  using assms
proof (induction order arbitrary: acc s)
  case (Cons i order)
  then obtain s' where s': "on_client i (try_client (E i)) s = (Inr True, s')" "\<forall>j. j \<noteq> i \<longrightarrow> members s' j = members s j"
    using try_connects [of E s i] by auto
  with Cons.prems have later: "\<forall>j \<in> set order. connectable E s' j" by (auto simp: connectable_def)
  have "needed - length acc = 1" if "needed \<le> Suc (length acc)" using Cons.prems(3) that by simp
  moreover have "fst (py_seq (abandon E order) (py_return x) s') = Inr x" for x
    using abandon_app [of E order s'] by (cases "abandon E order s'") (simp add: py_seq_app py_return_app)
  ultimately show ?case
    using Cons.IH [of s' "acc @ [i]"] later Cons.prems(2,3) s'(1) by (auto simp: py_bind_app cleanup_Inr [THEN iffD2])
qed (simp add: py_return_app)

lemma finally_abandon: "fst (py_finally m (abandon E tasks) s) = fst (m s)"
  using abandon_app [of E tasks "snd (m s)"]
  by (cases "m s"; cases "abandon E tasks (snd (m s))") (simp add: py_finally_def)

text \<open>When every candidate can connect, the walk takes the first that complete.\<close>

lemma walk_first:
  assumes "\<forall>i \<in> set (candidate_clients D cm hints a sv). connectable E s i" and "completes D"
  shows "fst (walk_af E D pass cm hints (a, sv) s) =
    Inr (take (needed_clients (length (candidate_clients D cm hints a sv)))
      (completions D pass a (take 10 (candidate_clients D cm hints a sv))))"
proof -
  let ?cs = "candidate_clients D cm hints a sv"
  have "distinct (take 10 ?cs)" using candidates_known by (simp add: distinct_take)
  then have order: "set (completions D pass a (take 10 ?cs)) \<subseteq> set (take 10 ?cs)" "distinct (completions D pass a (take 10 ?cs))"
    using assms(2) by (simp_all add: completes_def)
  then have "\<forall>i \<in> set (completions D pass a (take 10 ?cs)). connectable E s i" using assms(1) set_take_subset by fastforce
  from collect_first [OF this order(2), of "[]"] show ?thesis by (simp add: walk_af_def Let_def py_return_app finally_abandon)
qed

section \<open>Two walks\<close>

lemma ends_disjoint: "distinct xs \<Longrightarrow> 2 * n \<le> length xs \<Longrightarrow> set (take n xs) \<inter> set (take n (rev xs)) = {}"
proof -
  assume d: "distinct xs" and n: "2 * n \<le> length xs"
  have "set (take n (rev xs)) \<subseteq> set (drop n xs)"
    using n by (simp add: take_rev set_drop_subset_set_drop)
  then show ?thesis using set_take_disj_set_drop_if_distinct [OF d, of n n] by auto
qed

lemma needed_half: "2 * needed_clients n \<le> min n 10"
  using needed_clients_spec [of n] by (auto split: if_splits)

text \<open>
  C30: two nodes can miss each other. Two nodes with the same table of brokers walk the same ranking
  of a key; none of their clients is connected yet, and each of them would get its connection. If the
  connects of the one complete in the order of the ranking and those of the other in the opposite
  order, both find clients, but have no broker in common; whatever the number of candidates, from
  two on.
\<close>

theorem walks_can_miss:
  assumes "2 \<le> length (candidate_clients D cm hints a sv)"
    and "\<forall>i \<in> set (candidate_clients D cm hints a sv). connectable E s i \<and> connectable E' s' i"
  shows "\<exists>found found'.
    fst (walk_af E (D\<lparr>completions := \<lambda>_ _ cs. cs\<rparr>) pass cm hints (a, sv) s) = Inr found \<and>
    fst (walk_af E' (D\<lparr>completions := \<lambda>_ _ cs. rev cs\<rparr>) pass cm hints (a, sv) s') = Inr found' \<and>
    found \<noteq> [] \<and> found' \<noteq> [] \<and> set found \<inter> set found' = {}"
proof -
  let ?cs = "candidate_clients D cm hints a sv" and ?D = "D\<lparr>completions := \<lambda>_ _ cs. cs\<rparr>" and ?D' = "D\<lparr>completions := \<lambda>_ _ cs. rev cs\<rparr>"
  let ?n = "needed_clients (length ?cs)"
  have same: "candidate_clients (D\<lparr>completions := o'\<rparr>) cm hints a sv = ?cs" for o'
  proof -
    have "norm_af (D\<lparr>completions := o'\<rparr>) = norm_af D" by (auto simp: norm_af_def)
    then show ?thesis by (simp add: candidate_clients_def)
  qed
  have "completes ?D" "completes ?D'" by (simp_all add: completes_def)
  then have "fst (walk_af E ?D pass cm hints (a, sv) s) = Inr (take ?n (take 10 ?cs))"
    "fst (walk_af E' ?D' pass cm hints (a, sv) s') = Inr (take ?n (rev (take 10 ?cs)))"
    using walk_first [of ?D cm hints a sv E s pass] walk_first [of ?D' cm hints a sv E' s' pass] assms(2)
    by (simp_all add: same del: take_take)
  moreover have "distinct (take 10 ?cs)" using candidates_known by (simp add: distinct_take)
  from ends_disjoint [OF this, of ?n] have "set (take ?n (take 10 ?cs)) \<inter> set (take ?n (rev (take 10 ?cs))) = {}"
    using needed_half [of "length ?cs"] by simp
  moreover have "?n \<noteq> 0" using assms(1) needed_clients_spec [of "length ?cs"] by (auto split: if_splits)
  moreover have "take 10 ?cs \<noteq> []" using assms(1) by (cases ?cs) auto
  ultimately show ?thesis by (intro exI conjI) auto
qed

definition demo_fresh :: pool where
  "demo_fresh = \<lparr>members = (\<lambda>_. demo_client), shared_ids = []\<rparr>"

lemma demo_connectable: "connectable (\<lambda>_. demo_lib) demo_fresh i"
proof -
  have "\<exists>c'. try_client demo_lib (demo_client\<lparr>recv_msg_ids := ids\<rparr>) = (Inr True, c')" for ids
  proof -
    have "demo_client\<lparr>recv_msg_ids := ids, ticks := 1, republish_duration := 60\<rparr> =
        demo_client\<lparr>republish_duration := 60, last_connect := None, ticks := 1, recv_msg_ids := ids\<rparr>"
      by (simp add: demo_client_def new_client_def)
    then obtain c' where "mqtt_connect demo_lib 10 (demo_client\<lparr>recv_msg_ids := ids, ticks := 1, republish_duration := 60\<rparr>) = (Inr 0, c')"
      using demo_connect_at by metis
    then show ?thesis by (simp add: try_client_app connect_app demo_client_def new_client_def)
  qed
  then have "fst (try_client demo_lib (demo_client\<lparr>recv_msg_ids := ids\<rparr>)) = Inr True" for ids by (metis fst_conv)
  then show ?thesis by (simp add: connectable_def demo_fresh_def) (simp add: demo_client_def new_client_def)
qed

theorem walks_can_miss_witness:
  "\<exists>found found'.
    fst (walk_af (\<lambda>_. demo_lib) (demo_disc\<lparr>completions := \<lambda>_ _ cs. cs\<rparr>) 0 [(2, [(''a'', 0), (''bbb'', 1)])] []
      (2, [(1, \<lparr>sv_af = 2, sv_host = ''a'', sv_port = 1883\<rparr>), (3, \<lparr>sv_af = 2, sv_host = ''bbb'', sv_port = 1883\<rparr>)]) demo_fresh) = Inr found \<and>
    fst (walk_af (\<lambda>_. demo_lib) (demo_disc\<lparr>completions := \<lambda>_ _ cs. rev cs\<rparr>) 0 [(2, [(''a'', 0), (''bbb'', 1)])] []
      (2, [(1, \<lparr>sv_af = 2, sv_host = ''a'', sv_port = 1883\<rparr>), (3, \<lparr>sv_af = 2, sv_host = ''bbb'', sv_port = 1883\<rparr>)]) demo_fresh) = Inr found' \<and>
    found \<noteq> [] \<and> found' \<noteq> [] \<and> set found \<inter> set found' = {}"
  by (rule walks_can_miss)
    (simp_all add: candidate_clients_def lookup_client_def norm_af_def demo_connectable)

end
