(* ===== verification/Key_Pair.thy ===== *)
theory Key_Pair
  imports Router_System
begin

text \<open>
  The key-pair objects that \<open>Router.__init__\<close> accepts: those of aionetiface's \<open>Signing\<close>, whose
  attributes the clients read, and namebump's \<open>Keypair\<close>, to which the constructor adds them.
\<close>

section \<open>Attributes\<close>

text \<open>
  The attributes an object has or has not; a private or public key that is there may be \<open>None\<close>.
  The constructor writes the missing ones into the object the caller passed.
\<close>

record key_object =
  o_compact_public_key :: "bytes option"
  o_public_key_hex :: "string option"
  o_private_key :: "bytes option option"
  o_public_key :: "bytes option option"
  o_vkc :: "bytes option"
  o_private :: "bytes option option"
  o_public :: "bytes option option"

definition attribute :: "'a option \<Rightarrow> (key_object, 'a) py" where
  "attribute a = (case a of None \<Rightarrow> py_raise AttributeError | Some x \<Rightarrow> py_return x)"

text \<open>\<open>getattr(obj, name, None)\<close>\<close>

definition attribute_or_None :: "'a option option \<Rightarrow> 'a option" where
  "attribute_or_None a = (case a of None \<Rightarrow> None | Some x \<Rightarrow> x)"

definition normalize_kp :: "(key_object, unit) py" where
  "normalize_kp =
     py_bind (py_get id) (\<lambda>obj.
     py_seq (py_when (o_compact_public_key obj = None)
       (py_bind (attribute (o_vkc obj)) (\<lambda>v. py_modify (\<lambda>obj. obj\<lparr>o_compact_public_key := Some v\<rparr>))))
     (py_seq (py_when (o_public_key_hex obj = None)
       (py_bind (attribute (o_vkc obj)) (\<lambda>v. py_modify (\<lambda>obj. obj\<lparr>o_public_key_hex := Some (hex_of v)\<rparr>))))
     (py_seq (py_when (o_private_key obj = None)
       (py_modify (\<lambda>obj. obj\<lparr>o_private_key := Some (attribute_or_None (o_private obj))\<rparr>)))
     (py_when (o_public_key obj = None)
       (py_modify (\<lambda>obj. obj\<lparr>o_public_key := Some (attribute_or_None (o_public obj))\<rparr>))))))"

text \<open>What the clients see of an object: its keys, if it has them and can sign.\<close>

definition keypair_of :: "key_object \<Rightarrow> keypair option" where
  "keypair_of obj = (case (o_compact_public_key obj, o_private_key obj, o_public_key_hex obj) of
     (Some pk, Some (Some sk), Some hex) \<Rightarrow> Some \<lparr>compact_public_key = pk, private_key = sk, public_key_hex = hex\<rparr>
   | _ \<Rightarrow> None)"

text \<open>
  The constructor on an object: no clock is refused before the object is touched. A router whose
  keys cannot sign is outside the model (\<open>None\<close>).
\<close>

definition Router_from ::
  "env \<Rightarrow> key_object \<Rightarrow> servers option \<Rightarrow> nat option \<Rightarrow> json \<Rightarrow> bool \<Rightarrow> (router option res \<times> key_object)" where
  "Router_from R obj servers msg_handler file has_clock =
     (if \<not> has_clock then (Inl (ValueError ''Router: get_time is required''), obj)
      else case normalize_kp obj of
        (Inl e, obj') \<Rightarrow> (Inl e, obj')
      | (Inr _, obj') \<Rightarrow> (case keypair_of obj' of
          None \<Rightarrow> (Inr None, obj')
        | Some k \<Rightarrow> (case Router_init R k servers msg_handler file True of
            (Inl e, _) \<Rightarrow> (Inl e, obj')
          | (Inr _, r) \<Rightarrow> (Inr (Some r), obj'))))"

section \<open>What the constructor makes of an object\<close>

definition signing_pair :: "key_object \<Rightarrow> bool" where
  "signing_pair obj \<longleftrightarrow> o_compact_public_key obj \<noteq> None \<and> o_public_key_hex obj \<noteq> None \<and> o_private_key obj \<noteq> None \<and> o_public_key obj \<noteq> None"

lemma normalize_signing: "signing_pair obj \<Longrightarrow> normalize_kp obj = (Inr (), obj)"
  by (auto simp: normalize_kp_def signing_pair_def py_simps)

lemma normalize_fills:
  assumes "normalize_kp obj = (Inr (), obj')"
  shows "signing_pair obj' \<and> o_vkc obj' = o_vkc obj \<and>
    (\<forall>x. o_compact_public_key obj = Some x \<longrightarrow> o_compact_public_key obj' = Some x) \<and>
    (\<forall>x. o_public_key_hex obj = Some x \<longrightarrow> o_public_key_hex obj' = Some x) \<and>
    (\<forall>x. o_private_key obj = Some x \<longrightarrow> o_private_key obj' = Some x)"
  using assms by (auto simp: normalize_kp_def signing_pair_def attribute_def py_simps split: if_splits option.splits)

lemma normalize_again: "normalize_kp obj = (Inr (), obj') \<Longrightarrow> normalize_kp obj' = (Inr (), obj')"
  using normalize_fills normalize_signing by blast

lemma normalize_fails:
  "normalize_kp obj = (Inl e, obj') \<longleftrightarrow> e = AttributeError \<and> obj' = obj \<and> o_vkc obj = None \<and>
     (o_compact_public_key obj = None \<or> o_public_key_hex obj = None)"
  by (auto simp: normalize_kp_def attribute_def py_simps split: if_splits option.splits)

text \<open>A namebump pair becomes the pair of its \<open>vkc\<close> and its private key, and the router is one with these keys.\<close>

lemma Router_from_keypair:
  assumes "o_compact_public_key obj = None" and "o_public_key_hex obj = None" and "o_private_key obj = None"
    and "o_vkc obj = Some v" and "o_private obj = Some (Some sk)"
  shows "fst (Router_from R obj servers h file True) =
    (case Router_init R \<lparr>compact_public_key = v, private_key = sk, public_key_hex = hex_of v\<rparr> servers h file True of
       (Inl e, _) \<Rightarrow> Inl e | (Inr _, r) \<Rightarrow> Inr (Some r))"
  using assms
  by (cases "o_public_key obj") (simp_all add: Router_from_def normalize_kp_def attribute_def attribute_or_None_def
      keypair_of_def py_simps split: prod.split sum.split)

end
