(* ===== verification/Experiment_Text.thy ===== *)
theory Experiment_Text
  imports Reader
begin

text \<open>
  Text as the client of \<open>experiments/mqtt_client.py\<close> has it: Python strings, with the UTF-8 of the
  standard library in both directions.
\<close>

section \<open>Text\<close>

text \<open>A Python string as its code points. \<open>s.encode("utf-8")\<close> refuses surrogates.\<close>

definition utf8_char :: "int \<Rightarrow> int list res" where
  "utf8_char c =
     (if c < 0x80 then Inr [c]
      else if c < 0x800 then Inr [0xC0 + c div 64, 0x80 + c mod 64]
      else if 0xD800 \<le> c \<and> c \<le> 0xDFFF then Inl (ValueError ''surrogates not allowed'')
      else if c < 0x10000 then Inr [0xE0 + c div 4096, 0x80 + c div 64 mod 64, 0x80 + c mod 64]
      else Inr [0xF0 + c div 262144, 0x80 + c div 4096 mod 64, 0x80 + c div 64 mod 64, 0x80 + c mod 64])"

fun utf8 :: "int list \<Rightarrow> int list res" where
  "utf8 [] = Inr []"
| "utf8 (c # cs) = res_bind (utf8_char c) (\<lambda>b. res_bind (utf8 cs) (\<lambda>bs. Inr (b @ bs)))"

definition encode_text :: "int list \<Rightarrow> bytes res" where
  "encode_text s = res_bind (utf8 s) (\<lambda>b. Inr (map word_of_int b))"

text \<open>
  \<open>b.decode("utf-8", "ignore")\<close>. A byte at which no character begins is skipped; the bytes after
  it are continuation bytes, if they belonged to it, and are skipped likewise.
\<close>

definition cont :: "int \<Rightarrow> bool" where
  "cont b \<longleftrightarrow> 0x80 \<le> b \<and> b \<le> 0xBF"

function utf8_ignore :: "int list \<Rightarrow> int list" where
  "utf8_ignore [] = []"
| "utf8_ignore (a # xs) =
     (if a < 0x80 then a # utf8_ignore xs
      else if 0xC2 \<le> a \<and> a \<le> 0xDF \<and> 1 \<le> length xs \<and> cont (xs ! 0) then
        ((a - 0xC0) * 64 + (xs ! 0 - 0x80)) # utf8_ignore (drop 1 xs)
      else if 0xE0 \<le> a \<and> a \<le> 0xEF \<and> 2 \<le> length xs \<and> cont (xs ! 0) \<and> cont (xs ! 1)
          \<and> (a = 0xE0 \<longrightarrow> 0xA0 \<le> xs ! 0) \<and> (a = 0xED \<longrightarrow> xs ! 0 \<le> 0x9F) then
        ((a - 0xE0) * 4096 + (xs ! 0 - 0x80) * 64 + (xs ! 1 - 0x80)) # utf8_ignore (drop 2 xs)
      else if 0xF0 \<le> a \<and> a \<le> 0xF4 \<and> 3 \<le> length xs \<and> cont (xs ! 0) \<and> cont (xs ! 1) \<and> cont (xs ! 2)
          \<and> (a = 0xF0 \<longrightarrow> 0x90 \<le> xs ! 0) \<and> (a = 0xF4 \<longrightarrow> xs ! 0 \<le> 0x8F) then
        ((a - 0xF0) * 262144 + (xs ! 0 - 0x80) * 4096 + (xs ! 1 - 0x80) * 64 + (xs ! 2 - 0x80)) # utf8_ignore (drop 3 xs)
      else utf8_ignore xs)"
  by pat_completeness auto
termination
  by (relation "measure length") auto

declare utf8_ignore.simps(2) [simp del]

definition decode_ignore :: "bytes \<Rightarrow> int list" where
  "decode_ignore b = utf8_ignore (map uint b)"

text \<open>A code point that a string of characters can hold.\<close>

definition scalar :: "int \<Rightarrow> bool" where
  "scalar c \<longleftrightarrow> 0 \<le> c \<and> c \<le> 0x10FFFF \<and> \<not> (0xD800 \<le> c \<and> c \<le> 0xDFFF)"

lemma utf8_read:
  "a < 0x80 \<Longrightarrow> utf8_ignore (a # xs) = a # utf8_ignore xs"
  "0xC2 \<le> a \<Longrightarrow> a \<le> 0xDF \<Longrightarrow> cont b \<Longrightarrow> utf8_ignore (a # b # xs) = ((a - 0xC0) * 64 + (b - 0x80)) # utf8_ignore xs"
  "0xE0 \<le> a \<Longrightarrow> a \<le> 0xEF \<Longrightarrow> cont b \<Longrightarrow> cont d \<Longrightarrow> a = 0xE0 \<longrightarrow> 0xA0 \<le> b \<Longrightarrow> a = 0xED \<longrightarrow> b \<le> 0x9F \<Longrightarrow>
   utf8_ignore (a # b # d # xs) = ((a - 0xE0) * 4096 + (b - 0x80) * 64 + (d - 0x80)) # utf8_ignore xs"
  "0xF0 \<le> a \<Longrightarrow> a \<le> 0xF4 \<Longrightarrow> cont b \<Longrightarrow> cont d \<Longrightarrow> cont e \<Longrightarrow> a = 0xF0 \<longrightarrow> 0x90 \<le> b \<Longrightarrow> a = 0xF4 \<longrightarrow> b \<le> 0x8F \<Longrightarrow>
   utf8_ignore (a # b # d # e # xs) =
     ((a - 0xF0) * 262144 + (b - 0x80) * 4096 + (d - 0x80) * 64 + (e - 0x80)) # utf8_ignore xs"
  by (subst utf8_ignore.simps(2), simp add: numeral_2_eq_2 numeral_3_eq_3)+

lemma digit64: "cont (0x80 + c mod 64)" "(0x80 + c mod 64) - 0x80 = c mod 64"
  by (auto simp: cont_def)

lemma digits64:
  fixes c :: int
  assumes "0 \<le> c"
  obtains w x y z where "c div 262144 = w" "c div 4096 = 64 * w + x" "c div 4096 mod 64 = x" "c div 64 mod 64 = y" "c mod 64 = z"
    "c = 262144 * w + 4096 * x + 64 * y + z" "0 \<le> w" "0 \<le> x" "x < 64" "0 \<le> y" "y < 64" "0 \<le> z" "z < 64"
proof -
  define d e where "d = c div 64" and "e = d div 64"
  have two: "c div 4096 = e" "c div 262144 = e div 64" by (simp_all add: d_def e_def zdiv_zmult2_eq [symmetric])
  have split: "d = 64 * e + d mod 64" "e = 64 * (e div 64) + e mod 64" "c = 64 * d + c mod 64"
    by (simp_all add: d_def e_def)
  have pos: "0 \<le> e div 64" using assms by (simp add: d_def e_def pos_imp_zdiv_nonneg_iff)
  have sum: "c = 262144 * (e div 64) + 4096 * (e mod 64) + 64 * (d mod 64) + c mod 64" using split by linarith
  have d: "d mod 64 = c div 64 mod 64" by (simp add: d_def)
  show thesis
    by (rule that [of "e div 64" "e mod 64" "d mod 64" "c mod 64"]) (use split(2) sum pos two d in \<open>simp_all only: two d pos_mod_sign pos_mod_bound zero_less_numeral\<close>)
qed

lemma digits_three:
  fixes x y z :: int
  assumes "c = 4096 * x + 64 * y + z" and "0 \<le> x" "0 \<le> y" "y < 64" "0 \<le> z" "z < 64" and "0x800 \<le> c" "c < 0x10000"
    and "\<not> (0xD800 \<le> c \<and> c \<le> 0xDFFF)"
  shows "x < 16" "x = 0 \<longrightarrow> 32 \<le> y" "x = 13 \<longrightarrow> y \<le> 31"
proof -
  show "x < 16" using assms(1-8) by linarith
  show "x = 0 \<longrightarrow> 32 \<le> y" using assms(1-8) by (intro impI) linarith
  show "x = 13 \<longrightarrow> y \<le> 31"
  proof (intro impI, rule ccontr)
    assume "x = 13" and "\<not> y \<le> 31"
    then have "0xD800 \<le> c" "c \<le> 0xDFFF" using assms(1-8) by linarith+
    with assms(9) show False by blast
  qed
qed

lemma digits_four:
  fixes w x y z :: int
  assumes "c = 262144 * w + 4096 * x + 64 * y + z" and "0 \<le> w" "0 \<le> x" "x < 64" "0 \<le> y" "y < 64" "0 \<le> z" "z < 64"
    and "0x10000 \<le> c" "c \<le> 0x10FFFF"
  shows "w \<le> 4" "w = 0 \<longrightarrow> 16 \<le> x" "w = 4 \<longrightarrow> x \<le> 15"
  by (insert assms, linarith, (intro impI, linarith)+)

lemma utf8_char_read:
  assumes c: "scalar c"
  shows "\<exists>b. utf8_char c = Inr b \<and> (\<forall>x \<in> set b. 0 \<le> x \<and> x < 256) \<and> utf8_ignore (b @ xs) = c # utf8_ignore xs"
proof -
  consider "c < 0x80" | "0x80 \<le> c" "c < 0x800" | "0x800 \<le> c" "c < 0x10000" | "0x10000 \<le> c" by linarith
  then show ?thesis
  proof cases
    case 1
    then show ?thesis using c by (simp add: utf8_char_def scalar_def utf8_read(1))
  next
    case 2
    then have r: "2 \<le> c div 64" "c div 64 < 32" by auto
    then have "utf8_ignore ((0xC0 + c div 64) # (0x80 + c mod 64) # xs) = ((0xC0 + c div 64 - 0xC0) * 64 + (0x80 + c mod 64 - 0x80)) # utf8_ignore xs"
      by (intro utf8_read(2) digit64) simp_all
    then show ?thesis using 2 r by (auto simp: utf8_char_def)
  next
    case 3
    then have "0 \<le> c" by simp
    then obtain w x y z where d: "c div 4096 = 64 * w + x" "c div 64 mod 64 = y" "c mod 64 = z" and sum: "c = 262144 * w + 4096 * x + 64 * y + z"
      and r: "0 \<le> w" "0 \<le> x" "x < 64" "0 \<le> y" "y < 64" "0 \<le> z" "z < 64" using digits64 [of c] by metis
    have w: "w = 0" using 3 sum r by linarith
    then have sum: "c = 4096 * x + 64 * y + z" using sum by simp
    have range: "\<not> (0xD800 \<le> c \<and> c \<le> 0xDFFF)" using c by (simp add: scalar_def)
    note lim = digits_three [OF sum r(2,4-7) 3 range]
    have "utf8_ignore ((0xE0 + x) # (0x80 + y) # (0x80 + z) # xs) = ((0xE0 + x - 0xE0) * 4096 + (0x80 + y - 0x80) * 64 + (0x80 + z - 0x80)) # utf8_ignore xs"
      by (rule utf8_read(3)) (use r lim in \<open>simp_all add: cont_def\<close>)
    moreover have "(0xE0 + x - 0xE0) * 4096 + (0x80 + y - 0x80) * 64 + (0x80 + z - 0x80) = c" using sum by simp
    moreover have "utf8_char c = Inr [0xE0 + x, 0x80 + y, 0x80 + z]" using 3 range w d by (simp add: utf8_char_def)
    ultimately show ?thesis using r lim(1) by simp
  next
    case 4
    then have "0 \<le> c" by simp
    then obtain w x y z where d: "c div 262144 = w" "c div 4096 mod 64 = x" "c div 64 mod 64 = y" "c mod 64 = z"
      and sum: "c = 262144 * w + 4096 * x + 64 * y + z"
      and r: "0 \<le> w" "0 \<le> x" "x < 64" "0 \<le> y" "y < 64" "0 \<le> z" "z < 64" using digits64 [of c] by metis
    have top: "c \<le> 0x10FFFF" using c by (simp add: scalar_def)
    note lim = digits_four [OF sum r 4 top]
    have "utf8_ignore ((0xF0 + w) # (0x80 + x) # (0x80 + y) # (0x80 + z) # xs) =
        ((0xF0 + w - 0xF0) * 262144 + (0x80 + x - 0x80) * 4096 + (0x80 + y - 0x80) * 64 + (0x80 + z - 0x80)) # utf8_ignore xs"
      by (rule utf8_read(4)) (use r lim in \<open>simp_all add: cont_def\<close>)
    moreover have "(0xF0 + w - 0xF0) * 262144 + (0x80 + x - 0x80) * 4096 + (0x80 + y - 0x80) * 64 + (0x80 + z - 0x80) = c" using sum by simp
    moreover have "utf8_char c = Inr [0xF0 + w, 0x80 + x, 0x80 + y, 0x80 + z]" using 4 d by (simp add: utf8_char_def)
    ultimately show ?thesis using r lim(1) by simp
  qed
qed

lemma utf8_roundtrip: "list_all scalar s \<Longrightarrow> \<exists>b. utf8 s = Inr b \<and> (\<forall>x \<in> set b. 0 \<le> x \<and> x < 256) \<and> utf8_ignore (b @ xs) = s @ utf8_ignore xs"
proof (induction s)
  case (Cons c s)
  then obtain bs where bs: "utf8 s = Inr bs" "\<forall>x \<in> set bs. 0 \<le> x \<and> x < 256" "utf8_ignore (bs @ xs) = s @ utf8_ignore xs" by auto
  obtain b where "utf8_char c = Inr b" "\<forall>x \<in> set b. 0 \<le> x \<and> x < 256" "utf8_ignore (b @ bs @ xs) = c # utf8_ignore (bs @ xs)"
    using utf8_char_read [of c "bs @ xs"] Cons.prems by auto
  with bs show ?case by (auto simp: res_bind_def)
qed simp

lemma text_roundtrip: "list_all scalar s \<Longrightarrow> \<exists>b. encode_text s = Inr b \<and> decode_ignore b = s"
proof -
  assume "list_all scalar s"
  from utf8_roundtrip [OF this, of "[]"] obtain b where b: "utf8 s = Inr b" "\<forall>x \<in> set b. 0 \<le> x \<and> x < 256" "utf8_ignore b = s" by auto
  have "uint (word_of_int x :: byte) = x" if "x \<in> set b" for x
    using b(2) that by (auto simp: uint_word_of_int_eq take_bit_int_eq_self)
  then have "map uint (map word_of_int b :: bytes) = b" by (simp add: map_idI)
  with b show ?thesis by (simp add: encode_text_def decode_ignore_def res_bind_def)
qed

end
