(* ===== verification/Experiment_Client.thy ===== *)
theory Experiment_Client
  imports Experiment_Text
begin

text \<open>
  The minimal client of \<open>experiments/mqtt_client.py\<close>, which speaks MQTT on a blocking socket without
  the library. What it sends is what the library's parser reads; its loop prints what it is sent,
  however the stream is cut, but does not return when the connection ends within a packet.
\<close>

section \<open>The socket\<close>

text \<open>
  What arrives on the socket, as the pieces in which it becomes available, after which the peer has
  closed the connection; what has been sent; and what has been printed. \<open>recv(k)\<close> returns at most
  \<open>k\<close> bytes of the next piece, and none at the end.
\<close>

record socket =
  arriving :: "bytes list"
  sent_out :: bytes
  printed :: "(int list \<times> int list) list"

definition sock_recv :: "nat \<Rightarrow> (socket, bytes) py" where
  "sock_recv k = (\<lambda>s. case arriving s of
     [] \<Rightarrow> (Inr [], s)
   | c # cs \<Rightarrow> (Inr (take k c), s\<lparr>arriving := (if length c \<le> k then cs else drop k c # cs)\<rparr>))"

definition sendall :: "bytes \<Rightarrow> (socket, unit) py" where
  "sendall b = py_modify (\<lambda>s. s\<lparr>sent_out := sent_out s @ b\<rparr>)"

section \<open>The wire format\<close>

function enc_varint :: "nat \<Rightarrow> bytes" where
  "enc_varint n =
     (let byte = n AND 0x7F;
          n' = drop_bit 7 n;
          byte' = (if n' \<noteq> 0 then byte OR 0x80 else byte)
      in if n' = 0 then [word_of_nat byte'] else word_of_nat byte' # enc_varint n')"
  by pat_completeness auto
termination
  by (relation "measure id") (auto simp: drop_bit_eq_div div_eq_0_iff)

declare enc_varint.simps [simp del]

text \<open>\<open>ord\<close> of the empty bytes raises \<open>TypeError\<close>.\<close>

function dec_loop :: "nat \<Rightarrow> nat \<Rightarrow> socket \<Rightarrow> nat res \<times> socket" where
  "dec_loop mul val s = (case arriving s of
     [] \<Rightarrow> (Inl TypeError, s)
   | c # cs \<Rightarrow>
       let s' = snd (sock_recv 1 s)
       in if c = [] then (Inl TypeError, s')
          else
            let b = unat (hd c);
                val' = val + (b AND 0x7F) * mul
            in if b AND 0x80 = 0 then (Inr val', s') else dec_loop (push_bit 7 mul) val' s')"
  by pat_completeness auto
termination
  by (relation "measure (\<lambda>(_, _, s). length (concat (arriving s)))") (auto simp: sock_recv_def)

declare dec_loop.simps [simp del]

definition dec_varint :: "(socket, nat) py" where
  "dec_varint = dec_loop 1 0"

definition enc_str :: "int list \<Rightarrow> bytes res" where
  "enc_str s = res_bind (encode_text s) (\<lambda>b. res_bind (pack_H (int (length b))) (\<lambda>h. Inr (h @ b)))"

text \<open>A literal of the source.\<close>

definition code_points :: "string \<Rightarrow> int list" where
  "code_points = map of_char"

section \<open>The client\<close>

text \<open>\<open>connect\<close>, from the socket that \<open>create_connection\<close> has returned.\<close>

definition exp_connect :: "int list \<Rightarrow> (socket, unit) py" where
  "exp_connect cid =
     py_bind (py_lift (enc_str (code_points ''MQTT''))) (\<lambda>name.
     let vh = name @ [0x04] @ [0x02] @ [0x00, 0x3c] in
     py_bind (py_lift (enc_str cid)) (\<lambda>pl.
     let pkt = [0x10] @ enc_varint (length vh + length pl) @ vh @ pl in
     py_seq (sendall pkt) (py_bind (sock_recv 4) (\<lambda>_. py_return ()))))"

definition exp_subscribe :: "int list \<Rightarrow> (socket, unit) py" where
  "exp_subscribe topic =
     py_bind (py_lift (pack_H 1)) (\<lambda>vh.
     py_bind (py_lift (enc_str topic)) (\<lambda>t.
     let pl = t @ [0x00];
         pkt = [0x82] @ enc_varint (length vh + length pl) @ vh @ pl in
     py_seq (sendall pkt) (py_bind (sock_recv 5) (\<lambda>_. py_return ()))))"

definition exp_publish :: "int list \<Rightarrow> int list \<Rightarrow> (socket, unit) py" where
  "exp_publish topic payload =
     py_bind (py_lift (enc_str topic)) (\<lambda>t.
     py_bind (py_lift (encode_text payload)) (\<lambda>b.
     let pl = t @ b in sendall ([0x30] @ enc_varint (length pl) @ pl)))"

text \<open>
  The loops take fuel, since \<open>while len(data) < rem_len\<close> may not end: \<open>None\<close> is to be out of fuel.
\<close>

fun read_data :: "nat \<Rightarrow> nat \<Rightarrow> bytes \<Rightarrow> socket \<Rightarrow> (bytes \<times> socket) option" where
  "read_data fuel rem_len data s =
     (if rem_len \<le> length data then Some (data, s)
      else case fuel of
        0 \<Rightarrow> None
      | Suc fuel' \<Rightarrow> (case sock_recv (rem_len - length data) s of
          (Inl _, s') \<Rightarrow> None
        | (Inr b, s') \<Rightarrow> read_data fuel' rem_len (data @ b) s'))"

declare read_data.simps [simp del]

definition print_publish :: "bytes \<Rightarrow> (socket, unit) py" where
  "print_publish data =
     py_bind (py_lift (unpack_H (take 2 data))) (\<lambda>n.
     let tlen = nat n;
         topic = decode_ignore (slice 2 (2 + tlen) data);
         msg = decode_ignore (drop (2 + tlen) data)
     in py_modify (\<lambda>s. s\<lparr>printed := printed s @ [(topic, msg)]\<rparr>))"

fun exp_loop :: "nat \<Rightarrow> socket \<Rightarrow> (unit res \<times> socket) option" where
  "exp_loop 0 s = None"
| "exp_loop (Suc fuel) s = (case sock_recv 1 s of
     (Inl e, s1) \<Rightarrow> Some (Inl e, s1)
   | (Inr hdr, s1) \<Rightarrow>
       if hdr = [] then Some (Inr (), s1)
       else
         let pkt_type = drop_bit 4 (unat (hd hdr))
         in case dec_varint s1 of
              (Inl e, s2) \<Rightarrow> Some (Inl e, s2)
            | (Inr rem_len, s2) \<Rightarrow> (case read_data fuel rem_len [] s2 of
                None \<Rightarrow> None
              | Some (data, s3) \<Rightarrow>
                  if pkt_type = 3 then (case print_publish data s3 of
                    (Inl e, s4) \<Rightarrow> Some (Inl e, s4)
                  | (Inr _, s4) \<Rightarrow> exp_loop fuel s4)
                  else exp_loop fuel s3))"

text \<open>The program: one session with the client id and the topic it is written for.\<close>

definition exp_main :: "nat \<Rightarrow> socket \<Rightarrow> (unit res \<times> socket) option" where
  "exp_main fuel s =
     (case py_seq (exp_connect (code_points ''min35''))
        (py_seq (exp_subscribe (code_points ''test/min35''))
          (exp_publish (code_points ''test/min35'') (code_points ''hello from py3.5''))) s of
        (Inl e, s') \<Rightarrow> Some (Inl e, s')
      | (Inr _, s') \<Rightarrow> exp_loop fuel s')"

section \<open>What it sends\<close>

lemma enc_varint_same: "enc_varint n = mqtt_encode_varint n"
proof (induction n rule: less_induct)
  case (less n)
  have d: "drop_bit 7 n = n div 128" by (simp add: drop_bit_eq_div)
  show ?case
  proof (cases "n < 128")
    case True
    then show ?thesis by (subst enc_varint.simps) (simp add: d and_7F encode_small)
  next
    case False
    then show ?thesis
      using less [of "n div 128"] by (subst enc_varint.simps) (simp add: Let_def d and_7F or_80 encode_large div_eq_0_iff)
  qed
qed

text \<open>Its packets are frames, which the library's \<open>mqtt_parse_packet\<close> reads.\<close>

lemma exp_header: "n = 16 * mqtt_val t + f mod 16 \<Longrightarrow> [word_of_int n] @ enc_varint (length body) @ body = frame t f body"
  using hand_header [of n t f "length body"] by (simp add: enc_varint_same frame_def)

lemma exp_connect_sends:
  assumes "enc_str cid = Inr pl"
  shows "exp_connect cid s = (Inr (), snd (sock_recv 4
    (s\<lparr>sent_out := sent_out s @ frame CONNECT 0 ([0, 4, 77, 81, 84, 84] @ [0x04, 0x02, 0x00, 0x3c] @ pl)\<rparr>)))"
proof -
  have "enc_str (code_points ''MQTT'') = Inr [0, 4, 77, 81, 84, 84]"
    by (simp add: enc_str_def encode_text_def utf8_char_def res_bind_def code_points_def struct_pack_def be_encode_widths)
  then show ?thesis
    using exp_header [of "0x10" CONNECT 0 "[0, 4, 77, 81, 84, 84] @ [0x04, 0x02, 0x00, 0x3c] @ pl"] assms
    by (simp add: exp_connect_def py_simps sendall_def sock_recv_def add.commute split: list.split)
qed

lemma exp_subscribe_sends:
  assumes "enc_str topic = Inr t"
  shows "exp_subscribe topic s = (Inr (), snd (sock_recv 5
    (s\<lparr>sent_out := sent_out s @ frame SUBSCRIBE 2 ([0, 1] @ t @ [0x00])\<rparr>)))"
  using exp_header [of "0x82" SUBSCRIBE 2 "[0, 1] @ t @ [0x00]"] assms
  by (simp add: exp_subscribe_def py_simps sendall_def sock_recv_def struct_pack_def be_encode_widths split: list.split)

lemma exp_publish_sends:
  assumes "enc_str topic = Inr t" and "encode_text payload = Inr b"
  shows "exp_publish topic payload s = (Inr (), s\<lparr>sent_out := sent_out s @ frame PUBLISH 0 (t @ b)\<rparr>)"
  using assms exp_header [of "0x30" PUBLISH 0 "t @ b"] by (simp add: exp_publish_def py_simps sendall_def)

section \<open>What it reads\<close>

text \<open>What is still to be read, of a stream that no piece ends before the connection does.\<close>

definition stream :: "socket \<Rightarrow> bytes" where
  "stream s = concat (arriving s)"

definition awake :: "socket \<Rightarrow> bool" where
  "awake s \<longleftrightarrow> [] \<notin> set (arriving s)"

lemma recv_end: "awake s \<Longrightarrow> stream s = [] \<Longrightarrow> sock_recv k s = (Inr [], s)"
  by (cases "arriving s") (auto simp: sock_recv_def awake_def stream_def)

lemma recv_some:
  assumes "awake s" "stream s \<noteq> []" "0 < k"
  obtains b cs where "sock_recv k s = (Inr b, s\<lparr>arriving := cs\<rparr>)" "b \<noteq> []" "length b \<le> k" "stream s = b @ concat cs" "[] \<notin> set cs"
proof (cases "arriving s")
  case (Cons c cs)
  with assms have c: "c \<noteq> []" "[] \<notin> set cs" by (auto simp: awake_def)
  show thesis
  proof (cases "length c \<le> k")
    case True
    with Cons c show thesis by (intro that [of c cs]) (auto simp: sock_recv_def stream_def)
  next
    case False
    with Cons c assms(3) show thesis
      by (intro that [of "take k c" "drop k c # cs"]) (auto simp: sock_recv_def stream_def append_assoc [symmetric])
  qed
qed (use assms in \<open>simp add: stream_def\<close>)

lemma recv_one:
  assumes "awake s" "stream s = b # xs"
  obtains cs where "sock_recv 1 s = (Inr [b], s\<lparr>arriving := cs\<rparr>)" "concat cs = xs" "[] \<notin> set cs"
proof -
  obtain c cs where c: "sock_recv 1 s = (Inr c, s\<lparr>arriving := cs\<rparr>)" "c \<noteq> []" "length c \<le> 1" "stream s = c @ concat cs" "[] \<notin> set cs"
    by (rule recv_some [OF assms(1), of 1]) (simp_all add: assms(2))
  then obtain x where "c = [x]" by (cases c) auto
  with c(4) assms(2) have "c = [b]" "concat cs = xs" by auto
  with c that show thesis by simp
qed

text \<open>\<open>dec_varint\<close> reads what \<open>enc_varint\<close> wrote, one byte at a time.\<close>

lemma dec_loop_step:
  assumes "awake s" "stream s = b # xs"
  obtains cs where "concat cs = xs" "[] \<notin> set cs"
    "dec_loop mul val s = (if unat b < 128 then (Inr (val + unat b * mul), s\<lparr>arriving := cs\<rparr>)
       else dec_loop (mul * 128) (val + unat b mod 128 * mul) (s\<lparr>arriving := cs\<rparr>))"
proof -
  obtain cs where cs: "sock_recv 1 s = (Inr [b], s\<lparr>arriving := cs\<rparr>)" "concat cs = xs" "[] \<notin> set cs"
    using recv_one [OF assms] by metis
  obtain c ds where a: "arriving s = c # ds" "c \<noteq> []" using assms by (cases "arriving s") (auto simp: stream_def awake_def)
  then have hd: "hd c = b" using assms(2) by (cases c) (auto simp: stream_def)
  note hi = and_80 [OF unat_byte [of b]]
  have "dec_loop mul val s = (if unat b AND 0x80 = 0 then (Inr (val + (unat b AND 0x7F) * mul), snd (sock_recv 1 s))
      else dec_loop (push_bit 7 mul) (val + (unat b AND 0x7F) * mul) (snd (sock_recv 1 s)))"
    by (subst dec_loop.simps) (simp only: a list.case Let_def hd if_False)
  moreover have "unat b mod 128 = unat b" if "unat b < 128" using that by simp
  ultimately show thesis
    by (intro that [OF cs(2,3)]) (simp add: cs(1) [unfolded One_nat_def] hi and_7F push_bit_eq_mult)
qed

lemma dec_loop_reads:
  "awake s \<Longrightarrow> stream s = enc_varint n @ xs \<Longrightarrow>
   \<exists>cs. dec_loop mul val s = (Inr (val + n * mul), s\<lparr>arriving := cs\<rparr>) \<and> concat cs = xs \<and> [] \<notin> set cs"
proof (induction n arbitrary: s mul val rule: less_induct)
  case (less n)
  show ?case
  proof (cases "n < 128")
    case True
    then have "stream s = word_of_nat n # xs" using less.prems by (simp add: enc_varint_same encode_small)
    with less.prems(1) obtain cs where "concat cs = xs" "[] \<notin> set cs"
      "dec_loop mul val s = (if unat (word_of_nat n :: byte) < 128 then (Inr (val + unat (word_of_nat n :: byte) * mul), s\<lparr>arriving := cs\<rparr>)
       else dec_loop (mul * 128) (val + unat (word_of_nat n :: byte) mod 128 * mul) (s\<lparr>arriving := cs\<rparr>))"
      by (rule dec_loop_step)
    with True show ?thesis by (auto simp: unat_of_nat)
  next
    case False
    let ?b = "word_of_nat (n mod 128 + 128) :: byte"
    have "n mod 128 < 128" by simp
    then have b: "unat ?b = n mod 128 + 128" by (simp only: unat_of_nat) simp
    from False have "stream s = ?b # (enc_varint (n div 128) @ xs)" using less.prems by (simp add: enc_varint_same encode_large)
    with less.prems(1) obtain cs where cs: "concat cs = enc_varint (n div 128) @ xs" "[] \<notin> set cs"
      "dec_loop mul val s = (if unat ?b < 128 then (Inr (val + unat ?b * mul), s\<lparr>arriving := cs\<rparr>)
       else dec_loop (mul * 128) (val + unat ?b mod 128 * mul) (s\<lparr>arriving := cs\<rparr>))"
      by (rule dec_loop_step)
    have "\<exists>ds. dec_loop (mul * 128) (val + n mod 128 * mul) (s\<lparr>arriving := cs\<rparr>) =
        (Inr (val + n mod 128 * mul + n div 128 * (mul * 128)), s\<lparr>arriving := cs\<rparr>\<lparr>arriving := ds\<rparr>) \<and> concat ds = xs \<and> [] \<notin> set ds"
      using False cs(1,2) by (intro less.IH) (simp_all add: awake_def stream_def)
    moreover have "val + n mod 128 * mul + n div 128 * (mul * 128) = val + n * mul"
      using div_mult_mod_eq [of n 128] by (metis add.assoc add.commute add_mult_distrib mult.assoc mult.commute)
    ultimately show ?thesis using cs(3) b by simp
  qed
qed

text \<open>The body of a packet is read whole, in however many pieces it comes; or never.\<close>

lemma read_data_whole:
  "awake s \<Longrightarrow> stream s = b @ xs \<Longrightarrow> rem_len = length data + length b \<Longrightarrow> length b \<le> fuel \<Longrightarrow>
   \<exists>cs. read_data fuel rem_len data s = Some (data @ b, s\<lparr>arriving := cs\<rparr>) \<and> concat cs = xs \<and> [] \<notin> set cs"
proof (induction fuel arbitrary: s data b)
  case 0
  then show ?case by (subst read_data.simps) (auto simp: stream_def awake_def intro: exI [of _ "arriving s"])
next
  case (Suc fuel)
  show ?case
  proof (cases "b = []")
    case True
    with Suc.prems show ?thesis by (subst read_data.simps) (auto simp: stream_def awake_def intro: exI [of _ "arriving s"])
  next
    case False
    then have "0 < length b" by simp
    with Suc.prems(1,2) obtain c cs where c: "sock_recv (length b) s = (Inr c, s\<lparr>arriving := cs\<rparr>)" "c \<noteq> []" "length c \<le> length b"
      "stream s = c @ concat cs" "[] \<notin> set cs" using recv_some [of s "length b"] by auto
    then obtain b' where b': "b = c @ b'" "concat cs = b' @ xs" using Suc.prems(2) by (auto simp: append_eq_append_conv2)
    have "\<exists>ds. read_data fuel rem_len (data @ c) (s\<lparr>arriving := cs\<rparr>) = Some ((data @ c) @ b', s\<lparr>arriving := cs\<rparr>\<lparr>arriving := ds\<rparr>) \<and>
        concat ds = xs \<and> [] \<notin> set ds"
      by (rule Suc.IH) (use Suc.prems c b' in \<open>auto simp: awake_def stream_def length_greater_0_conv [symmetric] simp del: length_greater_0_conv\<close>)
    moreover have "read_data (Suc fuel) rem_len data s = read_data fuel rem_len (data @ c) (s\<lparr>arriving := cs\<rparr>)"
      using False Suc.prems(3) c(1) by (subst read_data.simps) simp
    ultimately show ?thesis using b'(1) by simp
  qed
qed

lemma read_data_cut_off:
  "awake s \<Longrightarrow> length data + length (stream s) < rem_len \<Longrightarrow> read_data fuel rem_len data s = None"
proof (induction fuel arbitrary: s data)
  case (Suc fuel)
  show ?case
  proof (cases "stream s = []")
    case True
    with Suc show ?thesis by (subst read_data.simps) (simp add: recv_end)
  next
    case False
    have "0 < rem_len - length data" using Suc.prems(2) by simp
    with Suc.prems(1) False obtain c cs where c: "sock_recv (rem_len - length data) s = (Inr c, s\<lparr>arriving := cs\<rparr>)"
      "c \<noteq> []" "length c \<le> rem_len - length data" "stream s = c @ concat cs" "[] \<notin> set cs" by (rule recv_some)
    with Suc.prems have "read_data fuel rem_len (data @ c) (s\<lparr>arriving := cs\<rparr>) = None"
      by (intro Suc.IH) (simp_all add: awake_def stream_def)
    with c(1) Suc.prems(2) show ?thesis by (subst read_data.simps) simp
  qed
qed (subst read_data.simps, simp)

lemma print_publish_frame:
  assumes "enc_str topic = Inr t" "encode_text msg = Inr b" "list_all scalar topic" "list_all scalar msg"
  shows "print_publish (t @ b) s = (Inr (), s\<lparr>printed := printed s @ [(topic, msg)]\<rparr>)"
proof -
  obtain tb h where t: "encode_text topic = Inr tb" "pack_H (int (length tb)) = Inr h" "t = h @ tb"
    using assms(1) by (auto simp: enc_str_def res_bind_Inr_conv)
  note h = fmt_H.enc_width [OF t(2)] fmt_H.dec_enc [OF t(2)]
  have "decode_ignore tb = topic" "decode_ignore b = msg"
    using text_roundtrip [OF assms(3)] text_roundtrip [OF assms(4)] t(1) assms(2) by auto
  then show ?thesis using h t(3) by (simp add: print_publish_def py_simps slice_def)
qed

section \<open>The loop\<close>

lemma exp_loop_frame:
  assumes "awake s" "stream s = frame PUBLISH 0 body @ xs" "length body \<le> fuel"
  obtains cs where "concat cs = xs" "[] \<notin> set cs"
    "exp_loop (Suc fuel) s = (case print_publish body (s\<lparr>arriving := cs\<rparr>) of
       (Inl e, s') \<Rightarrow> Some (Inl e, s') | (Inr _, s') \<Rightarrow> exp_loop fuel s')"
proof -
  have "stream s = 0x30 # (enc_varint (length body) @ body @ xs)"
    using assms(2) exp_header [of "0x30" PUBLISH 0 body] by (simp flip: append_assoc)
  with assms(1) obtain cs where cs: "sock_recv 1 s = (Inr [0x30], s\<lparr>arriving := cs\<rparr>)" "concat cs = enc_varint (length body) @ body @ xs" "[] \<notin> set cs"
    by (rule recv_one)
  then obtain ds where ds: "dec_varint (s\<lparr>arriving := cs\<rparr>) = (Inr (length body), s\<lparr>arriving := ds\<rparr>)" "concat ds = body @ xs" "[] \<notin> set ds"
    using dec_loop_reads [of "s\<lparr>arriving := cs\<rparr>" "length body" "body @ xs" 1 0] by (auto simp: dec_varint_def awake_def stream_def)
  then obtain es where es: "read_data fuel (length body) [] (s\<lparr>arriving := ds\<rparr>) = Some (body, s\<lparr>arriving := es\<rparr>)" "concat es = xs" "[] \<notin> set es"
    using read_data_whole [of "s\<lparr>arriving := ds\<rparr>" body xs "length body" "[]" fuel] assms(3) by (auto simp: awake_def stream_def)
  have "drop_bit 4 (unat (0x30 :: byte)) = 3" by (simp add: drop_bit_eq_div)
  then show thesis
    by (intro that [OF es(2,3)]) (simp add: cs(1) [unfolded One_nat_def] ds(1) es(1))
qed

text \<open>What another such client has published is printed, up to where the next packet begins.\<close>

abbreviation published :: "int list \<times> int list \<Rightarrow> bytes \<Rightarrow> bool" where
  "published m f \<equiv> \<exists>peer. exp_publish (fst m) (snd m) peer = (Inr (), peer\<lparr>sent_out := sent_out peer @ f\<rparr>)
     \<and> list_all scalar (fst m) \<and> list_all scalar (snd m)"

lemma publishedD:
  assumes "published m f"
  obtains t b where "enc_str (fst m) = Inr t" "encode_text (snd m) = Inr b" "f = frame PUBLISH 0 (t @ b)"
    "list_all scalar (fst m)" "list_all scalar (snd m)"
proof -
  from assms obtain peer where peer: "exp_publish (fst m) (snd m) peer = (Inr (), peer\<lparr>sent_out := sent_out peer @ f\<rparr>)"
    "list_all scalar (fst m)" "list_all scalar (snd m)" by blast
  then obtain t b where tb: "enc_str (fst m) = Inr t" "encode_text (snd m) = Inr b"
    by (auto simp: exp_publish_def py_simps split: sum.splits)
  then have "peer\<lparr>sent_out := sent_out peer @ frame PUBLISH 0 (t @ b)\<rparr> = peer\<lparr>sent_out := sent_out peer @ f\<rparr>"
    using peer(1) exp_publish_sends [OF tb, of peer] by simp
  from arg_cong [OF this, of sent_out] have "f = frame PUBLISH 0 (t @ b)" by simp
  with tb peer(2,3) that show thesis by blast
qed

lemma exp_loop_reads:
  "list_all2 published ms fs \<Longrightarrow> awake s \<Longrightarrow> stream s = concat fs @ xs \<Longrightarrow> length (stream s) < fuel \<Longrightarrow>
   \<exists>cs fuel'. exp_loop fuel s = exp_loop fuel' (s\<lparr>arriving := cs, printed := printed s @ ms\<rparr>) \<and>
     concat cs = xs \<and> [] \<notin> set cs \<and> length xs < fuel'"
proof (induction ms fs arbitrary: s fuel rule: list_all2_induct)
  case Nil
  then show ?case by (intro exI [of _ "arriving s"] exI [of _ fuel]) (simp add: stream_def awake_def)
next
  case (Cons m ms f fs)
  from \<open>published m f\<close> obtain t b where m: "enc_str (fst m) = Inr t" "encode_text (snd m) = Inr b" "f = frame PUBLISH 0 (t @ b)"
    "list_all scalar (fst m)" "list_all scalar (snd m)" by (rule publishedD)
  have stream: "stream s = frame PUBLISH 0 (t @ b) @ concat fs @ xs" using Cons.prems(2) m(3) by simp
  from Cons.prems(3) obtain k where k: "fuel = Suc k" by (cases fuel) auto
  have len: "length (t @ b) + length (concat fs @ xs) < k" using Cons.prems(3) stream k by (simp add: length_frame)
  then have le: "length (t @ b) \<le> k" by linarith
  obtain cs where cs: "concat cs = concat fs @ xs" "[] \<notin> set cs"
    "exp_loop (Suc k) s = (case print_publish (t @ b) (s\<lparr>arriving := cs\<rparr>) of
       (Inl e, s') \<Rightarrow> Some (Inl e, s') | (Inr _, s') \<Rightarrow> exp_loop k s')"
    by (rule exp_loop_frame [OF Cons.prems(1) stream le])
  let ?s = "s\<lparr>arriving := cs, printed := printed s @ [m]\<rparr>"
  have "exp_loop fuel s = exp_loop k ?s"
    using cs(3) print_publish_frame [OF m(1,2,4,5), of "s\<lparr>arriving := cs\<rparr>"] k by simp
  moreover have "\<exists>ds fuel'. exp_loop k ?s = exp_loop fuel' (?s\<lparr>arriving := ds, printed := printed ?s @ ms\<rparr>) \<and>
     concat ds = xs \<and> [] \<notin> set ds \<and> length xs < fuel'"
    using cs len by (intro Cons.IH) (simp_all add: awake_def stream_def)
  ultimately show ?case by simp
qed

lemma exp_loop_prints:
  assumes "list_all2 published ms fs" "awake s" "stream s = concat fs" "length (stream s) < fuel"
  shows "exp_loop fuel s = Some (Inr (), s\<lparr>arriving := [], printed := printed s @ ms\<rparr>)"
proof -
  obtain cs fuel' where l: "exp_loop fuel s = exp_loop fuel' (s\<lparr>arriving := cs, printed := printed s @ ms\<rparr>)"
    "concat cs = []" "[] \<notin> set cs" "0 < fuel'" using exp_loop_reads [OF assms(1,2), of "[]" fuel] assms(3,4) by auto
  then have "cs = []" by (cases cs) auto
  with l show ?thesis by (cases fuel') (simp_all add: sock_recv_def)
qed

text \<open>A connection that ends within the body of a packet keeps \<open>loop\<close> reading nothing for ever.\<close>

lemma exp_loop_hangs:
  assumes "awake s" "stream s = h # enc_varint n @ xs" "length xs < n"
  shows "exp_loop fuel s = None"
proof (cases fuel)
  case (Suc k)
  from assms(1,2) obtain cs where cs: "sock_recv 1 s = (Inr [h], s\<lparr>arriving := cs\<rparr>)" "concat cs = enc_varint n @ xs" "[] \<notin> set cs"
    by (rule recv_one)
  then obtain ds where ds: "dec_varint (s\<lparr>arriving := cs\<rparr>) = (Inr n, s\<lparr>arriving := ds\<rparr>)" "concat ds = xs" "[] \<notin> set ds"
    using dec_loop_reads [of "s\<lparr>arriving := cs\<rparr>" n xs 1 0] by (auto simp: dec_varint_def awake_def stream_def)
  have "read_data k n [] (s\<lparr>arriving := ds\<rparr>) = None"
    using ds(2,3) assms(3) by (intro read_data_cut_off) (simp_all add: awake_def stream_def)
  then show ?thesis by (simp add: Suc cs(1) [unfolded One_nat_def] ds(1))
qed simp

section \<open>The program\<close>

abbreviation test_topic :: bytes where
  "test_topic \<equiv> [0, 10, 116, 101, 115, 116, 47, 109, 105, 110, 51, 53]"

definition hello :: bytes where
  "hello = frame CONNECT 0 ([0, 4, 77, 81, 84, 84, 0x04, 0x02, 0x00, 0x3c, 0, 5, 109, 105, 110, 51, 53]) @
     frame SUBSCRIBE 2 ([0, 1] @ test_topic @ [0x00]) @
     frame PUBLISH 0 (test_topic @ [104, 101, 108, 108, 111, 32, 102, 114, 111, 109, 32, 112, 121, 51, 46, 53])"

lemma program_texts:
  "enc_str (code_points ''min35'') = Inr [0, 5, 109, 105, 110, 51, 53]"
  "enc_str (code_points ''test/min35'') = Inr test_topic"
  "encode_text (code_points ''hello from py3.5'') = Inr [104, 101, 108, 108, 111, 32, 102, 114, 111, 109, 32, 112, 121, 51, 46, 53]"
  by (simp_all add: enc_str_def encode_text_def utf8_char_def res_bind_def code_points_def struct_pack_def be_encode_widths)

text \<open>
  C40: with a broker that answers with a CONNACK and a SUBACK, each in one piece, since \<open>connect\<close> and
  \<open>subscribe\<close> call \<open>recv\<close> once, and then sends what clients like it have published, however cut, until
  it closes the connection, the program sends a CONNECT, a SUBSCRIBE and a PUBLISH frame, prints every
  message in order and returns.
\<close>

theorem program_session:
  assumes "arriving s = connack # suback # cs" and "length connack = 4" and "length suback = 5" and "[] \<notin> set cs"
    and "list_all2 published ms fs" and "concat cs = concat fs" and "length (concat cs) < fuel"
  shows "exp_main fuel s = Some (Inr (), s\<lparr>arriving := [], sent_out := sent_out s @ hello, printed := printed s @ ms\<rparr>)"
proof -
  note sends = exp_connect_sends [OF program_texts(1)] exp_subscribe_sends [OF program_texts(2)]
    exp_publish_sends [OF program_texts(2,3)]
  have "exp_main fuel s = exp_loop fuel (s\<lparr>arriving := cs, sent_out := sent_out s @ hello\<rparr>)"
    using assms(1-3) by (simp add: exp_main_def py_simps sends sock_recv_def hello_def)
  also have "\<dots> = Some (Inr (), s\<lparr>arriving := cs, sent_out := sent_out s @ hello\<rparr>
      \<lparr>arriving := [], printed := printed (s\<lparr>arriving := cs, sent_out := sent_out s @ hello\<rparr>) @ ms\<rparr>)"
    using assms(4-7) by (intro exp_loop_prints) (simp_all add: awake_def stream_def)
  finally show ?thesis by simp
qed

theorem program_session_witness:
  "exp_main 7 \<lparr>arriving = [[0x20, 2, 0, 0], [0x90, 3, 0, 1, 0], [0x30], [4, 0], [1, 97, 98]], sent_out = [], printed = []\<rparr> =
     Some (Inr (), \<lparr>arriving = [], sent_out = hello, printed = [([97], [98])]\<rparr>)"
proof -
  have t: "enc_str [97] = Inr [0, 1, 97]" "encode_text [98] = Inr [98]"
    by (simp_all add: enc_str_def encode_text_def utf8_char_def res_bind_def struct_pack_def be_encode_widths)
  have "frame PUBLISH 0 ([0, 1, 97] @ [98]) = [0x30, 4, 0, 1, 97, 98]"
    by (simp add: frame_def build_header_Cons header_byte_val encode_small)
  then have "published ([97], [98]) [0x30, 4, 0, 1, 97, 98]"
    using exp_publish_sends [OF t, of "\<lparr>arriving = [], sent_out = [], printed = []\<rparr>"]
    by (intro exI [of _ "\<lparr>arriving = [], sent_out = [], printed = []\<rparr>"]) (simp add: scalar_def)
  then have msgs: "list_all2 published [([97], [98])] [[0x30, 4, 0, 1, 97, 98]]" by simp
  show ?thesis
    using program_session [OF _ _ _ _ msgs, of "\<lparr>arriving = [[0x20, 2, 0, 0], [0x90, 3, 0, 1, 0], [0x30], [4, 0], [1, 97, 98]], sent_out = [], printed = []\<rparr>"
        "[0x20, 2, 0, 0]" "[0x90, 3, 0, 1, 0]" "[[0x30], [4, 0], [1, 97, 98]]" 7]
    by simp
qed

end
